(* ===== verification/Prelude.thy ===== *)
theory Prelude
  imports Main "HOL-Library.Word" "HOL-Library.Sublist" "HOL-Library.AList"
begin

text \<open>
  Shared vocabulary of the development: the machine types of the Go code, the outcome of a Go
  call, sequencing of calls that thread a state, big-endian integers (\<^verbatim>\<open>encoding/binary\<close>), and the
  generic lemmas on words and lists that the component theories rely on.
\<close>

unbundle bit_operations_syntax

named_theorems go_simps \<open>unfolding and rewriting rules shared by the component proofs\<close>
named_theorems codec_intros \<open>decoder laws, stated over the bytes a reader offers next\<close>

type_synonym u8 = "8 word"
type_synonym u16 = "16 word"
type_synonym u32 = "32 word"
type_synonym u64 = "64 word"
type_synonym bytes = "8 word list"

section \<open>Error values\<close>

text \<open>
  One constructor per error value the code creates or compares against. Error texts that are only
  printed are kept as the format's literal part; the structured errors keep their fields.
  \<open>EOF\<close> and \<open>ErrUnexpectedEOF\<close> are those of package \<^verbatim>\<open>io\<close>; \<open>IOError\<close> is any other error of the
  connection below (a read or a write that fails); \<open>FlateError\<close> is an error of
  \<^verbatim>\<open>compress/flate\<close>; \<open>StatusError\<close> and \<open>StatusPtr\<close> are a \<^verbatim>\<open>status.Status\<close> returned as a value and through
  a pointer; \<open>AppError\<close> is an error of the application's own code.
\<close>

datatype goerr =
    EOF
  | ErrUnexpectedEOF
  | IOError string
  | FlateError
  | Errorf string
  | FrameTypeMismatchError u8 u8
  | UnexpectedUnassociatedFrameError u8
  | UnexpectedAssociatedFrameError u8
  | InvalidFrameLengthError string
  | InvalidFrameError string
  | UnknownFrameKindError u8
  | ClosedStreamErr
  | StreamResetError u32
  | ConnectionResetError u32 string
  | MessageKindMismatchError u8 u8
  | NoStreamError bool
  | StreamEndError
  | StreamFailure string
  | StreamErrorMsg u16 "(bytes \<times> bytes) list"
  | BadStatus int bytes
  | StatusError int
  | StatusPtr int
  | AppError string

section \<open>Outcomes of a Go call\<close>

text \<open>
  A call returns a value, returns an error, panics, or waits for another goroutine without ever
  returning on the input at hand (\<open>Blocks\<close>).
\<close>

datatype 'a outcome = Ok 'a | Fail goerr | Panic string | Blocks

primrec is_Ok :: "'a outcome \<Rightarrow> bool" where
  "is_Ok (Ok v) = True"
| "is_Ok (Fail e) = False"
| "is_Ok (Panic m) = False"
| "is_Ok Blocks = False"

text \<open>The call returns to its caller, with or without an error.\<close>

primrec returns :: "'a outcome \<Rightarrow> bool" where
  "returns (Ok v) = True"
| "returns (Fail e) = True"
| "returns (Panic m) = False"
| "returns Blocks = False"

text \<open>The call does not panic.\<close>

primrec safe :: "'a outcome \<Rightarrow> bool" where
  "safe (Ok v) = True"
| "safe (Fail e) = True"
| "safe (Panic m) = False"
| "safe Blocks = True"

lemma returns_safe: "returns out \<Longrightarrow> safe out"
  by (cases out) simp_all

text \<open>\<open>bindO\<close> is Go's \<^verbatim>\<open>if err != nil { return err }\<close> after a pure call; \<open>bindR\<close> is the same after a
  call that also changes a state.\<close>

primrec bindO :: "'a outcome \<Rightarrow> ('a \<Rightarrow> 'b outcome) \<Rightarrow> 'b outcome" where
  "bindO (Ok v) f = f v"
| "bindO (Fail e) f = Fail e"
| "bindO (Panic m) f = Panic m"
| "bindO Blocks f = Blocks"

fun bindR :: "'a outcome \<times> 's \<Rightarrow> ('a \<Rightarrow> 's \<Rightarrow> 'b outcome \<times> 's) \<Rightarrow> 'b outcome \<times> 's" where
  "bindR (Ok v, s) f = f v s"
| "bindR (Fail e, s) f = (Fail e, s)"
| "bindR (Panic m, s) f = (Panic m, s)"
| "bindR (Blocks, s) f = (Blocks, s)"

text \<open>The caller looks at the error only to print it.\<close>

fun ignoreErr :: "unit outcome \<times> 's \<Rightarrow> unit outcome \<times> 's" where
  "ignoreErr (Fail e, s) = (Ok (), s)"
| "ignoreErr (out, s) = (out, s)"

lemma snd_ignoreErr [simp]: "snd (ignoreErr m) = snd m"
  by (cases m rule: ignoreErr.cases) simp_all

lemma returns_ignoreErr [simp]: "returns (fst (ignoreErr m)) = returns (fst m)"
  by (cases m rule: ignoreErr.cases) simp_all

lemma ignoreErr_Ok: "returns (fst m) \<Longrightarrow> fst (ignoreErr m) = Ok ()"
  by (cases m rule: ignoreErr.cases) simp_all

lemma safe_ignoreErr [simp]: "safe (fst (ignoreErr m)) = safe (fst m)"
  by (cases m rule: ignoreErr.cases) simp_all

lemma bindO_cong [fundef_cong]:
  "m = m' \<Longrightarrow> (\<And>v. m' = Ok v \<Longrightarrow> f v = g v) \<Longrightarrow> bindO m f = bindO m' g"
  by (cases m') simp_all

lemma bindR_cong [fundef_cong]:
  "m = m' \<Longrightarrow> (\<And>v s. m' = (Ok v, s) \<Longrightarrow> f v s = g v s) \<Longrightarrow> bindR m f = bindR m' g"
  by (cases "(m', f)" rule: bindR.cases) simp_all

lemma returns_bindO: "returns m \<Longrightarrow> (\<And>v. m = Ok v \<Longrightarrow> returns (f v)) \<Longrightarrow> returns (bindO m f)"
  by (cases m) simp_all

lemma returns_bindR:
  "returns (fst m) \<Longrightarrow> (\<And>v s. m = (Ok v, s) \<Longrightarrow> returns (fst (f v s))) \<Longrightarrow> returns (fst (bindR m f))"
  by (cases "(m, f)" rule: bindR.cases) simp_all

lemma safe_bindR:
  "safe (fst m) \<Longrightarrow> (\<And>v s. m = (Ok v, s) \<Longrightarrow> safe (fst (f v s))) \<Longrightarrow> safe (fst (bindR m f))"
  by (cases "(m, f)" rule: bindR.cases) simp_all

lemma bindO_eq_Ok_iff: "bindO m f = Ok w \<longleftrightarrow> (\<exists>v. m = Ok v \<and> f v = Ok w)"
  by (cases m) simp_all

lemma bindR_return: "bindR m (\<lambda>v s. (Ok v, s)) = m"
  by (cases m; cases "fst m") auto

lemma bindR_eq_Ok_iff: "bindR m f = (Ok w, s') \<longleftrightarrow> (\<exists>v s. m = (Ok v, s) \<and> f v s = (Ok w, s'))"
  by (cases "(m, f)" rule: bindR.cases) simp_all

lemma bindR_state_rel:
  assumes "\<And>v s. m = (Ok v, s) \<Longrightarrow> P (snd (f v s))" and "\<not> is_Ok (fst m) \<Longrightarrow> P (snd m)"
  shows "P (snd (bindR m f))"
  using assms by (cases "(m, f)" rule: bindR.cases) auto

lemma bindR_keeps:
  assumes "Q (snd m)" and "\<And>v s. m = (Ok v, s) \<Longrightarrow> Q s \<Longrightarrow> Q (snd (f v s))"
  shows "Q (snd (bindR m f))"
  using assms by (cases "(m, f)" rule: bindR.cases) auto

lemma bindR_fst_Ok: "fst m = Ok v \<Longrightarrow> fst (bindR m f) = fst (f v (snd m))"
  by (cases "(m, f)" rule: bindR.cases) simp_all

lemma outcome_pair_cases [case_names Ok Fail Panic Blocks]:
  obtains v s where "m = (Ok v, s)" | e s where "m = (Fail e, s)" | x s where "m = (Panic x, s)" | s where "m = (Blocks, s)"
  by (cases m; cases "fst m") auto

text \<open>The results of a loop that stops at the first call that does not return a value.\<close>

primrec seqO :: "'a outcome list \<Rightarrow> 'a list outcome" where
  "seqO [] = Ok []"
| "seqO (m # ms) = bindO m (\<lambda>v. bindO (seqO ms) (\<lambda>vs. Ok (v # vs)))"

lemma seqO_eq_Ok_iff: "seqO ms = Ok vs \<longleftrightarrow> ms = map Ok vs"
proof (induction ms arbitrary: vs)
  case Nil
  then show ?case by auto
next
  case (Cons m ms)
  then show ?case by (cases vs) (auto simp: bindO_eq_Ok_iff)
qed

lemma seqO_map_Ok [simp]: "seqO (map (\<lambda>x. Ok (f x)) xs) = Ok (map f xs)"
  by (induction xs) simp_all

lemma seqO_bind_Ok:
  "seqO (map (\<lambda>(i, d). bindO d (\<lambda>x. Ok (h i x))) ids) = Ok ys \<Longrightarrow>
     \<exists>xs. map snd ids = map Ok xs \<and> ys = map2 h (map fst ids) xs"
proof (induction ids arbitrary: ys)
  case (Cons p ids)
  obtain i d where p: "p = (i, d)" by (cases p)
  from Cons.prems p obtain x zs where d: "d = Ok x" and ys: "ys = h i x # zs"
    and zs: "seqO (map (\<lambda>(i, d). bindO d (\<lambda>x. Ok (h i x))) ids) = Ok zs"
    by (auto simp: bindO_eq_Ok_iff)
  from Cons.IH [OF zs] obtain xs where "map snd ids = map Ok xs" and "zs = map2 h (map fst ids) xs" by blast
  with p d ys have "map snd (p # ids) = map Ok (x # xs) \<and> ys = map2 h (map fst (p # ids)) (x # xs)" by simp
  then show ?case by blast
qed simp

lemma seqO_pair_Ok:
  "seqO (map (\<lambda>(k, v). bindO k (\<lambda>x. bindO v (\<lambda>y. Ok (x, y)))) ps) = Ok zs \<Longrightarrow>
     seqO (map fst ps) = Ok (map fst zs) \<and> seqO (map snd ps) = Ok (map snd zs)"
proof (induction ps arbitrary: zs)
  case (Cons p ps)
  then show ?case by (cases p) (fastforce simp: bindO_eq_Ok_iff)
qed simp

section \<open>Slices and sizes\<close>

text \<open>
  \<open>make([]T, n)\<close> panics when the slice does not fit the address space of the runtime (2 to the 48 bytes on
  64-bit platforms) or when \<open>n\<close>, read as an \<^verbatim>\<open>int\<close>, is negative. Below that bound the allocation is
  taken to succeed.
\<close>

definition maxAlloc :: nat where
  "maxAlloc = 2 ^ 48"

definition makeslice :: "nat \<Rightarrow> u64 \<Rightarrow> unit outcome" where
  "makeslice elemsize n =
     (if elemsize * unat n \<le> maxAlloc then Ok () else Panic ''makeslice: len out of range'')"

section \<open>Big-endian integers\<close>

text \<open>\<^verbatim>\<open>binary.BigEndian\<close>: the bytes of a word, most significant first; and the value of a byte
  list, which for an exact length is the inverse.\<close>

definition PutUint16 :: "u16 \<Rightarrow> bytes" where
  "PutUint16 v = [ucast (drop_bit 8 v), ucast v]"

definition PutUint32 :: "u32 \<Rightarrow> bytes" where
  "PutUint32 v = [ucast (drop_bit 24 v), ucast (drop_bit 16 v), ucast (drop_bit 8 v), ucast v]"

definition PutUint64 :: "u64 \<Rightarrow> bytes" where
  "PutUint64 v = [ucast (drop_bit 56 v), ucast (drop_bit 48 v), ucast (drop_bit 40 v),
     ucast (drop_bit 32 v), ucast (drop_bit 24 v), ucast (drop_bit 16 v), ucast (drop_bit 8 v), ucast v]"

text \<open>The readers index the slice and panic when it is too short.\<close>

fun Uint16 :: "bytes \<Rightarrow> u16 outcome" where
  "Uint16 (a # b # _) = Ok (push_bit 8 (ucast a) OR ucast b)"
| "Uint16 _ = Panic ''index out of range''"

fun Uint32 :: "bytes \<Rightarrow> u32 outcome" where
  "Uint32 (a # b # c # d # _) =
     Ok (push_bit 24 (ucast a) OR push_bit 16 (ucast b) OR push_bit 8 (ucast c) OR ucast d)"
| "Uint32 _ = Panic ''index out of range''"

fun Uint64 :: "bytes \<Rightarrow> u64 outcome" where
  "Uint64 (a # b # c # d # e # f # g # h # _) =
     Ok (push_bit 56 (ucast a) OR push_bit 48 (ucast b) OR push_bit 40 (ucast c) OR push_bit 32 (ucast d)
       OR push_bit 24 (ucast e) OR push_bit 16 (ucast f) OR push_bit 8 (ucast g) OR ucast h)"
| "Uint64 _ = Panic ''index out of range''"

lemma length_PutUint [simp]:
  "length (PutUint16 v) = 2" "length (PutUint32 w) = 4" "length (PutUint64 x) = 8"
  by (simp_all add: PutUint16_def PutUint32_def PutUint64_def)

lemma byte_OR_low:
  "push_bit k (take_bit 8 (drop_bit k v)) OR take_bit k v = take_bit (k + 8) (v :: 'a::len word)"
  by (rule bit_word_eqI) (auto simp: bit_simps)

lemma low_byte: "ucast (ucast v :: u8) = take_bit 8 (v :: 'a::len word)"
  by (rule bit_word_eqI) (auto simp: bit_simps)

lemmas byte_OR_low_numeral =
  byte_OR_low [of 8, simplified arith_simps] byte_OR_low [of 16, simplified arith_simps]
  byte_OR_low [of 24, simplified arith_simps] byte_OR_low [of 32, simplified arith_simps]
  byte_OR_low [of 40, simplified arith_simps] byte_OR_low [of 48, simplified arith_simps]
  byte_OR_low [of 56, simplified arith_simps]

lemma Uint16_PutUint16 [simp]: "Uint16 (PutUint16 v @ rest) = Ok v"
  by (simp only: PutUint16_def append_Cons Uint16.simps low_byte byte_OR_low_numeral)
    (simp add: take_bit_word_eq_self)

lemma Uint32_PutUint32 [simp]: "Uint32 (PutUint32 v @ rest) = Ok v"
  by (simp only: PutUint32_def append_Cons Uint32.simps low_byte byte_OR_low_numeral)
    (simp add: take_bit_word_eq_self)

lemma Uint64_PutUint64 [simp]: "Uint64 (PutUint64 v @ rest) = Ok v"
  by (simp only: PutUint64_def append_Cons Uint64.simps low_byte byte_OR_low_numeral)
    (simp add: take_bit_word_eq_self)

lemmas Uint_PutUint_Nil [simp] =
  Uint16_PutUint16 [where rest = "[]", simplified append_Nil2]
  Uint32_PutUint32 [where rest = "[]", simplified append_Nil2]
  Uint64_PutUint64 [where rest = "[]", simplified append_Nil2]

section \<open>Words\<close>

lemma unat_of_nat_small: "n < 2 ^ LENGTH('a) \<Longrightarrow> unat (of_nat n :: 'a::len word) = n"
  by (simp add: unat_of_nat take_bit_nat_eq_self)

lemma flag_set_iff: "(x AND push_bit n 1 \<noteq> (0 :: 'a::len word)) = bit x n"
proof
  assume "bit x n"
  then have "bit (x AND push_bit n 1) n"
    by (auto simp: bit_simps dest: bit_imp_le_length)
  then show "x AND push_bit n 1 \<noteq> 0" by auto
next
  assume "x AND push_bit n 1 \<noteq> 0"
  then obtain k where "bit (x AND push_bit n 1) k"
    by (metis bit_eqI bit_0_eq bot_apply bot_bool_def)
  then show "bit x n" by (auto simp: bit_simps bit_1_iff)
qed

section \<open>Lists\<close>

lemma prefix_append_nonempty_drop:
  "prefix (xs @ ys) zs \<Longrightarrow> ys \<noteq> [] \<Longrightarrow> length xs < length zs \<and> prefix ys (drop (length xs) zs)"
  by (auto simp: prefix_def)

lemma prefix_appendD1: "prefix (xs @ ys) zs \<Longrightarrow> prefix xs zs"
  by (auto simp: prefix_def)

lemma take_prefix: "prefix xs zs \<Longrightarrow> take (length xs) zs = xs"
  by (auto simp: prefix_def)

text \<open>Association lists, for Go maps.\<close>

lemma set_update_subset: "set (AList.update k v al) \<subseteq> insert (k, v) (set al)"
  by (induction al) auto

lemma in_updateD: "x \<in> set (AList.update k v al) \<Longrightarrow> x = (k, v) \<or> x \<in> set al"
  using set_update_subset by fastforce

lemma in_update: "(k, v) \<in> set (AList.update k v al)"
  by (induction al) auto

lemma keys_update: "map fst (AList.update k v al) = (if k \<in> fst ` set al then map fst al else map fst al @ [k])"
  by (induction al) auto

lemma update_new: "map_of al k = None \<Longrightarrow> AList.update k v al = al @ [(k, v)]"
  by (induction al) (auto split: if_splits)

lemma in_delete: "(k', v) \<in> set (AList.delete k al) \<longleftrightarrow> (k', v) \<in> set al \<and> k' \<noteq> k"
  by (auto simp: AList.delete_eq)

lemma append_longer: "xs @ ys = us @ vs \<Longrightarrow> length xs \<le> length us \<Longrightarrow> \<exists>ws. us = xs @ ws \<and> ys = ws @ vs"
  by (auto simp: append_eq_append_conv2)

end
