(* ===== verification/Go_IO.thy ===== *)
theory Go_IO
  imports Prelude
begin

text \<open>
  The readers of package \<^verbatim>\<open>io\<close> as the code uses them: a source that hands out its bytes in chunks
  (a \<^verbatim>\<open>bytes.Reader\<close> has one chunk, a network connection or a stream one per arrival),
  \<^verbatim>\<open>io.LimitReader\<close> and \<^verbatim>\<open>io.ReadFull\<close>. The section on abstractions gives the three views of a
  reader that the decoders' proofs use: everything still to be read (\<open>rflat\<close>), what one call of Read
  can return (\<open>rpeek\<close>), and the reader after some bytes of it (\<open>radv\<close>).
\<close>

section \<open>Readers\<close>

text \<open>
  \<open>Base cs t\<close> is a source with chunks \<open>cs\<close> left; when they are exhausted Read returns the error
  \<open>t\<close>, or waits when \<open>t\<close> is \<open>None\<close>. One Read never crosses a chunk, and returns no empty chunk for
  a non-empty buffer. \<open>Limit r N\<close> is \<^verbatim>\<open>io.LimitReader(r, N)\<close>: it shares \<open>r\<close>, and \<open>N\<close> counts down.
\<close>

datatype reader = Base "bytes list" "goerr option" | Limit reader int

abbreviation NewReader :: "bytes \<Rightarrow> reader" where
  "NewReader bs \<equiv> Base [bs] (Some EOF)"

primrec pending :: "bytes list \<Rightarrow> bytes list" where
  "pending [] = []"
| "pending (c # cs) = (if c = [] then pending cs else c # cs)"

fun Read :: "nat \<Rightarrow> reader \<Rightarrow> bytes outcome \<times> reader" where
  "Read n (Base cs t) =
     (case pending cs of
        [] \<Rightarrow> (case t of None \<Rightarrow> Blocks | Some e \<Rightarrow> Fail e, Base [] t)
      | c # cs' \<Rightarrow> (Ok (take n c), Base (drop n c # cs') t))"
| "Read n (Limit r N) =
     (if N \<le> 0 then (Fail EOF, Limit r N)
      else case Read (min n (nat N)) r of
        (Ok bs, r') \<Rightarrow> (Ok bs, Limit r' (N - int (length bs)))
      | (out, r') \<Rightarrow> (out, Limit r' N))"

fun underlying :: "reader \<Rightarrow> reader" where
  "underlying (Limit r N) = r"
| "underlying (Base cs t) = Base cs t"

fun rsize :: "reader \<Rightarrow> nat" where
  "rsize (Base cs t) = length (concat cs)"
| "rsize (Limit r N) = rsize r"

lemma pending_NilD: "pending cs = [] \<Longrightarrow> concat cs = []"
  by (induction cs) (auto split: if_splits)

lemma pending_ConsD: "pending cs = c # cs' \<Longrightarrow> c \<noteq> [] \<and> concat cs = c @ concat cs'"
  by (induction cs) (auto split: if_splits)

lemma pending_filter: "filter (\<lambda>c. c \<noteq> []) (pending cs) = filter (\<lambda>c. c \<noteq> []) cs"
  by (induction cs) auto

lemma pending_hd: "filter (\<lambda>c. c \<noteq> []) cs = c # cs' \<Longrightarrow> \<exists>ds. pending cs = c # ds \<and> filter (\<lambda>c. c \<noteq> []) ds = cs'"
  by (induction cs) (auto split: if_splits)

lemma pending_none: "filter (\<lambda>c. c \<noteq> []) cs = [] \<longleftrightarrow> pending cs = []"
  by (induction cs) (auto simp: filter_empty_conv)

lemma Read_rsize_le: "rsize (snd (Read n r)) \<le> rsize r"
  by (induction n r rule: Read.induct) 
    (auto split: option.splits prod.splits outcome.splits list.splits dest: pending_NilD pending_ConsD)

lemma Read_Ok_rsize:
  "Read n r = (Ok bs, r') \<Longrightarrow> length bs \<le> n \<and> rsize r = length bs + rsize r' \<and> (0 < n \<longrightarrow> bs \<noteq> [])"
proof (induction n r arbitrary: bs r' rule: Read.induct)
  case (2 n r N)
  show ?case
  proof (cases "N \<le> 0")
    case False
    with "2.prems" obtain r'' where r: "Read (min n (nat N)) r = (Ok bs, r'')"
      and r': "r' = Limit r'' (N - int (length bs))"
      by (auto split: prod.splits outcome.splits)
    from "2.IH" [OF False r] False r' show ?thesis by auto
  qed (use "2.prems" in simp)
qed (auto split: list.splits option.splits dest: pending_ConsD)

lemma Read_Ok_shrinks: "0 < n \<Longrightarrow> Read n r = (Ok bs, r') \<Longrightarrow> rsize r' < rsize r"
  using Read_Ok_rsize [of n r bs r'] by (cases bs) auto

lemma Read_1_Ok: "Read (Suc 0) r = (Ok bs, r') \<Longrightarrow> length bs = 1"
  using Read_Ok_rsize [of "Suc 0" r bs r'] by (cases bs) auto

text \<open>\<^verbatim>\<open>io.ReadFull(r, buf)\<close> for a buffer of \<open>n\<close> bytes: \<open>acc\<close> is what has been read so far; an end of
  file after some bytes is \<^verbatim>\<open>ErrUnexpectedEOF\<close>.\<close>

function ReadFull_loop :: "nat \<Rightarrow> bytes \<Rightarrow> reader \<Rightarrow> bytes outcome \<times> reader" where
  "ReadFull_loop n acc r =
     (if n \<le> length acc then (Ok acc, r)
      else case Read (n - length acc) r of
        (Ok bs, r') \<Rightarrow> ReadFull_loop n (acc @ bs) r'
      | (Fail e, r') \<Rightarrow> (Fail (if e = EOF \<and> acc \<noteq> [] then ErrUnexpectedEOF else e), r')
      | (out, r') \<Rightarrow> (out, r'))"
  by pat_completeness auto
termination
  by (relation "measure (\<lambda>(n, acc, r). rsize r)") (auto dest: Read_Ok_shrinks [rotated, OF sym])

declare ReadFull_loop.simps [simp del]

definition ReadFull :: "nat \<Rightarrow> reader \<Rightarrow> bytes outcome \<times> reader" where
  "ReadFull n r = ReadFull_loop n [] r"

section \<open>Abstractions\<close>

text \<open>All the bytes still to be read.\<close>

fun rflat :: "reader \<Rightarrow> bytes" where
  "rflat (Base cs t) = concat cs"
| "rflat (Limit r N) = take (nat N) (rflat r)"

text \<open>The bytes one Read with a large enough buffer returns.\<close>

fun rpeek :: "reader \<Rightarrow> bytes" where
  "rpeek (Base cs t) = (case pending cs of [] \<Rightarrow> [] | c # _ \<Rightarrow> c)"
| "rpeek (Limit r N) = take (nat N) (rpeek r)"

text \<open>The reader after \<open>k\<close> of those bytes.\<close>

fun radv :: "nat \<Rightarrow> reader \<Rightarrow> reader" where
  "radv k (Base cs t) = (case pending cs of [] \<Rightarrow> Base [] t | c # cs' \<Rightarrow> Base (drop k c # cs') t)"
| "radv k (Limit r N) = Limit (radv k r) (N - int k)"

lemma Read_rpeek:
  "rpeek r \<noteq> [] \<Longrightarrow> Read n r = (Ok (take n (rpeek r)), radv (min n (length (rpeek r))) r)"
proof (induction n r rule: Read.induct)
  case (1 n cs t)
  then show ?case by (auto simp: min_def split: list.splits)
next
  case (2 n r N)
  then have pos: "\<not> N \<le> 0" and ne: "rpeek r \<noteq> []" by auto
  from "2.IH" [OF pos ne] pos show ?case
    by (simp add: min.assoc min.commute min.left_commute)
qed

lemma rpeek_radv: "k < length (rpeek r) \<Longrightarrow> rpeek (radv k r) = drop k (rpeek r)"
  by (induction k r rule: radv.induct) (auto simp: drop_take nat_diff_distrib' split: list.splits)

lemma radv_radv: "k < length (rpeek r) \<Longrightarrow> radv j (radv k r) = radv (k + j) r"
  by (induction k r rule: radv.induct) (auto simp: add.commute split: list.splits)

lemma radv_rsize: "k \<le> length (rpeek r) \<Longrightarrow> rsize r = k + rsize (radv k r)"
  by (induction k r rule: radv.induct)
    (auto split: list.splits dest: pending_ConsD pending_NilD)

text \<open>A decoder that reads a prefix and goes on: the rest of the prefix is what is offered next.\<close>

lemma prefix_rpeek_radv:
  assumes "prefix (xs @ ys) (rpeek r)" and "ys \<noteq> []"
  shows "prefix ys (rpeek (radv (length xs) r))" and "radv j (radv (length xs) r) = radv (length xs + j) r"
  using prefix_append_nonempty_drop [OF assms] by (simp_all add: rpeek_radv radv_radv)

lemma Read_prefix:
  assumes "prefix xs (rpeek r)" and "xs \<noteq> []"
  shows "Read (length xs) r = (Ok xs, radv (length xs) r)"
proof -
  from assms have "rpeek r \<noteq> []" and "length xs \<le> length (rpeek r)"
    by (auto dest: prefix_length_le)
  with assms(1) show ?thesis by (simp add: Read_rpeek take_prefix)
qed

lemma Read_Cons_prefix: "prefix (b # xs) (rpeek r) \<Longrightarrow> Read (Suc 0) r = (Ok [b], radv (Suc 0) r)"
  using Read_prefix [of "[b]" r] by (auto simp: prefix_def)

lemma ReadFull_prefix:
  assumes "prefix xs (rpeek r)" and "xs \<noteq> []"
  shows "ReadFull (length xs) r = (Ok xs, radv (length xs) r)"
  using assms by (simp add: ReadFull_def ReadFull_loop.simps [of _ "[]"] Read_prefix ReadFull_loop.simps [of _ xs])

text \<open>The same for a possibly empty run of bytes.\<close>

definition rskip :: "nat \<Rightarrow> reader \<Rightarrow> reader" where
  "rskip k r = (if k = 0 then r else radv k r)"

lemma rskip_simps [simp]: "rskip 0 r = r" "0 < k \<Longrightarrow> rskip k r = radv k r"
  by (simp_all add: rskip_def)

lemma rskip_next:
  assumes "prefix (xs @ ys) (rpeek r)"
  shows "prefix ys (rpeek (rskip (length xs) r))"
    and "rskip (length ys) (rskip (length xs) r) = rskip (length xs + length ys) r"
proof -
  have "ys = [] \<or> prefix ys (rpeek (radv (length xs) r)) \<and> radv (length ys) (radv (length xs) r) = radv (length xs + length ys) r"
    using prefix_rpeek_radv [OF assms] by blast
  then show "prefix ys (rpeek (rskip (length xs) r))"
    and "rskip (length ys) (rskip (length xs) r) = rskip (length xs + length ys) r"
    using assms by (auto simp: rskip_def)
qed

section \<open>The contract of a reader\<close>

text \<open>
  What the documentation of \<^verbatim>\<open>io.Reader\<close> promises and the callers rely on: bytes come out in order,
  at most as many as asked for, and while there are bytes a Read of a non-empty buffer returns some.
\<close>

locale io_reader =
  fixes read :: "nat \<Rightarrow> 'r \<Rightarrow> bytes outcome \<times> 'r"
    and contents :: "'r \<Rightarrow> bytes"
    and inv :: "'r \<Rightarrow> bool"
  assumes read_inv: "inv r \<Longrightarrow> inv (snd (read n r))"
    and read_in_order: "inv r \<Longrightarrow> read n r = (Ok bs, r') \<Longrightarrow> contents r = bs @ contents r' \<and> length bs \<le> n"
    and read_progress: "inv r \<Longrightarrow> 0 < n \<Longrightarrow> contents r \<noteq> [] \<Longrightarrow> \<exists>bs r'. read n r = (Ok bs, r') \<and> bs \<noteq> []"
begin

text \<open>A run of successful reads with buffers of given sizes, and what they returned.\<close>

inductive reads :: "'r \<Rightarrow> nat list \<Rightarrow> bytes list \<Rightarrow> 'r \<Rightarrow> bool" where
  reads_Nil: "reads r [] [] r"
| reads_Cons: "read n r = (Ok bs, r') \<Longrightarrow> reads r' ns bss r'' \<Longrightarrow> reads r (n # ns) (bs # bss) r''"

lemma read_inv_Ok: "inv r \<Longrightarrow> read n r = (Ok bs, r') \<Longrightarrow> inv r'"
  using read_inv [of r n] by simp

lemma reads_in_order: "reads r ns bss r' \<Longrightarrow> inv r \<Longrightarrow> contents r = concat bss @ contents r' \<and> inv r'"
proof (induction rule: reads.induct)
  case (reads_Cons n r bs r' ns bss r'')
  from read_inv_Ok [OF reads_Cons.prems reads_Cons.hyps(1)] have "inv r'" .
  with reads_Cons.IH read_in_order [OF reads_Cons.prems reads_Cons.hyps(1)] show ?case by simp
qed simp

text \<open>Any contents can be drained, whatever the chunks.\<close>

lemma reads_drain:
  "inv r \<Longrightarrow> 0 < n \<Longrightarrow> \<exists>k bss r'. reads r (replicate k n) bss r' \<and> contents r = concat bss \<and> contents r' = []"
proof (induction "length (contents r)" arbitrary: r rule: less_induct)
  case less
  show ?case
  proof (cases "contents r = []")
    case True
    then have "reads r (replicate 0 n) [] r \<and> contents r = concat [] \<and> contents r = []"
      by (simp add: reads_Nil)
    then show ?thesis by blast
  next
    case False
    with less.prems obtain bs r' where rd: "read n r = (Ok bs, r')" and ne: "bs \<noteq> []"
      using read_progress by blast
    from read_in_order [OF less.prems(1) rd] have app: "contents r = bs @ contents r'" by simp
    with ne have "length (contents r') < length (contents r)" by simp
    from less.hyps [OF this read_inv_Ok [OF less.prems(1) rd] less.prems(2)] obtain k bss r''
      where ih: "reads r' (replicate k n) bss r''" "contents r' = concat bss" "contents r'' = []"
      by blast
    have "reads r (replicate (Suc k) n) (bs # bss) r''"
      using reads_Cons [OF rd ih(1)] by simp
    moreover have "contents r = concat (bs # bss)" using app ih(2) by simp
    ultimately show ?thesis using ih(3) by blast
  qed
qed

end

lemma Read_rflat: "Read n r = (Ok bs, r') \<Longrightarrow> rflat r = bs @ rflat r'"
proof (induction n r arbitrary: bs r' rule: Read.induct)
  case (2 n r N)
  show ?case
  proof (cases "N \<le> 0")
    case False
    with "2.prems" obtain r'' where r: "Read (min n (nat N)) r = (Ok bs, r'')"
      and r': "r' = Limit r'' (N - int (length bs))"
      by (auto split: prod.splits outcome.splits)
    from Read_Ok_rsize [OF r] have "length bs \<le> nat N" by simp
    with "2.IH" [OF False r] r' False show ?thesis
      by (simp add: nat_diff_distrib')
  qed (use "2.prems" in simp)
qed (auto split: list.splits option.splits dest: pending_ConsD)

lemma Read_progress: "rflat r \<noteq> [] \<Longrightarrow> \<exists>bs r'. Read n r = (Ok bs, r')"
proof (induction n r rule: Read.induct)
  case (2 n r N)
  then have pos: "\<not> N \<le> 0" and ne: "rflat r \<noteq> []" by auto
  from "2.IH" [OF pos ne] pos show ?case by auto
qed (auto split: list.splits dest: pending_NilD)

interpretation rd: io_reader Read rflat "\<lambda>r. True"
proof
  fix n r bs r'
  assume "Read n r = (Ok bs, r')"
  then show "rflat r = bs @ rflat r' \<and> length bs \<le> n"
    using Read_rflat Read_Ok_rsize by blast
next
  fix n :: nat and r
  assume "0 < n" and "rflat r \<noteq> []"
  then show "\<exists>bs r'. Read n r = (Ok bs, r') \<and> bs \<noteq> []"
    using Read_progress [of r n] Read_Ok_rsize by blast
qed simp

text \<open>ReadFull does not depend on the chunks: it returns the next \<open>n\<close> bytes when there are that many.\<close>

lemma ReadFull_loop_flat:
  "length acc \<le> n \<Longrightarrow> n - length acc \<le> length (rflat r) \<Longrightarrow>
     \<exists>r'. ReadFull_loop n acc r = (Ok (acc @ take (n - length acc) (rflat r)), r') \<and>
          rflat r' = drop (n - length acc) (rflat r)"
proof (induction n acc r rule: ReadFull_loop.induct)
  case (1 n acc r)
  show ?case
  proof (cases "n \<le> length acc")
    case True
    with "1.prems" show ?thesis by (simp add: ReadFull_loop.simps)
  next
    case False
    with "1.prems" have "rflat r \<noteq> []" by auto
    then obtain bs r' where rd: "Read (n - length acc) r = (Ok bs, r')"
      using Read_progress by blast
    from rd.read_in_order [OF TrueI rd] have flat: "rflat r = bs @ rflat r'" and le: "length bs \<le> n - length acc"
      by auto
    from "1.IH" [OF False rd [symmetric] refl] flat le False "1.prems" show ?thesis
      by (simp add: ReadFull_loop.simps [of n acc r] rd)
  qed
qed

lemma ReadFull_flat:
  "n \<le> length (rflat r) \<Longrightarrow> \<exists>r'. ReadFull n r = (Ok (take n (rflat r)), r') \<and> rflat r' = drop n (rflat r)"
  using ReadFull_loop_flat [of "[]" n r] by (simp add: ReadFull_def)

lemma ReadFull_Ok_rsize_loop:
  "ReadFull_loop n acc r = (Ok bs, r') \<Longrightarrow> length acc \<le> n \<Longrightarrow> length bs = n \<and> rsize r' + n = rsize r + length acc"
proof (induction n acc r rule: ReadFull_loop.induct)
  case (1 n acc r)
  show ?case
  proof (cases "n \<le> length acc")
    case True
    with "1.prems" show ?thesis by (simp add: ReadFull_loop.simps)
  next
    case False
    with "1.prems" obtain cs r1 where rd: "Read (n - length acc) r = (Ok cs, r1)"
      and loop: "ReadFull_loop n (acc @ cs) r1 = (Ok bs, r')"
      by (auto simp: ReadFull_loop.simps [of n acc r] split: prod.splits outcome.splits)
    from Read_Ok_rsize [OF rd] have "length (acc @ cs) \<le> n" and "rsize r = length cs + rsize r1"
      using False by auto
    with "1.IH" [OF False rd [symmetric] refl loop] show ?thesis by auto
  qed
qed

lemma ReadFull_Ok_rsize: "ReadFull n r = (Ok bs, r') \<Longrightarrow> length bs = n \<and> rsize r = n + rsize r'"
  using ReadFull_Ok_rsize_loop [of n "[]" r bs r'] by (simp add: ReadFull_def)

lemma ReadFull_rsize_le: "rsize (snd (ReadFull n r)) \<le> rsize r"
proof -
  have "rsize (snd (ReadFull_loop n acc r)) \<le> rsize r" for acc
  proof (induction n acc r rule: ReadFull_loop.induct)
    case (1 n acc r)
    have "rsize (snd (Read (n - length acc) r)) \<le> rsize r" by (rule Read_rsize_le)
    with 1 show ?case
      by (subst ReadFull_loop.simps) (fastforce split: prod.splits outcome.splits)
  qed
  then show ?thesis by (simp add: ReadFull_def)
qed

section \<open>Sources that end\<close>

text \<open>A source whose end is reported by an error never makes its reader wait.\<close>

fun ends :: "reader \<Rightarrow> bool" where
  "ends (Base cs t) \<longleftrightarrow> t \<noteq> None"
| "ends (Limit r N) \<longleftrightarrow> ends r"

lemma Read_ends: "ends r \<Longrightarrow> returns (fst (Read n r)) \<and> ends (snd (Read n r))"
proof (induction n r rule: Read.induct)
  case (2 n r N)
  then show ?case by (cases "N \<le> 0"; cases "Read (min n (nat N)) r" rule: outcome_pair_cases) auto
qed (auto split: option.splits list.splits)

lemma ReadFull_ends: "ends r \<Longrightarrow> returns (fst (ReadFull n r)) \<and> ends (snd (ReadFull n r))"
proof -
  have "ends r \<Longrightarrow> returns (fst (ReadFull_loop n acc r)) \<and> ends (snd (ReadFull_loop n acc r))" for acc
  proof (induction n acc r rule: ReadFull_loop.induct)
    case (1 n acc r)
    show ?case
    proof (cases "n \<le> length acc")
      case True
      with "1.prems" show ?thesis by (simp add: ReadFull_loop.simps)
    next
      case False
      note this_step = ReadFull_loop.simps [of n acc r]
      show ?thesis
      proof (cases "Read (n - length acc) r" rule: outcome_pair_cases)
        case (Ok bs r')
        with Read_ends [OF "1.prems", of "n - length acc"] "1.IH" [OF False Ok [symmetric] refl] False show ?thesis
          by (simp add: this_step)
      qed (use Read_ends [OF "1.prems", of "n - length acc"] False in \<open>simp_all add: this_step\<close>)
    qed
  qed
  then show "ends r \<Longrightarrow> returns (fst (ReadFull n r)) \<and> ends (snd (ReadFull n r))" by (simp add: ReadFull_def)
qed

section \<open>Sources that stay open\<close>

text \<open>A source with its end \<open>t\<close>; reading from it does not change its end.\<close>

definition source :: "goerr option \<Rightarrow> reader \<Rightarrow> bool" where
  "source t r \<longleftrightarrow> (\<exists>cs. r = Base cs t)"

lemma Read_Base: "\<exists>cs'. snd (Read n (Base cs t)) = Base cs' t"
  by (auto split: list.splits)

lemma ReadFull_loop_Base: "\<exists>cs'. snd (ReadFull_loop n acc (Base cs t)) = Base cs' t"
proof (induction "length (concat cs)" arbitrary: cs acc rule: less_induct)
  case less
  show ?case
  proof (cases "n \<le> length acc")
    case False
    obtain out cs1 where rd: "Read (n - length acc) (Base cs t) = (out, Base cs1 t)"
      using Read_Base [of "n - length acc" cs t] by (metis prod.collapse)
    note this_step = ReadFull_loop.simps [of n acc "Base cs t", unfolded rd]
    show ?thesis
    proof (cases out)
      case (Ok bs)
      have "length (concat cs1) < length (concat cs)"
        using Read_Ok_shrinks [of "n - length acc" "Base cs t"] rd Ok False by fastforce
      from less [OF this] Ok False show ?thesis by (simp add: this_step)
    qed (use False in \<open>simp_all add: this_step\<close>)
  qed (simp add: ReadFull_loop.simps)
qed

text \<open>Part of what is asked for, on a connection that is still open: the read waits.\<close>

lemma ReadFull_loop_waits:
  "length acc + length (concat cs) < n \<Longrightarrow> fst (ReadFull_loop n acc (Base cs None)) = Blocks"
proof (induction "length (concat cs)" arbitrary: cs acc rule: less_induct)
  case less
  obtain out cs1 where rd: "Read (n - length acc) (Base cs None) = (out, Base cs1 None)"
    using Read_Base [of "n - length acc" cs None] by (metis prod.collapse)
  note this_step = ReadFull_loop.simps [of n acc "Base cs None", unfolded rd]
  show ?case
  proof (cases "pending cs = []")
    case True
    with rd less.prems show ?thesis by (simp add: this_step)
  next
    case False
    then obtain bs where Ok: "out = Ok bs" using rd by (auto simp: neq_Nil_conv)
    with rd have r: "Read (n - length acc) (Base cs None) = (Ok bs, Base cs1 None)" by simp
    have "concat cs = bs @ concat cs1" using Read_rflat [OF r] by simp
    moreover have "length (concat cs1) < length (concat cs)" using Read_Ok_shrinks [OF _ r] less.prems by simp
    ultimately show ?thesis using less.hyps [of cs1 "acc @ bs"] less.prems Ok by (simp add: this_step)
  qed
qed

end
