(* ===== verification/Codec.thy ===== *)
theory Codec
  imports Go_IO
begin

text \<open>
  The contract between an encoder and its decoder that every pair of the code promises, and what
  follows from it once for all: the encoding is a prefix code, a decoder leaves the reader right
  after the value, and a counted loop of decoders reads back a list of values.
\<close>

text \<open>\<^verbatim>\<open>for i := range n { xs[i], err = dec(r); if err != nil { return err } }\<close>\<close>

primrec rloop :: "nat \<Rightarrow> (reader \<Rightarrow> 'a outcome \<times> reader) \<Rightarrow> reader \<Rightarrow> 'a list outcome \<times> reader" where
  "rloop 0 dec r = (Ok [], r)"
| "rloop (Suc n) dec r = bindR (dec r) (\<lambda>v r. bindR (rloop n dec r) (\<lambda>vs r. (Ok (v # vs), r)))"

lemma rloop_Ok_length: "rloop n dec r = (Ok vs, r') \<Longrightarrow> length vs = n"
  by (induction n arbitrary: vs r) (auto simp: bindR_eq_Ok_iff)

locale codec =
  fixes enc :: "'a \<Rightarrow> bytes"
    and dec :: "reader \<Rightarrow> 'a outcome \<times> reader"
    and ok :: "'a \<Rightarrow> bool"
  assumes enc_nonempty: "ok v \<Longrightarrow> enc v \<noteq> []"
    and dec_enc: "ok v \<Longrightarrow> prefix (enc v) (rpeek r) \<Longrightarrow> dec r = (Ok v, radv (length (enc v)) r)"
begin

lemma dec_NewReader: "ok v \<Longrightarrow> dec (NewReader (enc v @ rest)) = (Ok v, NewReader rest)"
  using dec_enc [of v "NewReader (enc v @ rest)"] enc_nonempty [of v]
  by (cases "enc v") (auto simp: prefix_def)

text \<open>One value read, the next ones still offered.\<close>

lemma dec_next:
  assumes "ok v" and "prefix (enc v @ ys) (rpeek r)" and "ys \<noteq> []"
  shows "dec r = (Ok v, radv (length (enc v)) r)"
    and "prefix ys (rpeek (radv (length (enc v)) r))"
    and "radv j (radv (length (enc v)) r) = radv (length (enc v) + j) r"
  using assms dec_enc prefix_appendD1 prefix_rpeek_radv by blast+

lemma prefix_code:
  assumes "ok v" and "ok w" and "enc v @ xs = enc w @ ys"
  shows "v = w" and "xs = ys"
proof -
  have "(Ok v, NewReader xs) = (Ok w, NewReader ys)"
    using dec_NewReader [OF assms(1), of xs] dec_NewReader [OF assms(2), of ys]
    unfolding assms(3) by simp
  then show "v = w" and "xs = ys" by simp_all
qed

lemma enc_inject: "ok v \<Longrightarrow> ok w \<Longrightarrow> enc v = enc w \<longleftrightarrow> v = w"
  using prefix_code [of v w "[]" "[]"] by auto

lemma rloop_enc:
  "\<forall>v\<in>set vs. ok v \<Longrightarrow> vs \<noteq> [] \<Longrightarrow> prefix (concat (map enc vs)) (rpeek r) \<Longrightarrow>
     rloop (length vs) dec r = (Ok vs, radv (length (concat (map enc vs))) r)"
proof (induction vs arbitrary: r)
  case Nil
  then show ?case by simp
next
  case (Cons v vs)
  show ?case
  proof (cases "vs = []")
    case True
    with Cons.prems show ?thesis by (simp add: dec_enc)
  next
    case False
    then obtain w ws where vs: "vs = w # ws" by (cases vs) auto
    with Cons.prems have ne: "concat (map enc vs) \<noteq> []" by (simp add: enc_nonempty)
    from Cons.prems have p: "prefix (enc v @ concat (map enc vs)) (rpeek r)" and "ok v" by simp_all
    note step = dec_next [OF \<open>ok v\<close> p ne]
    from Cons.IH [OF _ False step(2)] Cons.prems step(1,3) show ?thesis
      by (simp add: length_concat)
  qed
qed

end

section \<open>Sequences of decoders\<close>

text \<open>\<open>reads_back dec bs v\<close>: from any reader that offers \<open>bs\<close> next, the decoder returns \<open>v\<close> and leaves the reader right after
  \<open>bs\<close>. Decoders composed by \<open>bindR\<close> read back the concatenation of what they read back.\<close>

definition reads_back :: "(reader \<Rightarrow> 'a outcome \<times> reader) \<Rightarrow> bytes \<Rightarrow> 'a \<Rightarrow> bool" where
  "reads_back dec bs v \<longleftrightarrow> (\<forall>r. prefix bs (rpeek r) \<longrightarrow> dec r = (Ok v, rskip (length bs) r))"

lemma reads_backD: "reads_back dec bs v \<Longrightarrow> prefix bs (rpeek r) \<Longrightarrow> dec r = (Ok v, rskip (length bs) r)"
  by (simp add: reads_back_def)

lemma reads_back_return [codec_intros]: "reads_back (\<lambda>r. (Ok v, r)) [] v"
  by (simp add: reads_back_def)

lemma reads_back_bind [codec_intros]:
  assumes "reads_back d bs v" and "reads_back (f v) cs w"
  shows "reads_back (\<lambda>r. bindR (d r) f) (bs @ cs) w"
  unfolding reads_back_def
proof (intro allI impI)
  fix r
  assume p: "prefix (bs @ cs) (rpeek r)"
  note q = rskip_next [OF p]
  show "bindR (d r) f = (Ok w, rskip (length (bs @ cs)) r)"
    using reads_backD [OF assms(1) prefix_appendD1 [OF p]] reads_backD [OF assms(2) q(1)] q(2) by simp
qed

lemma reads_back_last:
  assumes "reads_back d bs v" and "\<And>r. f v r = (Ok w, r)"
  shows "reads_back (\<lambda>r. bindR (d r) f) bs w"
  using reads_back_bind [of d bs v f "[]" w] assms by (simp add: reads_back_def)

lemma reads_back_rloop:
  "list_all2 (reads_back dec) bss vs \<Longrightarrow> reads_back (rloop (length bss) dec) (concat bss) vs"
proof (induction rule: list_all2_induct)
  case Nil
  then show ?case by (simp add: reads_back_def)
next
  case (Cons bs bss v vs)
  show ?case
    by (simp, rule reads_back_bind [OF Cons.hyps(1)]) (rule reads_back_last [OF Cons.IH], simp)
qed

text \<open>A source whose next non-empty chunk starts with an encoding: the rest of the chunk is next.\<close>

lemma reads_back_chunk:
  assumes "reads_back dec bs v" and "bs \<noteq> []" and "filter (\<lambda>c. c \<noteq> []) cs = (bs @ xs) # css"
  shows "\<exists>cs'. dec (Base cs t) = (Ok v, Base cs' t) \<and> filter (\<lambda>c. c \<noteq> []) cs' = (if xs = [] then css else xs # css)"
proof -
  from pending_hd [OF assms(3)] obtain ds where ds: "pending cs = (bs @ xs) # ds" "filter (\<lambda>c. c \<noteq> []) ds = css" by blast
  then have "prefix bs (rpeek (Base cs t))" by simp
  from reads_backD [OF assms(1) this] assms(2) ds(1) have "dec (Base cs t) = (Ok v, Base (xs # ds) t)" by simp
  moreover have "filter (\<lambda>c. c \<noteq> []) (xs # ds) = (if xs = [] then css else xs # css)" using ds(2) by simp
  ultimately show ?thesis by blast
qed

context codec
begin

lemma reads_back: "ok v \<Longrightarrow> reads_back dec (enc v) v"
  using dec_enc enc_nonempty by (simp add: reads_back_def)

end

section \<open>Decoders that do not depend on the chunks\<close>

text \<open>
  The stronger contract of a decoder that fills its buffers: it does not depend on where the chunks of the reader end.
\<close>

locale chunkfree =
  fixes enc :: "'a \<Rightarrow> bytes"
    and dec :: "reader \<Rightarrow> 'a outcome \<times> reader"
    and ok :: "'a \<Rightarrow> bool"
  assumes dec_flat: "ok v \<Longrightarrow> rflat r = enc v @ ys \<Longrightarrow> \<exists>r'. dec r = (Ok v, r') \<and> rflat r' = ys"
begin

lemma rloop_flat:
  "\<forall>v\<in>set vs. ok v \<Longrightarrow> rflat r = concat (map enc vs) @ ys \<Longrightarrow>
     \<exists>r'. rloop (length vs) dec r = (Ok vs, r') \<and> rflat r' = ys"
proof (induction vs arbitrary: r)
  case (Cons v vs)
  from Cons.prems have "ok v" and "rflat r = enc v @ (concat (map enc vs) @ ys)" by simp_all
  from dec_flat [OF this] obtain r1 where d: "dec r = (Ok v, r1)" and f: "rflat r1 = concat (map enc vs) @ ys" by blast
  from Cons.IH [OF _ f] Cons.prems(1) d show ?case by auto
qed simp

text \<open>Two readers with the same bytes left give the same values.\<close>

lemma dec_chunks:
  assumes "ok v" and "rflat r1 = enc v @ ys" and "rflat r2 = rflat r1"
  shows "fst (dec r1) = fst (dec r2)" and "rflat (snd (dec r1)) = rflat (snd (dec r2))"
proof -
  from dec_flat [OF assms(1,2)] obtain s1 where "dec r1 = (Ok v, s1)" "rflat s1 = ys" by blast
  moreover from dec_flat [OF assms(1)] assms(2,3) obtain s2 where "dec r2 = (Ok v, s2)" "rflat s2 = ys" by metis
  ultimately show "fst (dec r1) = fst (dec r2)" and "rflat (snd (dec r1)) = rflat (snd (dec r2))" by simp_all
qed

lemma prefix_code_flat:
  assumes "ok v" and "ok w" and "enc v @ xs = enc w @ ys"
  shows "v = w"
proof -
  have "\<exists>r'. dec (NewReader (enc v @ xs)) = (Ok v, r')" using dec_flat [OF assms(1), of "NewReader (enc v @ xs)" xs] by auto
  moreover have "\<exists>r'. dec (NewReader (enc v @ xs)) = (Ok w, r')"
    unfolding assms(3) using dec_flat [OF assms(2), of "NewReader (enc w @ ys)" ys] by auto
  ultimately show ?thesis by auto
qed

end

text \<open>A decoder never makes the unread input longer.\<close>

definition shrinking :: "(reader \<Rightarrow> 'a outcome \<times> reader) \<Rightarrow> bool" where
  "shrinking dec \<longleftrightarrow> (\<forall>r. rsize (snd (dec r)) \<le> rsize r)"

lemma shrinkingI: "(\<And>r. rsize (snd (dec r)) \<le> rsize r) \<Longrightarrow> shrinking dec"
  by (simp add: shrinking_def)

lemma shrinkingD: "shrinking dec \<Longrightarrow> rsize (snd (dec r)) \<le> rsize r"
  by (simp add: shrinking_def)

lemma shrinking_bindR:
  assumes "rsize (snd m) \<le> k" and "\<And>v r. m = (Ok v, r) \<Longrightarrow> rsize (snd (f v r)) \<le> rsize r"
  shows "rsize (snd (bindR m f)) \<le> k"
  by (rule bindR_state_rel) (use assms in \<open>fastforce+\<close>)

end
