(* ===== verification/Proto_Scalar.thy ===== *)
theory Proto_Scalar
  imports Codec
begin

text \<open>
  The leaf codecs of package \<^verbatim>\<open>proto\<close>: type bytes (type\_identifiers.go), booleans (boolean.go),
  variable-length integers and scalars (scalar.go), strings (string.go) and byte slices (bytes.go).
\<close>

section \<open>Type identifiers\<close>

abbreviation TypeVoid :: u8 where "TypeVoid \<equiv> 0"
abbreviation TypeScalar :: u8 where "TypeScalar \<equiv> 1"
abbreviation TypeBoolean :: u8 where "TypeBoolean \<equiv> 2"
abbreviation TypeFloat :: u8 where "TypeFloat \<equiv> 3"
abbreviation TypeString :: u8 where "TypeString \<equiv> 4"
abbreviation TypeBytes :: u8 where "TypeBytes \<equiv> 5"
abbreviation TypeArray :: u8 where "TypeArray \<equiv> 6"
abbreviation TypeMap :: u8 where "TypeMap \<equiv> 7"
abbreviation TypeStruct :: u8 where "TypeStruct \<equiv> 8"

definition allPrimitives :: "u8 list" where
  "allPrimitives = [TypeVoid, TypeScalar, TypeBoolean, TypeFloat, TypeString, TypeBytes, TypeArray,
     TypeMap, TypeStruct]"

text \<open>The low four bits of a type byte select the type, the high four carry flags.\<close>

definition readType :: "reader \<Rightarrow> (u8 \<times> u8) outcome \<times> reader" where
  "readType r =
     bindR (Read 1 r) (\<lambda>buf r.
       let decoded = buf ! 0 AND 15 in
       if decoded \<in> set allPrimitives then (Ok (decoded, buf ! 0), r)
       else (Fail (Errorf ''unknown type''), r))"

section \<open>Booleans\<close>

abbreviation boolFlagMask :: u8 where "boolFlagMask \<equiv> 16"

definition decodeBoolean :: "u8 \<Rightarrow> bool" where
  "decodeBoolean v \<longleftrightarrow> v AND boolFlagMask = boolFlagMask"

definition encodeBoolean :: "bool \<Rightarrow> bytes" where
  "encodeBoolean b = [if b then TypeBoolean OR boolFlagMask else TypeBoolean]"

section \<open>Variable-length integers\<close>

function encodeUint64 :: "u64 \<Rightarrow> bytes" where
  "encodeUint64 x = (if x \<ge> 0x80 then (ucast x OR 0x80) # encodeUint64 (drop_bit 7 x) else [ucast x])"
  by pat_completeness auto

lemma drop_bit_7_less: "(0x80 :: u64) \<le> x \<Longrightarrow> unat (drop_bit 7 x) < unat x"
  by (simp add: unat_drop_bit_eq word_le_nat_alt) (simp add: drop_bit_eq_div)

termination encodeUint64
  by (relation "measure unat") (auto simp: drop_bit_7_less)

declare encodeUint64.simps [simp del]

text \<open>
  The loop of decodeUint64: \<open>x\<close> is the value so far and \<open>s\<close> the shift of the next seven bits. A Go
  shift by 64 or more gives 0, as \<^const>\<open>push_bit\<close> does. The shift counter is an unbounded number
  here, a 64-bit one in the code: they differ only after 2 to the 61 bytes of one integer.
\<close>

function decodeUint64_loop :: "u64 \<Rightarrow> nat \<Rightarrow> reader \<Rightarrow> u64 outcome \<times> reader" where
  "decodeUint64_loop x s r =
     bindR (Read 1 r) (\<lambda>buf r'.
       let b = buf ! 0 in
       if b < 0x80 then (Ok (x OR push_bit s (ucast b)), r')
       else decodeUint64_loop (x OR push_bit s (ucast (b AND 0x7f))) (s + 7) r')"
  by pat_completeness auto
termination
  by (relation "measure (\<lambda>(x, s, r). rsize r)") (auto dest: Read_Ok_shrinks [rotated])

declare decodeUint64_loop.simps [simp del]

definition decodeUint64 :: "reader \<Rightarrow> u64 outcome \<times> reader" where
  "decodeUint64 r = decodeUint64_loop 0 0 r"

section \<open>Scalars\<close>

text \<open>The type parameter of encodeScalar: a value of one of the eight integer types.\<close>

datatype numeric = U8 u8 | U16 u16 | U32 u32 | U64 u64 | I8 u8 | I16 u16 | I32 u32 | I64 u64

abbreviation numericSignedMask :: u8 where "numericSignedMask \<equiv> 16"
abbreviation numericZeroMask :: u8 where "numericZeroMask \<equiv> 32"
abbreviation numericNegativeMask :: u8 where "numericNegativeMask \<equiv> 64"

fun numeric_signed :: "numeric \<Rightarrow> bool" where
  "numeric_signed (I8 v) = True"
| "numeric_signed (I16 v) = True"
| "numeric_signed (I32 v) = True"
| "numeric_signed (I64 v) = True"
| "numeric_signed _ = False"

text \<open>
  The second switch: a negative value of a signed type sets the flag and is multiplied by \<open>-1\<close> at its
  own width. The result is whether the flag is set and \<^verbatim>\<open>uint64(v)\<close>, which extends a signed value by
  its sign.
\<close>

definition negate :: "'a::len word \<Rightarrow> bool \<times> u64" where
  "negate v = (if sint v < 0 then (True, scast (v * -1)) else (False, scast v))"

fun numeric_magnitude :: "numeric \<Rightarrow> bool \<times> u64" where
  "numeric_magnitude (I8 v) = negate v"
| "numeric_magnitude (I16 v) = negate v"
| "numeric_magnitude (I32 v) = negate v"
| "numeric_magnitude (I64 v) = negate v"
| "numeric_magnitude (U8 v) = (False, ucast v)"
| "numeric_magnitude (U16 v) = (False, ucast v)"
| "numeric_magnitude (U32 v) = (False, ucast v)"
| "numeric_magnitude (U64 v) = (False, v)"

definition encodeScalar :: "numeric \<Rightarrow> bytes" where
  "encodeScalar n =
     (let typeByte = (if numeric_signed n then TypeScalar OR numericSignedMask else TypeScalar);
          (negative, v) = numeric_magnitude n;
          typeByte = (if negative then typeByte OR numericNegativeMask else typeByte)
      in if v = 0 then [typeByte OR numericZeroMask]
         else typeByte # encodeUint64 v)"

definition decodeScalar :: "u8 \<Rightarrow> reader \<Rightarrow> (bool \<times> bool \<times> u64) outcome \<times> reader" where
  "decodeScalar header r =
     (let signed = (header AND numericSignedMask = numericSignedMask);
          negative = (header AND numericNegativeMask = numericNegativeMask)
      in if header AND numericZeroMask = numericZeroMask then (Ok (signed, negative, 0), r)
         else bindR (decodeUint64 r) (\<lambda>value r. (Ok (signed, negative, value), r)))"

section \<open>Strings and byte slices\<close>

abbreviation stringEmptyMask :: u8 where "stringEmptyMask \<equiv> 16"
abbreviation bytesEmptyMask :: u8 where "bytesEmptyMask \<equiv> 16"

text \<open>Go strings are byte sequences. The lengths of slices and strings are \<^verbatim>\<open>int\<close>s, so \<^verbatim>\<open>uint64(len(s))\<close> is
  exact.\<close>

definition EncodeString :: "bytes \<Rightarrow> bytes" where
  "EncodeString s =
     (if length s = 0 then [TypeString OR stringEmptyMask]
      else [TypeString] @ encodeUint64 (of_nat (length s)) @ s)"

text \<open>
  A buffer of \<open>n\<close> zero bytes filled by one call of Read, which may return fewer bytes than the buffer
  holds: the rest stays zero.
\<close>

definition read_into :: "u64 \<Rightarrow> reader \<Rightarrow> bytes outcome \<times> reader" where
  "read_into n r =
     bindR (makeslice 1 n, r) (\<lambda>_ r.
       bindR (Read (unat n) r) (\<lambda>bs r.
         (Ok (bs @ replicate (unat n - length bs) 0), r)))"

definition decodeString :: "u8 \<Rightarrow> reader \<Rightarrow> bytes outcome \<times> reader" where
  "decodeString header r =
     (if header AND stringEmptyMask = stringEmptyMask then (Ok [], r)
      else bindR (decodeUint64 r) (\<lambda>v r. read_into v r))"

definition DecodeString :: "reader \<Rightarrow> bytes outcome \<times> reader" where
  "DecodeString r =
     bindR (readType r) (\<lambda>(pt, b) r.
       if pt \<noteq> TypeString then (Fail (Errorf ''expected type''), r)
       else decodeString b r)"

definition EncodeBytes :: "bytes \<Rightarrow> bytes" where
  "EncodeBytes b =
     (if length b = 0 then [TypeBytes OR bytesEmptyMask]
      else [TypeBytes] @ encodeUint64 (of_nat (length b)) @ b)"

definition decodeBytes :: "u8 \<Rightarrow> reader \<Rightarrow> bytes outcome \<times> reader" where
  "decodeBytes header r =
     (if header AND bytesEmptyMask = bytesEmptyMask then (Ok [], r)
      else bindR (decodeUint64 r) (\<lambda>size r. read_into size r))"

definition DecodeBytes :: "reader \<Rightarrow> bytes outcome \<times> reader" where
  "DecodeBytes r =
     bindR (readType r) (\<lambda>(pt, b) r.
       if pt \<noteq> TypeBytes then (Fail (Errorf ''expected type''), r)
       else decodeBytes b r)"

section \<open>Bytes of an integer\<close>

lemma continuation_byte:
  "\<not> (ucast (y :: u64) OR 0x80 :: u8) < 0x80" "ucast ((ucast y OR 0x80 :: u8) AND 0x7f) = take_bit 7 y"
proof -
  have 80: "(0x80 :: u8) = push_bit 7 1" and 7: "(0x7f :: u8) = mask 7"
    by (simp_all add: mask_eq_exp_minus_1)
  show "\<not> (ucast y OR 0x80 :: u8) < 0x80"
    by (simp add: not_less le_word_or1)
  show "ucast ((ucast y OR 0x80 :: u8) AND 0x7f) = take_bit 7 y"
    unfolding 7 80 take_bit_eq_mask [symmetric]
    by (rule bit_word_eqI) (auto simp: bit_simps)
qed

lemma last_byte: "\<not> 0x80 \<le> (y :: u64) \<Longrightarrow> (ucast y :: u8) < 0x80 \<and> ucast (ucast y :: u8) = y"
proof -
  assume "\<not> 0x80 \<le> y"
  then have "unat y < 128" by (simp add: word_le_nat_alt not_le)
  then show ?thesis
    by (simp add: word_less_nat_alt word_unat_eq_iff unsigned_ucast_eq unsigned_take_bit_eq take_bit_nat_eq_self)
qed

lemma split_7_bits: "push_bit s (take_bit 7 y) OR push_bit (s + 7) (drop_bit 7 y) = push_bit s (y :: u64)"
proof -
  have "push_bit s (take_bit 7 y) OR push_bit (s + 7) (drop_bit 7 y)
    = push_bit s (take_bit 7 y OR push_bit 7 (drop_bit 7 y))" by (simp add: add.commute)
  also have "take_bit 7 y OR push_bit 7 (drop_bit 7 y) = y"
    by (rule bit_word_eqI) (auto simp: bit_simps, metis add_diff_inverse_nat)
  finally show ?thesis .
qed

section \<open>Round trip of integers\<close>

lemma encodeUint64_nonempty [simp]: "encodeUint64 x \<noteq> []"
  by (subst encodeUint64.simps) simp

lemma decodeUint64_loop_enc:
  "prefix (encodeUint64 y) (rpeek r) \<Longrightarrow>
     decodeUint64_loop x s r = (Ok (x OR push_bit s y), radv (length (encodeUint64 y)) r)"
proof (induction y arbitrary: x s r rule: encodeUint64.induct)
  case (1 y)
  show ?case
  proof (cases "0x80 \<le> y")
    case True
    let ?b = "ucast y OR 0x80 :: u8" and ?e = "encodeUint64 (drop_bit 7 y)"
    from True have enc: "encodeUint64 y = [?b] @ ?e" by (simp add: encodeUint64.simps [of y])
    with "1.prems" have p: "prefix ([?b] @ ?e) (rpeek r)" by simp
    note rest = prefix_rpeek_radv [OF p encodeUint64_nonempty]
    have read: "Read 1 r = (Ok [?b], radv 1 r)" using Read_Cons_prefix p by simp
    from "1.IH" [OF True, of "radv 1 r"] rest(1)
    have "decodeUint64_loop (x OR push_bit s (take_bit 7 y)) (s + 7) (radv 1 r)
        = (Ok (x OR push_bit s y), radv (length ?e) (radv 1 r))"
      by (simp add: or.assoc split_7_bits)
    with read rest(2) show ?thesis
      by (simp add: decodeUint64_loop.simps [of x s r] continuation_byte enc)
  next
    case False
    then have enc: "encodeUint64 y = [ucast y]" by (simp add: encodeUint64.simps [of y])
    with "1.prems" have "Read 1 r = (Ok [ucast y], radv 1 r)" using Read_Cons_prefix by simp
    with last_byte [OF False] show ?thesis
      by (simp add: decodeUint64_loop.simps [of x s r] enc)
  qed
qed

interpretation varint: codec encodeUint64 decodeUint64 "\<lambda>_. True"
  by unfold_locales (simp_all add: decodeUint64_def decodeUint64_loop_enc)

text \<open>decodeUint64 reads a byte at a time, so it does not depend on how the bytes are split into chunks.\<close>

lemma Read_1_flat: "rflat r = b # bs \<Longrightarrow> \<exists>r'. Read 1 r = (Ok [b], r') \<and> rflat r' = bs"
proof -
  assume flat: "rflat r = b # bs"
  then obtain xs r' where rd: "Read 1 r = (Ok xs, r')" using Read_progress [of r 1] by auto
  from Read_1_Ok [of r xs r'] rd obtain x where "xs = [x]" by (cases xs) auto
  with rd.read_in_order [OF TrueI rd] rd flat show ?thesis by simp
qed

lemma decodeUint64_loop_flat:
  "rflat r = encodeUint64 y @ rest \<Longrightarrow>
     \<exists>r'. decodeUint64_loop x s r = (Ok (x OR push_bit s y), r') \<and> rflat r' = rest"
proof (induction y arbitrary: x s r rule: encodeUint64.induct)
  case (1 y)
  show ?case
  proof (cases "0x80 \<le> y")
    case True
    let ?b = "ucast y OR 0x80 :: u8" and ?e = "encodeUint64 (drop_bit 7 y)"
    from True "1.prems" have "rflat r = ?b # (?e @ rest)" by (simp add: encodeUint64.simps [of y])
    then obtain r1 where r1: "Read 1 r = (Ok [?b], r1)" and "rflat r1 = ?e @ rest"
      using Read_1_flat by blast
    from "1.IH" [OF True this(2), of "x OR push_bit s (take_bit 7 y)" "s + 7"] r1 show ?thesis
      by (simp add: decodeUint64_loop.simps [of x s r] continuation_byte or.assoc split_7_bits)
  next
    case False
    with "1.prems" have "rflat r = ucast y # rest" by (simp add: encodeUint64.simps [of y])
    then obtain r1 where "Read 1 r = (Ok [ucast y], r1)" and "rflat r1 = rest"
      using Read_1_flat by blast
    with last_byte [OF False] show ?thesis by (simp add: decodeUint64_loop.simps [of x s r])
  qed
qed

lemma decodeUint64_flat:
  "rflat r = encodeUint64 y @ rest \<Longrightarrow> \<exists>r'. decodeUint64 r = (Ok y, r') \<and> rflat r' = rest"
  using decodeUint64_loop_flat [of r y rest 0 0] by (simp add: decodeUint64_def)

text \<open>At most ten bytes: each byte but the last removes seven bits.\<close>

lemma length_encodeUint64_aux: "unat y < 2 ^ (7 * k) \<Longrightarrow> 0 < k \<Longrightarrow> length (encodeUint64 y) \<le> k"
proof (induction y arbitrary: k rule: encodeUint64.induct)
  case (1 y)
  show ?case
  proof (cases "0x80 \<le> y")
    case True
    then have y: "128 \<le> unat y" by (simp add: word_le_nat_alt)
    obtain j where k: "k = Suc j" using "1.prems"(2) by (cases k) auto
    have "0 < j" using y "1.prems"(1) k by (cases j) auto
    have "unat (drop_bit 7 y) = unat y div 128"
      by (simp only: unat_drop_bit_eq) (simp add: drop_bit_eq_div)
    also have "\<dots> < 2 ^ (7 * j)" using "1.prems"(1) k by (simp add: power_add less_mult_imp_div_less)
    finally have "length (encodeUint64 (drop_bit 7 y)) \<le> j" using "1.IH" True \<open>0 < j\<close> by blast
    then show ?thesis using True k by (simp add: encodeUint64.simps [of y])
  next
    case False
    with "1.prems"(2) show ?thesis by (simp add: encodeUint64.simps [of y])
  qed
qed

lemma length_encodeUint64: "length (encodeUint64 y) \<le> 10"
proof (rule length_encodeUint64_aux)
  have "unat y < 2 ^ 64" using unsigned_less [of y] by simp
  then show "unat y < 2 ^ (7 * 10)" by simp
qed simp

section \<open>Strings, byte slices and type bytes\<close>

lemma readType_prefix:
  assumes "prefix (b # xs) (rpeek r)" and "b AND 15 \<in> set allPrimitives"
  shows "readType r = (Ok (b AND 15, b), radv 1 r)"
  using assms by (simp add: readType_def Read_Cons_prefix)

lemma readType_rsize_le: "rsize (snd (readType r)) \<le> rsize r"
  unfolding readType_def by (rule shrinking_bindR) (auto simp: Read_rsize_le Let_def)

lemma readType_Ok_rsize: "readType r = (Ok v, r') \<Longrightarrow> rsize r' < rsize r"
  by (auto simp: readType_def bindR_eq_Ok_iff Let_def split: if_splits dest: Read_Ok_shrinks [rotated])

lemma readType_Ok_fst: "readType r = (Ok (t, b), r') \<Longrightarrow> t \<in> set allPrimitives \<and> t = b AND 15"
  by (auto simp: readType_def bindR_eq_Ok_iff Let_def split: if_splits)

lemma decodeUint64_loop_rsize_le: "rsize (snd (decodeUint64_loop x s r)) \<le> rsize r"
proof (induction x s r rule: decodeUint64_loop.induct)
  case (1 x s r)
  show ?case
  proof (subst decodeUint64_loop.simps, rule shrinking_bindR)
    fix buf r'
    assume "Read 1 r = (Ok buf, r')"
    then show "rsize (snd (let b = buf ! 0 in if b < 128 then (Ok (x OR push_bit s (ucast b)), r')
        else decodeUint64_loop (x OR push_bit s (ucast (b AND 127))) (s + 7) r')) \<le> rsize r'"
      using "1.IH" [of buf r'] by (simp add: Let_def)
  qed (simp add: Read_rsize_le)
qed

lemma decodeUint64_rsize_le: "rsize (snd (decodeUint64 r)) \<le> rsize r"
  by (simp add: decodeUint64_def decodeUint64_loop_rsize_le)

lemma decodeUint64_Ok_rsize: "decodeUint64 r = (Ok v, r') \<Longrightarrow> rsize r' < rsize r"
proof -
  assume "decodeUint64 r = (Ok v, r')"
  then obtain buf r1 where rd: "Read 1 r = (Ok buf, r1)"
    and "r' = r1 \<or> (\<exists>y. decodeUint64_loop y 7 r1 = (Ok v, r'))"
    by (auto simp: decodeUint64_def decodeUint64_loop.simps [of 0 0 r] bindR_eq_Ok_iff Let_def split: if_splits)
  then have "rsize r' \<le> rsize r1" by (metis decodeUint64_loop_rsize_le order_refl snd_conv)
  with Read_Ok_shrinks [OF _ rd] show ?thesis by simp
qed

lemma read_into_rsize_le: "rsize (snd (read_into n r)) \<le> rsize r"
  unfolding read_into_def
  by (rule shrinking_bindR, simp) (rule shrinking_bindR, auto simp: Read_rsize_le)

text \<open>The contents fit one chunk of the reader: then they are read back in full.\<close>

lemma read_into_prefix:
  assumes "prefix bs (rpeek r)" and "bs \<noteq> []" and "length bs \<le> maxAlloc"
  shows "read_into (of_nat (length bs)) r = (Ok bs, radv (length bs) r)"
proof -
  from assms(3) have "unat (of_nat (length bs) :: u64) = length bs"
    by (intro unat_of_nat_small) (simp add: maxAlloc_def)
  with assms show ?thesis
    by (simp add: read_into_def makeslice_def Read_prefix)
qed

lemma length_prefixed_dec:
  assumes "prefix (encodeUint64 (of_nat (length bs)) @ bs) (rpeek r)" and "bs \<noteq> []" and "length bs \<le> maxAlloc"
  shows "bindR (decodeUint64 r) read_into
      = (Ok bs, radv (length (encodeUint64 (of_nat (length bs))) + length bs) r)"
  using varint.dec_next [OF TrueI assms(1,2)] read_into_prefix [OF _ assms(2,3)] by simp

lemma tagged_dec:
  assumes "prefix (t # encodeUint64 (of_nat (length bs)) @ bs) (rpeek r)" and "bs \<noteq> []" and "length bs \<le> maxAlloc"
  shows "bindR (decodeUint64 (radv 1 r)) read_into
      = (Ok bs, radv (length (t # encodeUint64 (of_nat (length bs)) @ bs)) r)"
proof -
  from assms(1) have "prefix ([t] @ encodeUint64 (of_nat (length bs)) @ bs) (rpeek r)" by simp
  note rest = prefix_rpeek_radv [OF this]
  from length_prefixed_dec [OF _ assms(2,3), of "radv 1 r"] rest show ?thesis by simp
qed

interpretation str: codec EncodeString DecodeString "\<lambda>s. length s \<le> maxAlloc"
proof
  fix s r
  assume len: "length s \<le> maxAlloc" and p: "prefix (EncodeString s) (rpeek r)"
  show "DecodeString r = (Ok s, radv (length (EncodeString s)) r)"
  proof (cases "s = []")
    case True
    with p have "prefix [0x14] (rpeek r)" by (simp add: EncodeString_def)
    from readType_prefix [OF this] True show ?thesis
      by (simp add: DecodeString_def decodeString_def EncodeString_def allPrimitives_def)
  next
    case False
    with p have p': "prefix (TypeString # encodeUint64 (of_nat (length s)) @ s) (rpeek r)"
      by (simp add: EncodeString_def)
    from readType_prefix [OF p'] tagged_dec [OF p' False len] False show ?thesis
      by (simp add: DecodeString_def decodeString_def EncodeString_def allPrimitives_def)
  qed
qed (simp add: EncodeString_def)

interpretation byt: codec EncodeBytes DecodeBytes "\<lambda>s. length s \<le> maxAlloc"
proof
  fix s r
  assume len: "length s \<le> maxAlloc" and p: "prefix (EncodeBytes s) (rpeek r)"
  show "DecodeBytes r = (Ok s, radv (length (EncodeBytes s)) r)"
  proof (cases "s = []")
    case True
    with p have "prefix [0x15] (rpeek r)" by (simp add: EncodeBytes_def)
    from readType_prefix [OF this] True show ?thesis
      by (simp add: DecodeBytes_def decodeBytes_def EncodeBytes_def allPrimitives_def)
  next
    case False
    with p have p': "prefix (TypeBytes # encodeUint64 (of_nat (length s)) @ s) (rpeek r)"
      by (simp add: EncodeBytes_def)
    from readType_prefix [OF p'] tagged_dec [OF p' False len] False show ?thesis
      by (simp add: DecodeBytes_def decodeBytes_def EncodeBytes_def allPrimitives_def)
  qed
qed (simp add: EncodeBytes_def)

text \<open>A string whose contents come in two chunks: the one Read gets the first, the rest of the buffer stays zero.\<close>

lemma split_string_zero_filled:
  assumes "s = s1 @ s2" "s1 \<noteq> []" "s2 \<noteq> []" "length s \<le> maxAlloc"
  shows "\<exists>r'. DecodeString (Base [TypeString # encodeUint64 (of_nat (length s)) @ s1, s2] e) = (Ok (s1 @ replicate (length s2) 0), r')"
proof -
  let ?n = "encodeUint64 (of_nat (length s))" and ?r = "Base [TypeString # encodeUint64 (of_nat (length s)) @ s1, s2] e"
  have p: "prefix (TypeString # ?n @ s1) (rpeek ?r)" by simp
  have "readType ?r = (Ok (TypeString, TypeString), radv 1 ?r)" using readType_prefix [OF p] by (simp add: allPrimitives_def)
  moreover have "prefix (?n @ s1) (rpeek (radv 1 ?r))" using assms(2) by simp
  note varint.dec_next [OF TrueI this assms(2)]
  moreover have "unat (of_nat (length s) :: u64) = length s"
    using assms(4) by (intro unat_of_nat_small) (simp add: maxAlloc_def)
  ultimately show ?thesis using assms
    by (simp add: DecodeString_def decodeString_def read_into_def makeslice_def)
qed

section \<open>Scalars\<close>

text \<open>The integer a value of a Go integer type denotes, and the three values whose negation does not
  fit their type and is then sign-extended to 64 bits.\<close>

fun numeric_value :: "numeric \<Rightarrow> int" where
  "numeric_value (U8 v) = uint v"
| "numeric_value (U16 v) = uint v"
| "numeric_value (U32 v) = uint v"
| "numeric_value (U64 v) = uint v"
| "numeric_value (I8 v) = sint v"
| "numeric_value (I16 v) = sint v"
| "numeric_value (I32 v) = sint v"
| "numeric_value (I64 v) = sint v"

definition narrow_minimum :: "numeric \<Rightarrow> bool" where
  "narrow_minimum n \<longleftrightarrow> n = I8 0x80 \<or> n = I16 0x8000 \<or> n = I32 0x80000000"

definition signed_value :: "bool \<Rightarrow> u64 \<Rightarrow> int" where
  "signed_value negative v = (if negative then - uint v else uint v)"

lemma uint_scast_nonneg:
  "0 \<le> sint (v :: 'a::len word) \<Longrightarrow> LENGTH('a) \<le> 64 \<Longrightarrow> uint (scast v :: u64) = sint v"
proof -
  assume nonneg: "0 \<le> sint v" and len: "LENGTH('a) \<le> 64"
  have "sint v < 2 ^ (LENGTH('a) - 1)" by (rule sint_lt)
  also have "(2 :: int) ^ (LENGTH('a) - 1) \<le> 2 ^ 64" using len by (intro power_increasing) auto
  finally show ?thesis using nonneg
    unfolding scast_eq uint_word_of_int by simp
qed

lemma negate_value:
  assumes "LENGTH('a) \<le> 64" and "sint (v :: 'a::len word) \<noteq> - (2 ^ (LENGTH('a) - 1))"
  shows "signed_value (fst (negate v)) (snd (negate v)) = sint v"
proof (cases "sint v < 0")
  case True
  have "- (2 ^ (LENGTH('a) - 1)) \<le> sint v" by (rule sint_ge)
  with True assms(2) have neg: "sint (- v) = - sint v"
    by (simp add: sint_word_minus signed_take_bit_int_eq_self)
  with True uint_scast_nonneg [of "- v"] assms(1) show ?thesis
    by (simp add: negate_def signed_value_def)
next
  case False
  with uint_scast_nonneg [of v] assms(1) show ?thesis
    by (simp add: negate_def signed_value_def)
qed

lemma uint_ucast_u64: "LENGTH('a) \<le> 64 \<Longrightarrow> uint (ucast (v :: 'a::len word) :: u64) = uint v"
  by (simp add: uint_up_ucast is_up)

lemma sint_minimum:
  "sint (v :: u8) = -128 \<longleftrightarrow> v = 0x80" "sint (w :: u16) = -32768 \<longleftrightarrow> w = 0x8000"
  "sint (x :: u32) = -2147483648 \<longleftrightarrow> x = 0x80000000" "sint (y :: u64) = -9223372036854775808 \<longleftrightarrow> y = 0x8000000000000000"
proof -
  have inj: "sint a = sint b \<longleftrightarrow> a = b" for a b :: "'a::len word"
    by (rule word_eq_iff_signed [symmetric])
  show "sint v = -128 \<longleftrightarrow> v = 0x80" "sint w = -32768 \<longleftrightarrow> w = 0x8000"
    "sint x = -2147483648 \<longleftrightarrow> x = 0x80000000" "sint y = -9223372036854775808 \<longleftrightarrow> y = 0x8000000000000000"
    by (simp_all flip: inj)
qed

text \<open>The magnitude does not tell the sign.\<close>

lemma negate_negated: "snd (negate (- x)) = snd (negate (x :: u64))"
proof (cases "x = 0x8000000000000000")
  case False
  have "- (2 ^ 63) \<le> sint x" using sint_ge [of x] by simp
  with False sint_minimum(4) [of x] have "sint (- x) = - sint x"
    using sint_lt [of x] by (simp add: sint_word_minus signed_take_bit_int_eq_self)
  moreover have "sint x = 0 \<longleftrightarrow> x = 0" by (metis signed_0 word_eq_iff_signed)
  ultimately show ?thesis by (auto simp: negate_def)
qed (simp add: negate_def)

lemma magnitude_value:
  assumes "\<not> narrow_minimum n"
  shows "signed_value (fst (numeric_magnitude n)) (snd (numeric_magnitude n)) = numeric_value n"
proof (cases n)
  case (I64 v)
  show ?thesis
  proof (cases "v = 0x8000000000000000")
    case True
    with I64 show ?thesis by (simp add: negate_def signed_value_def)
  next
    case False
    with I64 show ?thesis using negate_value [of v] sint_minimum(4) [of v] by simp
  qed
qed (use assms negate_value [where 'a = 8] negate_value [where 'a = 16] negate_value [where 'a = 32]
      in \<open>auto simp: narrow_minimum_def sint_minimum signed_value_def uint_ucast_u64\<close>)

lemma encodeScalar_header:
  "\<exists>h rest. encodeScalar n = h # rest \<and> h AND 15 = TypeScalar \<and>
     (h AND numericSignedMask = numericSignedMask) = numeric_signed n \<and>
     (h AND numericNegativeMask = numericNegativeMask) = fst (numeric_magnitude n) \<and>
     (h AND numericZeroMask = numericZeroMask) = (snd (numeric_magnitude n) = 0) \<and>
     rest = (if snd (numeric_magnitude n) = 0 then [] else encodeUint64 (snd (numeric_magnitude n)))"
  by (cases "numeric_magnitude n") (auto simp: encodeScalar_def Let_def)

lemma decodeScalar_enc:
  assumes "encodeScalar n = h # rest" and "prefix (h # rest) (rpeek r)"
  shows "decodeScalar h (radv 1 r) =
    (Ok (numeric_signed n, numeric_magnitude n), radv (length (h # rest)) r)"
proof -
  from encodeScalar_header [of n] assms(1)
  have h: "(h AND numericSignedMask = numericSignedMask) = numeric_signed n"
    "(h AND numericNegativeMask = numericNegativeMask) = fst (numeric_magnitude n)"
    "(h AND numericZeroMask = numericZeroMask) = (snd (numeric_magnitude n) = 0)"
    and rest: "rest = (if snd (numeric_magnitude n) = 0 then [] else encodeUint64 (snd (numeric_magnitude n)))"
    by auto
  show ?thesis
  proof (cases "snd (numeric_magnitude n) = 0")
    case True
    with h rest show ?thesis by (cases "numeric_magnitude n") (auto simp: decodeScalar_def)
  next
    case False
    with rest assms(2) have "prefix ([h] @ encodeUint64 (snd (numeric_magnitude n))) (rpeek r)" by simp
    note next1 = prefix_rpeek_radv [OF this]
    from False h next1 varint.dec_enc [OF TrueI next1(1)] rest show ?thesis
      by (cases "numeric_magnitude n") (auto simp: decodeScalar_def)
  qed
qed

text \<open>The minimum of int8, int16 and int32 comes back as another number: minus 2 to the 64 minus the value.\<close>

lemma scalar_minimum_lost:
  assumes "narrow_minimum n" and "encodeScalar n = h # rest" and "prefix (h # rest) (rpeek r)"
  shows "\<exists>v. decodeScalar h (radv 1 r) = (Ok (True, True, v), radv (length (h # rest)) r) \<and>
    signed_value True v = - (2 ^ 64) - numeric_value n"
proof -
  have "numeric_signed n" "fst (numeric_magnitude n)"
    "signed_value True (snd (numeric_magnitude n)) = - (2 ^ 64) - numeric_value n"
    using assms(1) unfolding narrow_minimum_def by (elim disjE; simp add: negate_def signed_value_def)+
  with decodeScalar_enc [OF assms(2,3)] show ?thesis by (metis surjective_pairing)
qed

end
