(* ===== verification/Rpc_Metadata.thy ===== *)
theory Rpc_Metadata
  imports Proto_Scalar
begin

text \<open>
  Metadata of a call (\<^verbatim>\<open>src/rpc/metadata.go\<close>, \<^verbatim>\<open>binary.go\<close>) and status codes (\<^verbatim>\<open>src/status/status.go\<close>).
  Metadata is a list of pairs in which a name may occur several times; the last one counts.
\<close>

section \<open>Integers from a reader\<close>

definition decodeUint16FromReader :: "reader \<Rightarrow> u16 outcome \<times> reader" where
  "decodeUint16FromReader r = bindR (ReadFull 2 r) (\<lambda>b r. (Uint16 b, r))"

definition decodeUint8FromReader :: "reader \<Rightarrow> u8 outcome \<times> reader" where
  "decodeUint8FromReader r = bindR (ReadFull 1 r) (\<lambda>b r. (Ok (b ! 0), r))"

interpretation u16rd: codec PutUint16 decodeUint16FromReader "\<lambda>_. True"
proof
  fix v r
  assume p: "prefix (PutUint16 v) (rpeek r)"
  have "PutUint16 v \<noteq> []" by (simp add: PutUint16_def)
  from ReadFull_prefix [OF p this] show "decodeUint16FromReader r = (Ok v, radv (length (PutUint16 v)) r)"
    by (simp add: decodeUint16FromReader_def)
qed (simp add: PutUint16_def)

interpretation u8rd: codec "\<lambda>b. [b]" decodeUint8FromReader "\<lambda>_. True"
proof
  fix v r
  assume "prefix [v] (rpeek r)"
  from ReadFull_prefix [OF this] show "decodeUint8FromReader r = (Ok v, radv (length [v]) r)"
    by (simp add: decodeUint8FromReader_def)
qed simp

section \<open>Metadata\<close>

type_synonym metadata = "(bytes \<times> bytes) list"

definition Metadata_Add :: "bytes \<Rightarrow> bytes \<Rightarrow> metadata \<Rightarrow> metadata" where
  "Metadata_Add name val m = m @ [(name, val)]"

definition MetadataFromItems :: "(bytes \<times> bytes) list \<Rightarrow> metadata" where
  "MetadataFromItems ms = fold (\<lambda>(k, v). Metadata_Add k v) ms []"

fun pairUp :: "bytes list \<Rightarrow> metadata \<Rightarrow> metadata" where
  "pairUp (key # val # pairs) m = pairUp pairs (Metadata_Add key val m)"
| "pairUp _ m = m"

definition MetadataFromStringPairs :: "bytes list \<Rightarrow> metadata outcome" where
  "MetadataFromStringPairs pairs =
     (if length pairs mod 2 \<noteq> 0 then Panic ''pairs must be even'' else Ok (pairUp pairs []))"

text \<open>The loop \<^verbatim>\<open>for i := len(m) - 1; i >= 0; i--\<close>.\<close>

definition Metadata_Lookup :: "bytes \<Rightarrow> metadata \<Rightarrow> bytes option" where
  "Metadata_Lookup name m = (case find (\<lambda>p. fst p = name) (rev m) of None \<Rightarrow> None | Some p \<Rightarrow> Some (snd p))"

definition Metadata_Get :: "bytes \<Rightarrow> metadata \<Rightarrow> bytes" where
  "Metadata_Get name m = (case Metadata_Lookup name m of None \<Rightarrow> [] | Some v \<Rightarrow> v)"

definition Metadata_GetAll :: "bytes \<Rightarrow> metadata \<Rightarrow> bytes list" where
  "Metadata_GetAll name m = map snd (filter (\<lambda>p. fst p = name) (rev m))"

definition Metadata_Set :: "bytes \<Rightarrow> bytes \<Rightarrow> metadata \<Rightarrow> metadata" where
  "Metadata_Set name val m = Metadata_Add name val (filter (\<lambda>s. fst s \<noteq> name) m)"

text \<open>The variants for strings; a Go string is its bytes. \<^verbatim>\<open>LookupString\<close> returns the empty string where there is none.\<close>

definition MetaPair :: "bytes \<Rightarrow> bytes \<Rightarrow> bytes \<times> bytes" where
  "MetaPair k v = (k, v)"

definition Metadata_LookupString :: "bytes \<Rightarrow> metadata \<Rightarrow> bytes \<times> bool" where
  "Metadata_LookupString name m = (case Metadata_Lookup name m of None \<Rightarrow> ([], False) | Some vv \<Rightarrow> (vv, True))"

definition Metadata_GetString :: "bytes \<Rightarrow> metadata \<Rightarrow> bytes" where
  "Metadata_GetString name m = Metadata_Get name m"

definition Metadata_GetAllString :: "bytes \<Rightarrow> metadata \<Rightarrow> bytes list" where
  "Metadata_GetAllString name m = Metadata_GetAll name m"

definition Metadata_AddString :: "bytes \<Rightarrow> bytes \<Rightarrow> metadata \<Rightarrow> metadata" where
  "Metadata_AddString name val m = Metadata_Add name val m"

definition Metadata_SetString :: "bytes \<Rightarrow> bytes \<Rightarrow> metadata \<Rightarrow> metadata" where
  "Metadata_SetString name val m = Metadata_Set name val m"

definition Metadata_Encode :: "metadata \<Rightarrow> bytes" where
  "Metadata_Encode m =
     PutUint16 (of_nat (length m)) @ concat (map (\<lambda>v. EncodeString (fst v)) m) @ concat (map (\<lambda>v. EncodeBytes (snd v)) m)"

definition MetadataFromReader :: "reader \<Rightarrow> metadata outcome \<times> reader" where
  "MetadataFromReader r =
     bindR (decodeUint16FromReader r) (\<lambda>size r.
       if size = 0 then (Ok [], r)
       else bindR (rloop (unat size) DecodeString r) (\<lambda>keys r.
         bindR (rloop (unat size) DecodeBytes r) (\<lambda>values r. (Ok (zip keys values), r))))"

section \<open>A multimap\<close>

text \<open>
  The contract of a store that keeps every value of a name, latest first: what the operations promise, and what a
  client of them can conclude for any sequence of additions.
\<close>

locale multimap =
  fixes add :: "'k \<Rightarrow> 'v \<Rightarrow> 'm \<Rightarrow> 'm"
    and set_only :: "'k \<Rightarrow> 'v \<Rightarrow> 'm \<Rightarrow> 'm"
    and lookup :: "'k \<Rightarrow> 'm \<Rightarrow> 'v option"
    and all_values :: "'k \<Rightarrow> 'm \<Rightarrow> 'v list"
  assumes all_add: "all_values k (add k' v m) = (if k' = k then v # all_values k m else all_values k m)"
    and all_set: "all_values k (set_only k' v m) = (if k' = k then [v] else all_values k m)"
    and lookup_all: "lookup k m = (case all_values k m of [] \<Rightarrow> None | v # _ \<Rightarrow> Some v)"
begin

lemma lookup_add: "lookup k (add k' v m) = (if k' = k then Some v else lookup k m)"
  by (simp add: lookup_all all_add)

lemma lookup_set: "lookup k (set_only k' v m) = (if k' = k then Some v else lookup k m)"
  by (simp add: lookup_all all_set)

lemma all_fold_add: "all_values k (fold (\<lambda>(k, v). add k v) kvs m) = rev (map snd (filter (\<lambda>p. fst p = k) kvs)) @ all_values k m"
  by (induction kvs arbitrary: m) (auto simp: all_add)

end

interpretation meta: multimap Metadata_Add Metadata_Set Metadata_Lookup Metadata_GetAll
proof
  fix k m
  show "Metadata_Lookup k m = (case Metadata_GetAll k m of [] \<Rightarrow> None | v # _ \<Rightarrow> Some v)"
  proof -
    have "(case find (\<lambda>p. fst p = k) xs of None \<Rightarrow> None | Some p \<Rightarrow> Some (snd p))
        = (case map snd (filter (\<lambda>p. fst p = k) xs) of [] \<Rightarrow> None | v # _ \<Rightarrow> Some v)" for xs :: metadata
      by (induction xs) auto
    then show ?thesis by (simp add: Metadata_Lookup_def Metadata_GetAll_def)
  qed
next
  fix k k' :: bytes and v m
  show "Metadata_GetAll k (Metadata_Set k' v m) = (if k' = k then [v] else Metadata_GetAll k m)"
    by (auto simp: Metadata_GetAll_def Metadata_Set_def Metadata_Add_def rev_filter [symmetric] filter_empty_conv conj_commute
        intro!: arg_cong [where f = "map snd"] filter_cong)
qed (simp add: Metadata_GetAll_def Metadata_Add_def)

section \<open>Round trip\<close>

text \<open>The count fits 16 bits and each string can be allocated by the reader.\<close>

definition metadata_ok :: "metadata \<Rightarrow> bool" where
  "metadata_ok m \<longleftrightarrow> length m < 65536 \<and> (\<forall>(k, v)\<in>set m. length k \<le> maxAlloc \<and> length v \<le> maxAlloc)"

interpretation metard: codec Metadata_Encode MetadataFromReader metadata_ok
proof
  fix m r
  assume ok: "metadata_ok m" and p: "prefix (Metadata_Encode m) (rpeek r)"
  let ?ks = "map fst m" and ?vs = "map snd m"
  let ?n = "PutUint16 (of_nat (length m))" and ?kb = "concat (map EncodeString ?ks)" and ?vb = "concat (map EncodeBytes ?vs)"
  have enc: "Metadata_Encode m = ?n @ ?kb @ ?vb" by (simp add: Metadata_Encode_def o_def)
  have size: "unat (of_nat (length m) :: u16) = length m" using ok by (simp add: metadata_ok_def unat_of_nat_small)
  show "MetadataFromReader r = (Ok m, radv (length (Metadata_Encode m)) r)"
  proof (cases "m = []")
    case True
    then have "Metadata_Encode m = PutUint16 0" by (simp add: Metadata_Encode_def)
    with u16rd.dec_enc [of 0 r] p True show ?thesis by (simp add: MetadataFromReader_def)
  next
    case False
    then have nz: "(of_nat (length m) :: u16) \<noteq> 0" using size by (metis length_0_conv unat_0)
    have kne: "?kb @ ?vb \<noteq> []" and vne: "?vb \<noteq> []" using False by (cases m; simp add: EncodeString_def EncodeBytes_def)+
    note s1 = u16rd.dec_next [OF TrueI p [unfolded enc] kne]
    note p1 = prefix_rpeek_radv [OF s1(2) vne]
    have "rloop (length ?ks) DecodeString (radv (length ?n) r) = (Ok ?ks, radv (length ?kb) (radv (length ?n) r))"
      by (rule str.rloop_enc) (use ok False prefix_appendD1 [OF s1(2)] in \<open>auto simp: metadata_ok_def\<close>)
    moreover have "rloop (length ?vs) DecodeBytes (radv (length ?kb) (radv (length ?n) r))
        = (Ok ?vs, radv (length ?vb) (radv (length ?kb) (radv (length ?n) r)))"
      by (rule byt.rloop_enc) (use ok False p1(1) in \<open>auto simp: metadata_ok_def\<close>)
    ultimately show ?thesis using s1(1,3) p1(2) nz size
      by (simp add: MetadataFromReader_def enc zip_map_fst_snd)
  qed
qed (simp add: Metadata_Encode_def PutUint16_def)

section \<open>Status codes\<close>

abbreviation (input) OK :: int where "OK \<equiv> 0"
abbreviation (input) Cancelled :: int where "Cancelled \<equiv> 1"
abbreviation (input) Unknown :: int where "Unknown \<equiv> 2"
abbreviation (input) InvalidArgument :: int where "InvalidArgument \<equiv> 3"
abbreviation (input) DeadlineExceeded :: int where "DeadlineExceeded \<equiv> 4"
abbreviation (input) NotFound :: int where "NotFound \<equiv> 5"
abbreviation (input) AlreadyExists :: int where "AlreadyExists \<equiv> 6"
abbreviation (input) PermissionDenied :: int where "PermissionDenied \<equiv> 7"
abbreviation (input) ResourceExhausted :: int where "ResourceExhausted \<equiv> 8"
abbreviation (input) FailedPrecondition :: int where "FailedPrecondition \<equiv> 9"
abbreviation (input) Aborted :: int where "Aborted \<equiv> 10"
abbreviation (input) OutOfRange :: int where "OutOfRange \<equiv> 11"
abbreviation (input) Unimplemented :: int where "Unimplemented \<equiv> 12"
abbreviation (input) InternalError :: int where "InternalError \<equiv> 13"
abbreviation (input) Unavailable :: int where "Unavailable \<equiv> 14"
abbreviation (input) DataLoss :: int where "DataLoss \<equiv> 15"
abbreviation (input) Unauthenticated :: int where "Unauthenticated \<equiv> 16"

definition statusText :: "(int \<times> string) list" where
  "statusText =
    [(OK, ''OK''), (Cancelled, ''Cancelled''), (Unknown, ''Unknown''), (InvalidArgument, ''Invalid Argument''), (DeadlineExceeded, ''Deadline Exceeded''),
     (NotFound, ''Not Found''), (AlreadyExists, ''Already Exists''), (PermissionDenied, ''Permission Denied''), (ResourceExhausted, ''Resource Exhausted''),
     (FailedPrecondition, ''Failed Precondition''), (Aborted, ''Aborted''), (OutOfRange, ''Out of Range''), (Unimplemented, ''Unimplemented''),
     (InternalError, ''Internal Error''), (Unavailable, ''Unavailable''), (DataLoss, ''Data Loss''), (Unauthenticated, ''Unauthenticated'')]"

text \<open>\<^verbatim>\<open>%d\<close>\<close>

fun decdigits :: "nat \<Rightarrow> string" where
  "decdigits n = (if n < 10 then [''0123456789'' ! n] else decdigits (n div 10) @ [''0123456789'' ! (n mod 10)])"

declare decdigits.simps [simp del]

definition show_int :: "int \<Rightarrow> string" where
  "show_int i = (if i < 0 then CHR ''-'' # decdigits (nat (- i)) else decdigits (nat i))"

definition Status_Error :: "int \<Rightarrow> string" where
  "Status_Error s = (case map_of statusText s of Some v \<Rightarrow> v | None \<Rightarrow> ''unknown status: '' @ show_int s)"

text \<open>A Go string as its bytes, for the ASCII texts of the code.\<close>

definition ascii :: "string \<Rightarrow> bytes" where
  "ascii s = map (\<lambda>c. of_char c) s"

end
