(* ===== verification/Proto_Float.thy ===== *)
theory Proto_Float
  imports Proto_Scalar
begin

text \<open>
  float.go. A Go float is its IEEE 754 bit pattern (\<^verbatim>\<open>math.Float32bits\<close>, \<^verbatim>\<open>math.Float64bits\<close>). decodeFloat
  returns a float64 for both widths, so the conversion of a float32 to a float64 is modelled too, and
  shown to keep the number.
\<close>

section \<open>Bit patterns\<close>

definition f32_sign :: "u32 \<Rightarrow> nat" where "f32_sign x = unat x div 2 ^ 31"
definition f32_exp :: "u32 \<Rightarrow> nat" where "f32_exp x = unat x div 2 ^ 23 mod 2 ^ 8"
definition f32_frac :: "u32 \<Rightarrow> nat" where "f32_frac x = unat x mod 2 ^ 23"

definition f64_sign :: "u64 \<Rightarrow> nat" where "f64_sign x = unat x div 2 ^ 63"
definition f64_exp :: "u64 \<Rightarrow> nat" where "f64_exp x = unat x div 2 ^ 52 mod 2 ^ 11"
definition f64_frac :: "u64 \<Rightarrow> nat" where "f64_frac x = unat x mod 2 ^ 52"

definition f64_pack :: "nat \<Rightarrow> nat \<Rightarrow> nat \<Rightarrow> u64" where
  "f64_pack s e m = of_nat (s * 2 ^ 63 + e * 2 ^ 52 + m)"

text \<open>The position of the highest set bit.\<close>

fun topbit :: "nat \<Rightarrow> nat" where
  "topbit n = (if n < 2 then 0 else Suc (topbit (n div 2)))"

declare topbit.simps [simp del]

text \<open>
  The conversion \<^verbatim>\<open>float64(x)\<close>: exponents are rebased, a subnormal is normalised, an infinity stays one, and
  a NaN keeps its payload and becomes quiet.
\<close>

definition f32to64 :: "u32 \<Rightarrow> u64" where
  "f32to64 x =
     (let s = f32_sign x; e = f32_exp x; m = f32_frac x in
      if e = 255 then
        (if m = 0 then f64_pack s 2047 0
         else f64_pack s 2047 (if m < 2 ^ 22 then m * 2 ^ 29 + 2 ^ 51 else m * 2 ^ 29))
      else if e = 0 then
        (if m = 0 then f64_pack s 0 0
         else f64_pack s (topbit m + 874) ((m - 2 ^ topbit m) * 2 ^ (52 - topbit m)))
      else f64_pack s (e + 896) (m * 2 ^ 29))"

section \<open>The codec\<close>

abbreviation float64Mask :: u8 where "float64Mask \<equiv> 16"
abbreviation floatEmptyMask :: u8 where "floatEmptyMask \<equiv> 32"

text \<open>\<^verbatim>\<open>value == 0\<close> holds of both zeros.\<close>

definition encodeFloat32 :: "u32 \<Rightarrow> bytes" where
  "encodeFloat32 value =
     (if value AND 0x7fffffff = 0 then [TypeFloat OR floatEmptyMask]
      else [TypeFloat] @ PutUint32 value)"

definition encodeFloat64 :: "u64 \<Rightarrow> bytes" where
  "encodeFloat64 value =
     (if value AND 0x7fffffffffffffff = 0 then [TypeFloat OR float64Mask OR floatEmptyMask]
      else [TypeFloat OR float64Mask] @ PutUint64 value)"

definition decodeFloat :: "u8 \<Rightarrow> reader \<Rightarrow> (nat \<times> u64) outcome \<times> reader" where
  "decodeFloat header r =
     (let bits = (if header AND float64Mask = float64Mask then 64 else 32) in
      if header AND floatEmptyMask = floatEmptyMask then (Ok (bits, 0), r)
      else if bits = 32 then
        bindR (ReadFull 4 r) (\<lambda>data r. bindR (Uint32 data, r) (\<lambda>v r. (Ok (bits, f32to64 v), r)))
      else
        bindR (ReadFull 8 r) (\<lambda>data r. bindR (Uint64 data, r) (\<lambda>v r. (Ok (bits, v), r))))"

section \<open>The conversion keeps the number\<close>

text \<open>
  The magnitude of a finite float32 in units of 2 to the -149, and of a finite float64 in units of 2 to the
  -1074: both are whole numbers.
\<close>

definition f32_units :: "u32 \<Rightarrow> nat" where
  "f32_units x = (if f32_exp x = 0 then f32_frac x else (2 ^ 23 + f32_frac x) * 2 ^ (f32_exp x - 1))"

definition f64_units :: "u64 \<Rightarrow> nat" where
  "f64_units x = (if f64_exp x = 0 then f64_frac x else (2 ^ 52 + f64_frac x) * 2 ^ (f64_exp x - 1))"

lemma f32_bounds: "f32_sign x < 2" "f32_exp x < 256" "f32_frac x < 2 ^ 23"
proof -
  have "unat x < 2 ^ 32" using unsigned_less [of x] by simp
  then show "f32_sign x < 2" by (simp add: f32_sign_def less_mult_imp_div_less)
qed (simp_all add: f32_exp_def f32_frac_def)

lemma f64_pack_fields:
  assumes "s < 2" and "e < 2048" and "m < 2 ^ 52"
  shows "f64_sign (f64_pack s e m) = s" and "f64_exp (f64_pack s e m) = e" and "f64_frac (f64_pack s e m) = m"
proof -
  let ?n = "s * 2 ^ 63 + e * 2 ^ 52 + m"
  have n: "?n < 2 ^ 64" using assms by simp
  have u: "unat (f64_pack s e m) = ?n"
    unfolding f64_pack_def using n by (intro unat_of_nat_small) simp
  have "?n = m + (s * 2 ^ 11 + e) * 2 ^ 52" by simp
  then have "?n div 2 ^ 52 = s * 2 ^ 11 + e" and "?n mod 2 ^ 52 = m"
    using assms(3) by (simp_all only: div_mult_self1 mod_mult_self1) simp_all
  then show "f64_exp (f64_pack s e m) = e" and "f64_frac (f64_pack s e m) = m"
    using assms(2) by (simp_all add: f64_exp_def f64_frac_def u)
  have "?n = (e * 2 ^ 52 + m) + s * 2 ^ 63" and "e * 2 ^ 52 + m < 2 ^ 63" using assms by simp_all
  then have "?n div 2 ^ 63 = s" by (simp only: div_mult_self1) simp
  then show "f64_sign (f64_pack s e m) = s" by (simp add: f64_sign_def u)
qed

lemma topbit_bounds: "0 < n \<Longrightarrow> 2 ^ topbit n \<le> n \<and> n < 2 ^ Suc (topbit n)"
proof (induction n rule: topbit.induct)
  case (1 n)
  show ?case
  proof (cases "n < 2")
    case True
    with "1.prems" show ?thesis by (simp add: topbit.simps)
  next
    case False
    with "1.IH" have "2 ^ topbit (n div 2) \<le> n div 2 \<and> n div 2 < 2 ^ Suc (topbit (n div 2))" by simp
    with False show ?thesis by (subst (1 2) topbit.simps) auto
  qed
qed

lemma f32to64_units:
  assumes "f32_exp x \<noteq> 255"
  shows "f64_units (f32to64 x) = f32_units x * 2 ^ 925" and "f64_sign (f32to64 x) = f32_sign x"
proof -
  let ?s = "f32_sign x" and ?e = "f32_exp x" and ?m = "f32_frac x"
  note b = f32_bounds [of x]
  have "f64_units (f32to64 x) = f32_units x * 2 ^ 925 \<and> f64_sign (f32to64 x) = ?s"
  proof (cases "?e = 0")
    case False
    then obtain k where k: "?e = Suc k" by (cases ?e) auto
    have "f32to64 x = f64_pack ?s (?e + 896) (?m * 2 ^ 29)"
      using assms False by (simp add: f32to64_def Let_def)
    moreover have "?m * 2 ^ 29 < 2 ^ 52" using b by simp
    ultimately have f: "f64_exp (f32to64 x) = ?e + 896" "f64_frac (f32to64 x) = ?m * 2 ^ 29"
      "f64_sign (f32to64 x) = ?s"
      using f64_pack_fields [of ?s "?e + 896" "?m * 2 ^ 29"] b by simp_all
    have "(2 ^ 52 + ?m * 2 ^ 29) * 2 ^ (896 + k) = (2 ^ 23 + ?m) * 2 ^ k * 2 ^ 925"
      by (simp add: power_add algebra_simps)
    with f k show ?thesis by (simp add: f64_units_def f32_units_def)
  next
    case zero: True
    show ?thesis
    proof (cases "?m = 0")
      case True
      with zero have "f32to64 x = f64_pack ?s 0 0" by (simp add: f32to64_def Let_def)
      with True zero b show ?thesis
        using f64_pack_fields [of ?s 0 0] by (simp add: f64_units_def f32_units_def)
    next
      case False
      let ?p = "topbit ?m"
      from False topbit_bounds [of ?m] have p: "2 ^ ?p \<le> ?m" "?m < 2 * 2 ^ ?p" by simp_all
      then have "(2 :: nat) ^ ?p < 2 ^ 23" using b by linarith
      then have p23: "?p < 23" by (metis one_less_numeral_iff power_less_imp_less_exp semiring_norm(76))
      have split: "(2 :: nat) ^ 52 = 2 ^ ?p * 2 ^ (52 - ?p)" using p23 by (simp flip: power_add)
      from p have "?m - 2 ^ ?p < 2 ^ ?p" by linarith
      then have "(?m - 2 ^ ?p) * 2 ^ (52 - ?p) < 2 ^ 52" unfolding split by simp
      with zero False have f: "f64_exp (f32to64 x) = ?p + 874"
        "f64_frac (f32to64 x) = (?m - 2 ^ ?p) * 2 ^ (52 - ?p)" "f64_sign (f32to64 x) = ?s"
        using f64_pack_fields [of ?s "?p + 874" "(?m - 2 ^ ?p) * 2 ^ (52 - ?p)"] p23 b
        by (simp_all add: f32to64_def Let_def)
      have "2 ^ 52 + (?m - 2 ^ ?p) * 2 ^ (52 - ?p) = ?m * 2 ^ (52 - ?p)"
        unfolding split using p(1) by (simp add: diff_mult_distrib)
      moreover have "(52 - ?p) + (873 + ?p) = 925" using p23 by simp
      ultimately have "(2 ^ 52 + (?m - 2 ^ ?p) * 2 ^ (52 - ?p)) * 2 ^ (873 + ?p) = ?m * 2 ^ 925"
        by (metis mult.assoc power_add)
      with f zero False show ?thesis by (simp add: f64_units_def f32_units_def)
    qed
  qed
  then show "f64_units (f32to64 x) = f32_units x * 2 ^ 925" and "f64_sign (f32to64 x) = f32_sign x" by simp_all
qed

section \<open>Round trips\<close>

lemma decodeFloat_rsize_le: "rsize (snd (decodeFloat h r)) \<le> rsize r"
  unfolding decodeFloat_def Let_def
  by (auto intro!: shrinking_bindR simp: ReadFull_rsize_le)

lemma decodeFloat64_enc:
  assumes "v AND 0x7fffffffffffffff \<noteq> 0" and "prefix (encodeFloat64 v) (rpeek r)"
  shows "decodeFloat 0x13 (radv 1 r) = (Ok (64, v), radv (length (encodeFloat64 v)) r)"
proof -
  from assms have p: "prefix ([0x13] @ PutUint64 v) (rpeek r)" by (simp add: encodeFloat64_def)
  have ne: "PutUint64 v \<noteq> []" by (simp add: PutUint64_def)
  note rest = prefix_rpeek_radv [OF p ne]
  from ReadFull_prefix [OF rest(1) ne] rest(2) assms(1) show ?thesis
    by (simp add: decodeFloat_def encodeFloat64_def)
qed

lemma decodeFloat32_enc:
  assumes "v AND 0x7fffffff \<noteq> 0" and "prefix (encodeFloat32 v) (rpeek r)"
  shows "decodeFloat 3 (radv 1 r) = (Ok (32, f32to64 v), radv (length (encodeFloat32 v)) r)"
proof -
  from assms have p: "prefix ([3] @ PutUint32 v) (rpeek r)" by (simp add: encodeFloat32_def)
  have ne: "PutUint32 v \<noteq> []" by (simp add: PutUint32_def)
  note rest = prefix_rpeek_radv [OF p ne]
  from ReadFull_prefix [OF rest(1) ne] rest(2) assms(1) show ?thesis
    by (simp add: decodeFloat_def encodeFloat32_def)
qed

text \<open>A finite float32 that is not zero is decoded as the float64 of exactly the same value, subnormals included.\<close>

lemma float_widening_exact:
  assumes "f32_exp x \<noteq> 255" and "x AND 0x7fffffff \<noteq> 0" and "prefix (encodeFloat32 x) (rpeek r)"
  shows "\<exists>y. decodeFloat (hd (encodeFloat32 x)) (radv 1 r) = (Ok (32, y), radv (length (encodeFloat32 x)) r) \<and>
    f64_units y = f32_units x * 2 ^ 925 \<and> f64_sign y = f32_sign x"
  using decodeFloat32_enc [OF assms(2,3)] f32to64_units [OF assms(1)] assms(2) by (simp add: encodeFloat32_def)

end
