(* ===== verification/Proto_Value.thy ===== *)
theory Proto_Value
  imports Proto_Float "HOL-Library.AList"
begin

text \<open>
  The Go values and types package \<^verbatim>\<open>proto\<close> inspects through \<^verbatim>\<open>reflect\<close>, the fields of a message struct
  (struct.go, lines 20 to 86) and the registry of message types (registry.go).
\<close>

section \<open>Types and values\<close>

text \<open>
  A Go type. A struct type is a name, declared in an environment (below), since struct types can be
  recursive. \<open>TInterface n b\<close> is an interface type; \<open>b\<close> says that its method set includes ArfStructID.
  \<open>TNamed n t\<close> is a type declared with underlying type \<open>t\<close>. \<open>TOther\<close> is a type of a kind the codec
  does not know (channels, functions, complex numbers).
\<close>

datatype gotype =
    TBool | TInt | TInt8 | TInt16 | TInt32 | TInt64 | TUint | TUint8 | TUint16 | TUint32 | TUint64
  | TFloat32 | TFloat64 | TString
  | TSlice gotype | TArray nat gotype | TMap gotype gotype | TPtr gotype
  | TStruct string | TInterface string bool | TNamed string gotype | TOther string

datatype kind =
    KBool | KInt | KInt8 | KInt16 | KInt32 | KInt64 | KUint | KUint8 | KUint16 | KUint32 | KUint64
  | KFloat32 | KFloat64 | KString | KSlice | KArray | KMap | KPtr | KStruct | KInterface | KOther string

text \<open>\<^verbatim>\<open>reflect.Type.Kind\<close>.\<close>

primrec kind_of :: "gotype \<Rightarrow> kind" where
  "kind_of TBool = KBool"
| "kind_of TInt = KInt"
| "kind_of TInt8 = KInt8"
| "kind_of TInt16 = KInt16"
| "kind_of TInt32 = KInt32"
| "kind_of TInt64 = KInt64"
| "kind_of TUint = KUint"
| "kind_of TUint8 = KUint8"
| "kind_of TUint16 = KUint16"
| "kind_of TUint32 = KUint32"
| "kind_of TUint64 = KUint64"
| "kind_of TFloat32 = KFloat32"
| "kind_of TFloat64 = KFloat64"
| "kind_of TString = KString"
| "kind_of (TSlice t) = KSlice"
| "kind_of (TArray n t) = KArray"
| "kind_of (TMap k v) = KMap"
| "kind_of (TPtr t) = KPtr"
| "kind_of (TStruct n) = KStruct"
| "kind_of (TInterface n b) = KInterface"
| "kind_of (TNamed n t) = kind_of t"
| "kind_of (TOther k) = KOther k"

abbreviation TAny :: gotype where
  "TAny \<equiv> TInterface ''any'' False"

text \<open>
  A value held by an \<^verbatim>\<open>any\<close>: its dynamic type and contents. The first argument of a scalar, string,
  slice, array or map is the name of its declared type, if it has one. \<open>VBytes\<close> is a value of type
  \<^verbatim>\<open>[]uint8\<close> itself; other byte slices (of a declared type) are \<open>VSlice\<close> values. \<open>VPtr t (Some v)\<close> points to
  a variable of type \<open>t\<close> that holds \<open>v\<close>. The pairs of a map are in the order in which MapKeys returns the
  keys. \<open>VStruct n vs\<close> has the field values in the order of declaration. \<open>VEncodedMap\<close> is a non-nil
  \<^verbatim>\<open>*encodedMap\<close>, the decoder's own representation of a map (map.go).
\<close>

type_synonym tyname = "string option"

datatype goval =
    VNil
  | VBool tyname bool
  | VInt tyname u64 | VInt8 tyname u8 | VInt16 tyname u16 | VInt32 tyname u32 | VInt64 tyname u64
  | VUint tyname u64 | VUint8 tyname u8 | VUint16 tyname u16 | VUint32 tyname u32 | VUint64 tyname u64
  | VFloat32 tyname u32 | VFloat64 tyname u64
  | VString tyname bytes
  | VBytes bytes
  | VSlice tyname gotype "goval list"
  | VArray tyname gotype "goval list"
  | VMap tyname gotype gotype "(goval \<times> goval) list"
  | VPtr gotype "goval option"
  | VStruct string "goval list"
  | VEncodedMap "goval list" "goval list"
  | VOther gotype

section \<open>Message structs\<close>

text \<open>
  A declared struct type: its fields, and the identifier its ArfStructID method returns when the type
  implements Struct. The declarations are the application's (generated) code, so the environment of
  declarations is a parameter of the codec. Declared types that are not structs are taken not to
  implement Struct.
\<close>

record structfield =
  fname :: string
  exported :: bool
  arfTag :: "string option"
  ftype :: gotype

record structdef =
  sfields :: "structfield list"
  structID :: "bytes option"

type_synonym tyenv = "string \<Rightarrow> structdef"

text \<open>\<^verbatim>\<open>t.Implements(typeOfStructInterface)\<close>\<close>

fun implementsStruct :: "tyenv \<Rightarrow> gotype \<Rightarrow> bool" where
  "implementsStruct \<Gamma> (TStruct n) = (structID (\<Gamma> n) \<noteq> None)"
| "implementsStruct \<Gamma> (TPtr (TStruct n)) = (structID (\<Gamma> n) \<noteq> None)"
| "implementsStruct \<Gamma> (TInterface n b) = b"
| "implementsStruct \<Gamma> _ = False"

text \<open>\<^verbatim>\<open>strconv.Atoi\<close>: an optional sign and decimal digits (bytes 48 to 57), in the range of int64.\<close>

fun digits_value :: "nat \<Rightarrow> string \<Rightarrow> nat option" where
  "digits_value acc [] = Some acc"
| "digits_value acc (c # cs) =
     (if 48 \<le> (of_char c :: nat) \<and> (of_char c :: nat) \<le> 57
      then digits_value (10 * acc + (of_char c - 48)) cs else None)"

definition Atoi :: "string \<Rightarrow> int outcome" where
  "Atoi s =
     (let (neg, ds) = (case s of c # cs \<Rightarrow> if c = CHR ''-'' then (True, cs)
                          else if c = CHR ''+'' then (False, cs) else (False, s) | [] \<Rightarrow> (False, s))
      in if ds = [] then Fail (Errorf ''invalid syntax'')
         else case digits_value 0 ds of
           None \<Rightarrow> Fail (Errorf ''invalid syntax'')
         | Some n \<Rightarrow>
             let v = (if neg then - int n else int n)
             in if - (2 ^ 63) \<le> v \<and> v < 2 ^ 63 then Ok v else Fail (Errorf ''value out of range''))"

record encodableField =
  efield :: structfield
  epos :: nat
  eindex :: int

text \<open>The loop over the fields: unexported fields and fields without an arf tag are skipped, a tag that is
  not a number is an error. \<open>epos\<close> is the field's position (\<^verbatim>\<open>field.Index\<close>).\<close>

fun collectFields :: "(nat \<times> structfield) list \<Rightarrow> encodableField list outcome" where
  "collectFields [] = Ok []"
| "collectFields ((i, f) # fs) =
     (if \<not> exported f then collectFields fs
      else case arfTag f of
        None \<Rightarrow> collectFields fs
      | Some rawID \<Rightarrow>
          bindO (Atoi rawID) (\<lambda>id.
            bindO (collectFields fs) (\<lambda>rest. Ok (\<lparr>efield = f, epos = i, eindex = id\<rparr> # rest))))"

text \<open>NumField panics on a type that is not a struct. SortFunc leaves the order of fields with equal
  indices open; here they stay in the order of declaration.\<close>

definition encodableFieldsFromType :: "tyenv \<Rightarrow> gotype \<Rightarrow> encodableField list outcome" where
  "encodableFieldsFromType \<Gamma> t =
     (if \<not> implementsStruct \<Gamma> t then Fail (Errorf ''does not implement proto.Struct'')
      else case t of
        TStruct n \<Rightarrow>
          bindO (collectFields (enumerate 0 (sfields (\<Gamma> n)))) (\<lambda>fs. Ok (sort_key eindex fs))
      | _ \<Rightarrow> Panic ''reflect: NumField of non-struct type'')"

fun collectUnionFields :: "(nat \<times> structfield) list \<Rightarrow> encodableField list outcome" where
  "collectUnionFields [] = Ok []"
| "collectUnionFields ((i, f) # fs) =
     (case arfTag f of
        None \<Rightarrow> collectUnionFields fs
      | Some val \<Rightarrow>
          if val = ''union'' then Fail (Errorf ''nested unions are not supported'')
          else bindO (Atoi val) (\<lambda>id.
            bindO (collectUnionFields fs) (\<lambda>rest. Ok (\<lparr>efield = f, epos = i, eindex = id\<rparr> # rest))))"

definition fieldsFromUnionStruct :: "tyenv \<Rightarrow> gotype \<Rightarrow> encodableField list outcome" where
  "fieldsFromUnionStruct \<Gamma> t =
     (case t of
        TStruct n \<Rightarrow> collectUnionFields (enumerate 0 (sfields (\<Gamma> n)))
      | _ \<Rightarrow> Fail (Errorf ''expected type to be a struct''))"

section \<open>The registry\<close>

text \<open>\<open>fieldByIndex\<close> returns the first field with the index.\<close>

definition fieldByIndex :: "encodableField list \<Rightarrow> int \<Rightarrow> encodableField option" where
  "fieldByIndex e idx = find (\<lambda>v. eindex v = idx) e"

record knownStructType =
  kid :: bytes
  structType :: gotype
  kfields :: "encodableField list"

type_synonym registry = "bytes \<rightharpoonup> knownStructType"

definition resetRegistry :: registry where
  "resetRegistry = Map.empty"

text \<open>The argument is the static type of the registered message: a struct type or a pointer to one.\<close>

fun ArfStructID :: "tyenv \<Rightarrow> gotype \<Rightarrow> bytes outcome" where
  "ArfStructID \<Gamma> (TStruct n) = (case structID (\<Gamma> n) of None \<Rightarrow> Panic ''not a Struct'' | Some sid \<Rightarrow> Ok sid)"
| "ArfStructID \<Gamma> (TPtr (TStruct n)) = (case structID (\<Gamma> n) of None \<Rightarrow> Panic ''not a Struct'' | Some sid \<Rightarrow> Ok sid)"
| "ArfStructID \<Gamma> _ = Panic ''not a Struct''"

definition RegisterMessage :: "tyenv \<Rightarrow> gotype \<Rightarrow> registry \<Rightarrow> unit outcome \<times> registry" where
  "RegisterMessage \<Gamma> t reg =
     bindR (ArfStructID \<Gamma> t, reg) (\<lambda>id reg.
       case encodableFieldsFromType \<Gamma> t of
         Ok f \<Rightarrow> (Ok (), reg(id \<mapsto> \<lparr>kid = id, structType = t, kfields = f\<rparr>))
       | Fail e \<Rightarrow> (Panic ''Failed to register arf struct'', reg)
       | Panic m \<Rightarrow> (Panic m, reg)
       | Blocks \<Rightarrow> (Blocks, reg))"

section \<open>Facts about fields\<close>

lemma collectFields_Ok:
  "collectFields fs = Ok es \<Longrightarrow> e \<in> set es \<Longrightarrow> (epos e, efield e) \<in> set fs \<and> exported (efield e)"
proof (induction fs arbitrary: es)
  case (Cons p fs)
  obtain i f where p: "p = (i, f)" by (cases p)
  from Cons.prems p consider "collectFields fs = Ok es"
    | k rest where "exported f" "collectFields fs = Ok rest" "es = \<lparr>efield = f, epos = i, eindex = k\<rparr> # rest"
    by (auto simp: bindO_eq_Ok_iff split: if_splits option.splits)
  then show ?case using Cons.IH Cons.prems(2) p by cases auto
qed simp

lemma Atoi_range: "Atoi s = Ok i \<Longrightarrow> - (2 ^ 63) \<le> i \<and> i < 2 ^ 63"
  by (auto simp: Atoi_def Let_def split: if_splits option.splits prod.splits)

lemma collectFields_range: "collectFields fs = Ok es \<Longrightarrow> e \<in> set es \<Longrightarrow> - (2 ^ 63) \<le> eindex e \<and> eindex e < 2 ^ 63"
proof (induction fs arbitrary: es)
  case (Cons p fs)
  obtain i f where p: "p = (i, f)" by (cases p)
  from Cons.prems p consider "collectFields fs = Ok es"
    | raw k rest where "Atoi raw = Ok k" "collectFields fs = Ok rest" "es = \<lparr>efield = f, epos = i, eindex = k\<rparr> # rest"
    by (auto simp: bindO_eq_Ok_iff split: if_splits option.splits)
  then show ?case using Cons.IH Cons.prems(2) by cases (auto dest: Atoi_range)
qed simp

lemma encodableFields_range:
  "encodableFieldsFromType \<Gamma> t = Ok es \<Longrightarrow> e \<in> set es \<Longrightarrow> - (2 ^ 63) \<le> eindex e \<and> eindex e < 2 ^ 63"
  by (auto simp: encodableFieldsFromType_def bindO_eq_Ok_iff split: if_splits gotype.splits dest: collectFields_range)

lemma encodableFields_Ok:
  assumes "encodableFieldsFromType \<Gamma> (TStruct n) = Ok es"
  shows "sorted (map eindex es)"
    and "e \<in> set es \<Longrightarrow> epos e < length (sfields (\<Gamma> n)) \<and> efield e = sfields (\<Gamma> n) ! epos e \<and> exported (efield e)"
proof -
  from assms obtain fs where fs: "collectFields (enumerate 0 (sfields (\<Gamma> n))) = Ok fs"
    and es: "es = sort_key eindex fs"
    by (auto simp: encodableFieldsFromType_def bindO_eq_Ok_iff split: if_splits)
  show "sorted (map eindex es)" unfolding es by (rule sorted_sort_key)
  show "epos e < length (sfields (\<Gamma> n)) \<and> efield e = sfields (\<Gamma> n) ! epos e \<and> exported (efield e)" if "e \<in> set es"
    using that collectFields_Ok [OF fs, of e] by (auto simp: es in_set_enumerate_eq)
qed

lemma fieldByIndex_Some: "fieldByIndex fs i = Some f \<Longrightarrow> f \<in> set fs \<and> eindex f = i"
  by (auto simp: fieldByIndex_def find_Some_iff)

lemma fieldByIndex_None: "fieldByIndex fs i = None \<longleftrightarrow> i \<notin> eindex ` set fs"
  by (auto simp: fieldByIndex_def find_None_iff)

end
