(* ===== verification/Proto_Encode.thy ===== *)
theory Proto_Encode
  imports Proto_Value
begin

text \<open>
  \<^verbatim>\<open>proto.Encode\<close> (encode.go) with the composite encoders it calls: encodeArray (array.go), encodeMap
  (map.go) and encodeStruct (struct.go).
\<close>

abbreviation arrayEmptyMask :: u8 where "arrayEmptyMask \<equiv> 16"
abbreviation emptyMapMask :: u8 where "emptyMapMask \<equiv> 16"

section \<open>Composite encoders, over the outcomes of encoding their parts\<close>

text \<open>
  Encoding a part has no side effect, so the loops are over the outcomes of the parts: they stop at the
  first one that is not a value.
\<close>

definition encodeArray :: "bytes outcome list \<Rightarrow> bytes outcome" where
  "encodeArray items =
     (if length items = 0 then Ok [TypeArray OR arrayEmptyMask]
      else bindO (seqO items) (\<lambda>buffers.
        Ok ([TypeArray] @ encodeUint64 (of_nat (length items)) @ concat buffers)))"

definition encodeMap :: "(bytes outcome \<times> bytes outcome) list \<Rightarrow> bytes outcome" where
  "encodeMap pairs =
     (if length pairs = 0 then Ok [TypeMap OR emptyMapMask]
      else bindO (seqO (map (\<lambda>(k, v). bindO k (\<lambda>key. bindO v (\<lambda>value. Ok (key, value)))) pairs)) (\<lambda>kvs.
        let keys = concat (map fst kvs);
            values = concat (map snd kvs);
            encodedPairsLen = encodeUint64 (of_nat (length pairs))
        in Ok ([TypeMap] @ encodeUint64 (of_nat (length keys + length values + length encodedPairsLen))
             @ encodedPairsLen @ keys @ values)))"

text \<open>The message fields in index order, each with the outcome of encoding its value: \<^verbatim>\<open>uint64(f.index)\<close> is the
  two's complement of a negative index.\<close>

definition encodeStruct :: "bytes \<Rightarrow> (int \<times> bytes outcome) list \<Rightarrow> bytes outcome" where
  "encodeStruct sid fds =
     bindO (seqO (map (\<lambda>(i, d). bindO d (\<lambda>buf. Ok (encodeUint64 (word_of_int i) @ buf))) fds)) (\<lambda>data.
       let payload = concat data
       in Ok ([TypeStruct] @ EncodeString sid @ encodeUint64 (of_nat (length payload)) @ payload))"

section \<open>Encode\<close>

text \<open>The value behind at most one pointer.\<close>

fun deref :: "goval \<Rightarrow> goval" where
  "deref (VPtr t (Some v)) = v"
| "deref v = v"

fun is_nil :: "goval \<Rightarrow> bool" where
  "is_nil VNil = True"
| "is_nil (VPtr t None) = True"
| "is_nil v = False"

text \<open>A pointer to a variable of interface type: its value has kind Interface, and encodeStruct either
  rejects the interface type or panics on it (it has no fields).\<close>

fun ptr_to_interface :: "goval \<Rightarrow> gotype option" where
  "ptr_to_interface (VPtr t (Some v)) = (if kind_of t = KInterface then Some t else None)"
| "ptr_to_interface v = None"

text \<open>
  The type assertions \<^verbatim>\<open>value.([]uint8)\<close>, \<^verbatim>\<open>value.(string)\<close> and \<^verbatim>\<open>value.(bool)\<close> hold of the predeclared types only:
  on a value of a declared type, and on a byte array, they panic.
\<close>

function (sequential) Encode :: "tyenv \<Rightarrow> goval \<Rightarrow> bytes outcome" where
  "Encode \<Gamma> v =
     (if is_nil v then Ok [TypeVoid]
      else case ptr_to_interface v of
        Some t \<Rightarrow>
          if implementsStruct \<Gamma> t then Panic ''reflect: NumField of non-struct type''
          else Fail (Errorf ''does not implement proto.Struct'')
      | None \<Rightarrow>
        (case deref v of
           VBytes b \<Rightarrow> Ok (EncodeBytes b)
         | VSlice n t vs \<Rightarrow>
             if kind_of t = KUint8 then Panic ''interface conversion: not []uint8''
             else encodeArray (map (Encode \<Gamma>) vs)
         | VArray n t vs \<Rightarrow>
             if kind_of t = KUint8 then Panic ''interface conversion: not []uint8''
             else encodeArray (map (Encode \<Gamma>) vs)
         | VString n s \<Rightarrow>
             (case n of None \<Rightarrow> Ok (EncodeString s) | Some _ \<Rightarrow> Panic ''interface conversion: not string'')
         | VBool n b \<Rightarrow>
             (case n of None \<Rightarrow> Ok (encodeBoolean b) | Some _ \<Rightarrow> Panic ''interface conversion: not bool'')
         | VInt n x \<Rightarrow> Ok (encodeScalar (I64 x))
         | VInt8 n x \<Rightarrow> Ok (encodeScalar (I8 x))
         | VInt16 n x \<Rightarrow> Ok (encodeScalar (I16 x))
         | VInt32 n x \<Rightarrow> Ok (encodeScalar (I32 x))
         | VInt64 n x \<Rightarrow> Ok (encodeScalar (I64 x))
         | VUint n x \<Rightarrow> Ok (encodeScalar (U64 x))
         | VUint8 n x \<Rightarrow> Ok (encodeScalar (U8 x))
         | VUint16 n x \<Rightarrow> Ok (encodeScalar (U16 x))
         | VUint32 n x \<Rightarrow> Ok (encodeScalar (U32 x))
         | VUint64 n x \<Rightarrow> Ok (encodeScalar (U64 x))
         | VFloat32 n x \<Rightarrow> Ok (encodeFloat32 x)
         | VFloat64 n x \<Rightarrow> Ok (encodeFloat64 x)
         | VStruct n vs \<Rightarrow>
             (case structID (\<Gamma> n) of
                None \<Rightarrow> Fail (Errorf ''does not implement proto.Struct'')
              | Some sid \<Rightarrow>
                  bindO (encodableFieldsFromType \<Gamma> (TStruct n)) (\<lambda>fs.
                    encodeStruct sid
                      (map (\<lambda>f. (eindex f,
                          if epos f < length vs then Encode \<Gamma> (vs ! epos f)
                          else Panic ''reflect: Field index out of range'')) fs)))
         | VEncodedMap ks vs \<Rightarrow> Fail (Errorf ''does not implement proto.Struct'')
         | VMap n kt vt kvs \<Rightarrow> encodeMap (map (\<lambda>(k, w). (Encode \<Gamma> k, Encode \<Gamma> w)) kvs)
         | _ \<Rightarrow> Fail (Errorf ''cannot Encode value of type'')))"
  by pat_completeness auto

lemma size_deref: "size (deref v) \<le> size v"
  by (cases v rule: deref.cases) auto

lemma size_in_list: "v \<in> set vs \<Longrightarrow> size v < Suc (size_list size vs)"
  by (induction vs) auto

lemma size_in_pairs:
  "(k, w) \<in> set kvs \<Longrightarrow> size k < Suc (size_list (size_prod size size) kvs) \<and> size w < Suc (size_list (size_prod size size) kvs)"
  by (induction kvs) auto

lemma size_parts:
  "deref v = VSlice n t vs \<Longrightarrow> w \<in> set vs \<Longrightarrow> size w < size v"
  "deref v = VArray n t vs \<Longrightarrow> w \<in> set vs \<Longrightarrow> size w < size v"
  "deref v = VStruct m vs \<Longrightarrow> i < length vs \<Longrightarrow> size (vs ! i) < size v"
  "deref v = VMap n kt vt kvs \<Longrightarrow> (k, w) \<in> set kvs \<Longrightarrow> size k < size v \<and> size w < size v"
  using size_deref [of v] size_in_list [of w vs] size_in_list [of "vs ! i" vs] size_in_pairs [of k w kvs]
  by auto

termination Encode
  by (relation "measure (\<lambda>(\<Gamma>, v). size v)") (auto simp: size_parts)

declare Encode.simps [simp del]

end
