(* ===== verification/Proto_Decode.thy ===== *)
theory Proto_Decode
  imports Proto_Encode
begin

text \<open>
  \<^verbatim>\<open>proto.DecodeAny\<close> (decode.go) with decodeArray (array.go), decodeMap (map.go) and decodeStruct (struct.go).
  The step from decoded fields to an instance of a registered message, decodeIntoInstance, does not read
  input: it is the argument \<open>inst\<close> here.
\<close>

type_synonym instantiate = "bytes \<Rightarrow> (int \<times> goval) list \<Rightarrow> goval outcome"

section \<open>Definitions\<close>

text \<open>
  \<open>decodeItems\<close> is the loop \<^verbatim>\<open>for i := range n\<close> of decodeArray and decodeMap, \<open>decodeFields\<close> the field loop of
  decodeStruct on the limited reader: it ends when reading an index meets the end of file. The map
  \<^verbatim>\<open>fields[int(i)] = v\<close> is an association list in which a later value replaces an earlier one.
\<close>

function DecodeAny :: "instantiate \<Rightarrow> reader \<Rightarrow> goval outcome \<times> reader"
  and decodeArray :: "instantiate \<Rightarrow> u8 \<Rightarrow> reader \<Rightarrow> goval outcome \<times> reader"
  and decodeMap :: "instantiate \<Rightarrow> u8 \<Rightarrow> reader \<Rightarrow> goval outcome \<times> reader"
  and decodeStruct :: "instantiate \<Rightarrow> reader \<Rightarrow> goval outcome \<times> reader"
  and decodeItems :: "instantiate \<Rightarrow> nat \<Rightarrow> reader \<Rightarrow> goval list outcome \<times> reader"
  and decodeFields :: "instantiate \<Rightarrow> (int \<times> goval) list \<Rightarrow> reader \<Rightarrow> (int \<times> goval) list outcome \<times> reader"
where
  "DecodeAny inst r =
     bindR (readType r) (\<lambda>tb r.
       let t = fst tb; b = snd tb in
       if t = TypeVoid then (Ok VNil, r)
       else if t = TypeScalar then bindR (decodeScalar b r) (\<lambda>s r. (Ok (VUint64 None (snd (snd s))), r))
       else if t = TypeBoolean then (Ok (VBool None (decodeBoolean b)), r)
       else if t = TypeFloat then bindR (decodeFloat b r) (\<lambda>f r. (Ok (VFloat64 None (snd f)), r))
       else if t = TypeString then bindR (decodeString b r) (\<lambda>s r. (Ok (VString None s), r))
       else if t = TypeBytes then bindR (decodeBytes b r) (\<lambda>s r. (Ok (VBytes s), r))
       else if t = TypeArray then decodeArray inst b r
       else if t = TypeMap then decodeMap inst b r
       else if t = TypeStruct then decodeStruct inst r
       else (Panic ''unreachable'', r))"
| "decodeArray inst header r =
     (if header AND arrayEmptyMask = arrayEmptyMask then (Ok (VSlice None TAny []), r)
      else bindR (decodeUint64 r) (\<lambda>arrLen r.
        bindR (makeslice 16 arrLen, r) (\<lambda>_ r.
          bindR (decodeItems inst (unat arrLen) r) (\<lambda>arr r. (Ok (VSlice None TAny arr), r)))))"
| "decodeMap inst header r =
     (if header AND emptyMapMask = emptyMapMask then (Ok (VEncodedMap [] []), r)
      else bindR (decodeUint64 r) (\<lambda>_ r.
        bindR (decodeUint64 r) (\<lambda>pairsLen r.
          bindR (makeslice 16 pairsLen, r) (\<lambda>_ r.
            bindR (decodeItems inst (unat pairsLen) r) (\<lambda>keys r.
              bindR (decodeItems inst (unat pairsLen) r) (\<lambda>values r. (Ok (VEncodedMap keys values), r)))))))"
| "decodeStruct inst r =
     bindR (readType r) (\<lambda>tb r.
       if fst tb \<noteq> TypeString then (Fail (Errorf ''cannot decode struct: expected string''), r)
       else bindR (decodeString (snd tb) r) (\<lambda>sid r.
         bindR (decodeUint64 r) (\<lambda>bytesLen r.
           case decodeFields inst [] (Limit r (sint bytesLen)) of
             (Ok fds, r') \<Rightarrow> (inst sid fds, underlying r')
           | (Fail e, r') \<Rightarrow> (Fail e, underlying r')
           | (Panic m, r') \<Rightarrow> (Panic m, underlying r')
           | (Blocks, r') \<Rightarrow> (Blocks, underlying r'))))"
| "decodeItems inst n r =
     (case n of
        0 \<Rightarrow> (Ok [], r)
      | Suc k \<Rightarrow> bindR (DecodeAny inst r) (\<lambda>v r. bindR (decodeItems inst k r) (\<lambda>vs r. (Ok (v # vs), r))))"
| "decodeFields inst fds r =
     (case decodeUint64 r of
        (Ok i, r) \<Rightarrow> bindR (DecodeAny inst r) (\<lambda>v r. decodeFields inst (AList.update (sint i) v fds) r)
      | (Fail e, r) \<Rightarrow> if e = EOF then (Ok fds, r) else (Fail e, r)
      | (Panic m, r) \<Rightarrow> (Panic m, r)
      | (Blocks, r) \<Rightarrow> (Blocks, r))"
  by pat_completeness auto


section \<open>Termination\<close>

text \<open>No call makes the unread input longer; the termination of the loops rests on it, so it is proved first,
  for the calls that terminate.\<close>

lemma decodeScalar_rsize_le: "rsize (snd (decodeScalar h r)) \<le> rsize r"
  unfolding decodeScalar_def Let_def by (auto intro!: shrinking_bindR simp: decodeUint64_rsize_le)

lemma decodeString_rsize_le: "rsize (snd (decodeString h r)) \<le> rsize r"
  unfolding decodeString_def by (auto intro!: shrinking_bindR simp: decodeUint64_rsize_le read_into_rsize_le)

lemma decodeBytes_rsize_le: "rsize (snd (decodeBytes h r)) \<le> rsize r"
  unfolding decodeBytes_def by (auto intro!: shrinking_bindR simp: decodeUint64_rsize_le read_into_rsize_le)

lemmas leaf_rsize_le = readType_rsize_le decodeUint64_rsize_le decodeScalar_rsize_le decodeFloat_rsize_le
  decodeString_rsize_le decodeBytes_rsize_le

lemma underlying_rsize_le: "rsize (underlying r) \<le> rsize r"
  by (cases r) simp_all

lemma decodeUint64_case_rsize:
  "decodeUint64 r = (out, r') \<Longrightarrow> rsize r' \<le> rsize r"
  using decodeUint64_rsize_le [of r] by simp

lemma decode_rsize_le_dom:
  "DecodeAny_decodeArray_decodeMap_decodeStruct_decodeItems_decodeFields_dom (Inl (Inl (inst, r)))
     \<Longrightarrow> rsize (snd (DecodeAny inst r)) \<le> rsize r"
  "DecodeAny_decodeArray_decodeMap_decodeStruct_decodeItems_decodeFields_dom (Inl (Inr (Inl (inst, h, r))))
     \<Longrightarrow> rsize (snd (decodeArray inst h r)) \<le> rsize r"
  "DecodeAny_decodeArray_decodeMap_decodeStruct_decodeItems_decodeFields_dom (Inl (Inr (Inr (inst, h, r))))
     \<Longrightarrow> rsize (snd (decodeMap inst h r)) \<le> rsize r"
  "DecodeAny_decodeArray_decodeMap_decodeStruct_decodeItems_decodeFields_dom (Inr (Inl (inst, r)))
     \<Longrightarrow> rsize (snd (decodeStruct inst r)) \<le> rsize r"
  "DecodeAny_decodeArray_decodeMap_decodeStruct_decodeItems_decodeFields_dom (Inr (Inr (Inl (inst, n, r))))
     \<Longrightarrow> rsize (snd (decodeItems inst n r)) \<le> rsize r"
  "DecodeAny_decodeArray_decodeMap_decodeStruct_decodeItems_decodeFields_dom (Inr (Inr (Inr (inst, fds, r))))
     \<Longrightarrow> rsize (snd (decodeFields inst fds r)) \<le> rsize r"
proof (induction rule: DecodeAny_decodeArray_decodeMap_decodeStruct_decodeItems_decodeFields.pinduct)
  case (1 inst r)
  show ?case unfolding DecodeAny.psimps [OF "1.hyps"] Let_def
    by (rule shrinking_bindR, rule leaf_rsize_le) (use "1.IH" in \<open>auto intro!: shrinking_bindR simp: leaf_rsize_le\<close>)
next
  case (2 inst header r)
  show ?case unfolding decodeArray.psimps [OF "2.hyps"]
    using "2.IH" by (auto intro!: shrinking_bindR simp: leaf_rsize_le)
next
  case (3 inst header r)
  show ?case unfolding decodeMap.psimps [OF "3.hyps"]
    using "3.IH" by (auto intro!: shrinking_bindR simp: leaf_rsize_le)
next
  case (4 inst r)
  show ?case unfolding decodeStruct.psimps [OF "4.hyps"]
  proof (rule shrinking_bindR, rule leaf_rsize_le, clarsimp, intro conjI impI shrinking_bindR)
    fix t b r1 sid r2 len r3
    assume *: "readType r = (Ok (TypeString, b), r1)" "decodeString b r1 = (Ok sid, r2)" "decodeUint64 r2 = (Ok len, r3)"
    then have "rsize (snd (decodeFields inst [] (Limit r3 (sint len)))) \<le> rsize r3" using "4.IH" by fastforce
    then show "rsize (snd (case decodeFields inst [] (Limit r3 (sint len)) of
             (Ok fds, r') \<Rightarrow> (inst sid fds, underlying r')
           | (Fail e, r') \<Rightarrow> (Fail e, underlying r')
           | (Panic m, r') \<Rightarrow> (Panic m, underlying r')
           | (Blocks, r') \<Rightarrow> (Blocks, underlying r'))) \<le> rsize r3"
      by (auto split: prod.splits outcome.splits intro: order_trans [OF underlying_rsize_le])
  qed (simp_all add: leaf_rsize_le)
next
  case (5 inst n r)
  show ?case unfolding decodeItems.psimps [OF "5.hyps"]
    using "5.IH" by (auto intro!: shrinking_bindR split: nat.split)
next
  case (6 inst fds r)
  show ?case unfolding decodeFields.psimps [OF "6.hyps"]
    using "6.IH" by (auto intro!: shrinking_bindR split: prod.split outcome.split dest: decodeUint64_case_rsize intro: order_trans)
qed

lemma decode_shrinks_dom:
  "DecodeAny inst r = (out, r') \<Longrightarrow> DecodeAny_decodeArray_decodeMap_decodeStruct_decodeItems_decodeFields_dom (Inl (Inl (inst, r)))
     \<Longrightarrow> rsize r' \<le> rsize r"
  "decodeItems inst n r = (outs, r') \<Longrightarrow> DecodeAny_decodeArray_decodeMap_decodeStruct_decodeItems_decodeFields_dom (Inr (Inr (Inl (inst, n, r))))
     \<Longrightarrow> rsize r' \<le> rsize r"
  "decodeString h r = (out', r') \<Longrightarrow> rsize r' \<le> rsize r"
  using decode_rsize_le_dom(1) [of inst r] decode_rsize_le_dom(5) [of inst n r] decodeString_rsize_le [of h r]
  by simp_all

lemma decode_total: "All DecodeAny_decodeArray_decodeMap_decodeStruct_decodeItems_decodeFields_dom"
proof (relation "inv_image (less_than <*lex*> less_than <*lex*> less_than) (\<lambda>x. case x of
      Inl (Inl (inst, r)) \<Rightarrow> (rsize r, 0, 0)
    | Inl (Inr (Inl (inst, h, r))) \<Rightarrow> (rsize r, 0, 0) | Inl (Inr (Inr (inst, h, r))) \<Rightarrow> (rsize r, 0, 0)
    | Inr (Inl (inst, r)) \<Rightarrow> (rsize r, 0, 0) | Inr (Inr (Inl (inst, n, r))) \<Rightarrow> (rsize r, 1, n)
    | Inr (Inr (Inr (inst, fs, r))) \<Rightarrow> (rsize r, 0, 0))", goal_cases)
  case 1
  show ?case by auto
qed (auto dest!: readType_Ok_rsize decodeUint64_Ok_rsize decodeUint64_Ok_rsize [OF sym] decode_shrinks_dom)

termination DecodeAny
  by (rule decode_total)

declare DecodeAny.simps [simp del] decodeArray.simps [simp del] decodeMap.simps [simp del]
  decodeStruct.simps [simp del] decodeItems.simps [simp del] decodeFields.simps [simp del]

lemma DecodeAny_rsize_le: "rsize (snd (DecodeAny inst r)) \<le> rsize r"
  by (rule decode_rsize_le_dom(1)) (rule decode_total [THEN spec])

end
