(* ===== verification/Proto_Roundtrip.thy ===== *)
theory Proto_Roundtrip
  imports Proto_Decode
begin

text \<open>
  What DecodeAny returns on the output of Encode. The function \<open>canon\<close> says which value comes back: the decoder
  knows neither the width nor the sign of an integer, returns every float as a float64, a slice as \<^verbatim>\<open>[]any\<close>, a map
  as keys and values, and a struct through its registered type.
\<close>

section \<open>The value that comes back\<close>

definition canon_fields :: "(int \<times> goval outcome) list \<Rightarrow> (int \<times> goval) list outcome" where
  "canon_fields fds =
     bindO (seqO (map (\<lambda>(i, d). bindO d (\<lambda>w. Ok (i, w))) fds)) (\<lambda>kvs.
       Ok (fold (\<lambda>(i, w). AList.update i w) kvs []))"

function (sequential) canon :: "instantiate \<Rightarrow> tyenv \<Rightarrow> goval \<Rightarrow> goval outcome" where
  "canon inst \<Gamma> v =
     (if is_nil v then Ok VNil
      else case deref v of
        VBytes b \<Rightarrow> Ok (VBytes b)
      | VSlice n t vs \<Rightarrow> bindO (seqO (map (canon inst \<Gamma>) vs)) (\<lambda>ws. Ok (VSlice None TAny ws))
      | VArray n t vs \<Rightarrow> bindO (seqO (map (canon inst \<Gamma>) vs)) (\<lambda>ws. Ok (VSlice None TAny ws))
      | VString n s \<Rightarrow> Ok (VString None s)
      | VBool n b \<Rightarrow> Ok (VBool None b)
      | VInt n x \<Rightarrow> Ok (VUint64 None (snd (numeric_magnitude (I64 x))))
      | VInt8 n x \<Rightarrow> Ok (VUint64 None (snd (numeric_magnitude (I8 x))))
      | VInt16 n x \<Rightarrow> Ok (VUint64 None (snd (numeric_magnitude (I16 x))))
      | VInt32 n x \<Rightarrow> Ok (VUint64 None (snd (numeric_magnitude (I32 x))))
      | VInt64 n x \<Rightarrow> Ok (VUint64 None (snd (numeric_magnitude (I64 x))))
      | VUint n x \<Rightarrow> Ok (VUint64 None x)
      | VUint8 n x \<Rightarrow> Ok (VUint64 None (ucast x))
      | VUint16 n x \<Rightarrow> Ok (VUint64 None (ucast x))
      | VUint32 n x \<Rightarrow> Ok (VUint64 None (ucast x))
      | VUint64 n x \<Rightarrow> Ok (VUint64 None x)
      | VFloat32 n x \<Rightarrow> Ok (VFloat64 None (if x AND 0x7fffffff = 0 then 0 else f32to64 x))
      | VFloat64 n x \<Rightarrow> Ok (VFloat64 None (if x AND 0x7fffffffffffffff = 0 then 0 else x))
      | VStruct n vs \<Rightarrow>
          (case structID (\<Gamma> n) of
             None \<Rightarrow> Fail (Errorf ''does not implement proto.Struct'')
           | Some sid \<Rightarrow>
               bindO (encodableFieldsFromType \<Gamma> (TStruct n)) (\<lambda>fs.
                 bindO (canon_fields
                   (map (\<lambda>f. (eindex f,
                       if epos f < length vs then canon inst \<Gamma> (vs ! epos f)
                       else Panic ''reflect: Field index out of range'')) fs)) (inst sid)))
      | VMap n kt vt kvs \<Rightarrow>
          bindO (seqO (map (\<lambda>(k, w). canon inst \<Gamma> k) kvs)) (\<lambda>ks.
            bindO (seqO (map (\<lambda>(k, w). canon inst \<Gamma> w) kvs)) (\<lambda>ws. Ok (VEncodedMap ks ws)))
      | _ \<Rightarrow> Fail (Errorf ''cannot Encode value of type''))"
  by pat_completeness auto
termination
  by (relation "measure (\<lambda>(inst, \<Gamma>, v). size v)") (auto simp: size_parts)

declare canon.simps [simp del]

section \<open>Decoding one value\<close>

text \<open>\<open>dec_ok inst bs w\<close>: from any reader that offers \<open>bs\<close> next, DecodeAny returns \<open>w\<close> and leaves the reader right after
  \<open>bs\<close>.\<close>

definition dec_ok :: "instantiate \<Rightarrow> bytes \<Rightarrow> goval \<Rightarrow> bool" where
  "dec_ok inst bs w \<longleftrightarrow> bs \<noteq> [] \<and> (\<forall>r. prefix bs (rpeek r) \<longrightarrow> DecodeAny inst r = (Ok w, radv (length bs) r))"

lemma dec_okI:
  assumes "bs \<noteq> []" and "\<And>r. prefix bs (rpeek r) \<Longrightarrow> DecodeAny inst r = (Ok w, radv (length bs) r)"
  shows "dec_ok inst bs w"
  using assms by (simp add: dec_ok_def)

lemma dec_okD:
  assumes "dec_ok inst bs w"
  shows "bs \<noteq> []" and "prefix bs (rpeek r) \<Longrightarrow> DecodeAny inst r = (Ok w, radv (length bs) r)"
  using assms by (simp_all add: dec_ok_def)

lemma DecodeAny_tag:
  assumes "prefix (b # xs) (rpeek r)" and "b AND 15 \<in> set allPrimitives"
  shows "readType r = (Ok (b AND 15, b), radv (Suc 0) r)"
  using readType_prefix [OF assms] by simp

lemma dec_ok_void: "dec_ok inst [TypeVoid] VNil"
  by (rule dec_okI) (simp_all add: DecodeAny.simps DecodeAny_tag allPrimitives_def)

lemma dec_ok_scalar: "dec_ok inst (encodeScalar n) (VUint64 None (snd (numeric_magnitude n)))"
proof -
  obtain h rest where e: "encodeScalar n = h # rest" and h: "h AND 15 = TypeScalar"
    using encodeScalar_header [of n] by blast
  show ?thesis
  proof (rule dec_okI)
    fix r
    assume p: "prefix (encodeScalar n) (rpeek r)"
    then have p': "prefix (h # rest) (rpeek r)" using e by simp
    from DecodeAny_tag [OF p'] decodeScalar_enc [OF e p'] h e
    show "DecodeAny inst r = (Ok (VUint64 None (snd (numeric_magnitude n))), radv (length (encodeScalar n)) r)"
      by (simp add: DecodeAny.simps allPrimitives_def)
  qed (simp add: e)
qed

lemma dec_ok_bool: "dec_ok inst (encodeBoolean b) (VBool None b)"
  by (rule dec_okI)
    (auto simp: DecodeAny.simps encodeBoolean_def decodeBoolean_def DecodeAny_tag allPrimitives_def split: if_splits)

lemma dec_ok_string: "length s \<le> maxAlloc \<Longrightarrow> dec_ok inst (EncodeString s) (VString None s)"
proof (rule dec_okI)
  fix r
  assume "length s \<le> maxAlloc" and "prefix (EncodeString s) (rpeek r)"
  from str.dec_enc [OF this] obtain b r1 where "readType r = (Ok (TypeString, b), r1)"
    and "decodeString b r1 = (Ok s, radv (length (EncodeString s)) r)"
    by (auto simp: DecodeString_def bindR_eq_Ok_iff split: if_splits)
  then show "DecodeAny inst r = (Ok (VString None s), radv (length (EncodeString s)) r)"
    by (simp add: DecodeAny.simps)
qed (simp add: EncodeString_def)

lemma dec_ok_bytes: "length s \<le> maxAlloc \<Longrightarrow> dec_ok inst (EncodeBytes s) (VBytes s)"
proof (rule dec_okI)
  fix r
  assume "length s \<le> maxAlloc" and "prefix (EncodeBytes s) (rpeek r)"
  from byt.dec_enc [OF this] obtain b r1 where "readType r = (Ok (TypeBytes, b), r1)"
    and "decodeBytes b r1 = (Ok s, radv (length (EncodeBytes s)) r)"
    by (auto simp: DecodeBytes_def bindR_eq_Ok_iff split: if_splits)
  then show "DecodeAny inst r = (Ok (VBytes s), radv (length (EncodeBytes s)) r)"
    by (simp add: DecodeAny.simps)
qed (simp add: EncodeBytes_def)

lemma dec_ok_float32:
  "dec_ok inst (encodeFloat32 x) (VFloat64 None (if x AND 0x7fffffff = 0 then 0 else f32to64 x))"
proof (rule dec_okI)
  fix r
  assume p: "prefix (encodeFloat32 x) (rpeek r)"
  show "DecodeAny inst r = (Ok (VFloat64 None (if x AND 0x7fffffff = 0 then 0 else f32to64 x)),
      radv (length (encodeFloat32 x)) r)"
  proof (cases "x AND 0x7fffffff = 0")
    case True
    with p show ?thesis
      by (simp add: DecodeAny.simps encodeFloat32_def decodeFloat_def DecodeAny_tag allPrimitives_def)
  next
    case False
    then have e: "encodeFloat32 x = TypeFloat # PutUint32 x" by (simp add: encodeFloat32_def)
    from p DecodeAny_tag [of TypeFloat "PutUint32 x" r] decodeFloat32_enc [OF False p] False show ?thesis
      by (simp add: DecodeAny.simps e allPrimitives_def)
  qed
qed (simp add: encodeFloat32_def)

lemma dec_ok_float64:
  "dec_ok inst (encodeFloat64 x) (VFloat64 None (if x AND 0x7fffffffffffffff = 0 then 0 else x))"
proof (rule dec_okI)
  fix r
  assume p: "prefix (encodeFloat64 x) (rpeek r)"
  show "DecodeAny inst r = (Ok (VFloat64 None (if x AND 0x7fffffffffffffff = 0 then 0 else x)),
      radv (length (encodeFloat64 x)) r)"
  proof (cases "x AND 0x7fffffffffffffff = 0")
    case True
    with p show ?thesis
      by (simp add: DecodeAny.simps encodeFloat64_def decodeFloat_def DecodeAny_tag allPrimitives_def)
  next
    case False
    then have e: "encodeFloat64 x = 0x13 # PutUint64 x" by (simp add: encodeFloat64_def)
    from p DecodeAny_tag [of "0x13" "PutUint64 x" r] decodeFloat64_enc [OF False p] False show ?thesis
      by (simp add: DecodeAny.simps e allPrimitives_def)
  qed
qed (simp add: encodeFloat64_def)

section \<open>Decoding lists of values\<close>

lemma decodeItems_ok:
  "list_all2 (dec_ok inst) bss ws \<Longrightarrow> prefix (concat bss) (rpeek r) \<Longrightarrow>
     decodeItems inst (length bss) r = (Ok ws, rskip (length (concat bss)) r)"
proof (induction bss ws arbitrary: r rule: list_all2_induct)
  case Nil
  then show ?case by (simp add: decodeItems.simps)
next
  case (Cons bs bss w ws)
  from Cons.prems have p: "prefix (bs @ concat bss) (rpeek r)" by simp
  note rest = rskip_next [OF p]
  from dec_okD [OF Cons.hyps(1)] prefix_appendD1 [OF p]
  have "DecodeAny inst r = (Ok w, rskip (length bs) r)" by simp
  with Cons.IH [OF rest(1)] rest(2) show ?case
    by (simp add: decodeItems.simps [of inst "Suc (length bss)"] length_concat)
qed

text \<open>The encodings of the fields of a struct: each an index and a value.\<close>

abbreviation field_bytes :: "int \<times> bytes \<Rightarrow> bytes" where
  "field_bytes f \<equiv> encodeUint64 (word_of_int (fst f)) @ snd f"

lemma decodeUint64_Limit_0: "decodeUint64 (Limit r 0) = (Fail EOF, Limit r 0)"
  by (simp add: decodeUint64_def decodeUint64_loop.simps)

lemma rskip_Limit: "rskip k (Limit r N) = Limit (rskip k r) (N - int k)"
  by (simp add: rskip_def)

definition index_ok :: "int \<Rightarrow> bool" where
  "index_ok i \<longleftrightarrow> - (2 ^ 63) \<le> i \<and> i < 2 ^ 63"

lemma sint_index: "index_ok i \<Longrightarrow> sint (word_of_int i :: u64) = i"
  by (simp add: index_ok_def sint_sbintrunc' signed_take_bit_int_eq_self)

lemma decodeFields_step:
  "decodeUint64 r = (Ok i, r1) \<Longrightarrow> DecodeAny inst r1 = (Ok v, r2) \<Longrightarrow>
     decodeFields inst acc r = decodeFields inst (AList.update (sint i) v acc) r2"
  by (simp add: decodeFields.simps [of inst acc r])

lemma decodeFields_ok:
  "list_all2 (\<lambda>f g. fst f = fst g \<and> index_ok (fst f) \<and> dec_ok inst (snd f) (snd g)) fbs fws \<Longrightarrow>
     prefix (concat (map field_bytes fbs)) (rpeek r) \<Longrightarrow>
     decodeFields inst acc (Limit r (int (length (concat (map field_bytes fbs))))) =
       (Ok (fold (\<lambda>(i, w). AList.update i w) fws acc), Limit (rskip (length (concat (map field_bytes fbs))) r) 0)"
proof (induction fbs fws arbitrary: acc r rule: list_all2_induct)
  case Nil
  then show ?case by (simp add: decodeFields.simps decodeUint64_Limit_0)
next
  case (Cons f fbs g fws)
  obtain i bs w where f: "f = (i, bs)" and g: "g = (i, w)" and i: "index_ok i" and d: "dec_ok inst bs w"
    using Cons.hyps(1) by (cases f, cases g) auto
  let ?ix = "encodeUint64 (word_of_int i)" and ?rest = "concat (map field_bytes fbs)"
  let ?L = "Limit r (int (length (concat (map field_bytes (f # fbs)))))"
  from Cons.prems have q: "prefix (?ix @ bs @ ?rest) (rpeek r)" by (simp add: f)
  then have q1: "prefix (?ix @ bs) (rpeek r)" and q2: "prefix ((?ix @ bs) @ ?rest) (rpeek r)"
    using prefix_appendD1 [of "?ix @ bs" ?rest] by simp_all
  from q have p: "prefix (?ix @ bs @ ?rest) (rpeek ?L)" by (auto simp: f prefix_def)
  have ix: "decodeUint64 ?L = (Ok (word_of_int i), rskip (length ?ix) ?L)"
    using varint.dec_enc [OF TrueI prefix_appendD1 [OF p]] by simp
  have val: "DecodeAny inst (rskip (length ?ix) ?L) = (Ok w, rskip (length bs) (rskip (length ?ix) ?L))"
    using dec_okD [OF d] prefix_appendD1 [OF rskip_next(1) [OF p]] by simp
  have adv: "rskip (length bs) (rskip (length ?ix) ?L) = Limit (rskip (length (?ix @ bs)) r) (int (length ?rest))"
    unfolding rskip_Limit rskip_next(2) [OF q1] by (simp add: f)
  have "decodeFields inst acc ?L =
      decodeFields inst (AList.update i w acc) (Limit (rskip (length (?ix @ bs)) r) (int (length ?rest)))"
    unfolding decodeFields_step [OF ix val] adv sint_index [OF i] ..
  also have "\<dots> = (Ok (fold (\<lambda>(i, w). AList.update i w) fws (AList.update i w acc)),
      Limit (rskip (length ?rest) (rskip (length (?ix @ bs)) r)) 0)"
    by (rule Cons.IH) (rule rskip_next(1) [OF q2])
  finally show ?case unfolding rskip_next(2) [OF q2] by (simp add: f g add.assoc)
qed

section \<open>Decoding composite values\<close>

lemma unat_of_length: "length xs \<le> 2 ^ 44 \<Longrightarrow> unat (of_nat (length xs) :: u64) = length xs"
  by (rule unat_of_nat_small) simp

lemma makeslice_16: "length xs \<le> 2 ^ 44 \<Longrightarrow> makeslice 16 (of_nat (length xs)) = Ok ()"
  by (simp add: makeslice_def unat_of_length maxAlloc_def)

lemma dec_ok_array_empty: "dec_ok inst [0x16] (VSlice None TAny [])"
  by (rule dec_okI) (simp_all add: DecodeAny.simps decodeArray.simps DecodeAny_tag allPrimitives_def)

lemma dec_ok_array:
  assumes items: "list_all2 (dec_ok inst) bss ws" and len: "length bss \<le> 2 ^ 44"
  shows "dec_ok inst ([TypeArray] @ encodeUint64 (of_nat (length bss)) @ concat bss) (VSlice None TAny ws)"
proof (rule dec_okI)
  let ?n = "encodeUint64 (of_nat (length bss))"
  fix r
  assume p: "prefix ([TypeArray] @ ?n @ concat bss) (rpeek r)"
  note p1 = rskip_next [OF p]
  note p2 = rskip_next [OF p1(1)]
  have "readType r = (Ok (TypeArray, TypeArray), rskip 1 r)"
    using DecodeAny_tag [of TypeArray] p by (simp add: allPrimitives_def)
  moreover have "decodeUint64 (rskip 1 r) = (Ok (of_nat (length bss)), rskip (length ?n) (rskip 1 r))"
    using varint.dec_enc [OF TrueI prefix_appendD1 [OF p1(1)]] by simp
  moreover have "decodeItems inst (length bss) (rskip (length ?n) (rskip 1 r))
      = (Ok ws, rskip (length (concat bss)) (rskip (length ?n) (rskip 1 r)))"
    using decodeItems_ok [OF items] p2(1) by simp
  ultimately show "DecodeAny inst r = (Ok (VSlice None TAny ws), radv (length ([TypeArray] @ ?n @ concat bss)) r)"
    using p1(2) p2(2) len
    by (simp add: DecodeAny.simps [of inst r] decodeArray.simps unat_of_length makeslice_16)
qed simp

lemma dec_ok_map_empty: "dec_ok inst [0x17] (VEncodedMap [] [])"
  by (rule dec_okI) (simp_all add: DecodeAny.simps decodeMap.simps DecodeAny_tag allPrimitives_def)

lemma dec_ok_map:
  assumes ks: "list_all2 (dec_ok inst) kbs ks" and vs: "list_all2 (dec_ok inst) vbs vs"
    and eq: "length vbs = length kbs" and len: "length kbs \<le> 2 ^ 44"
  shows "dec_ok inst ([TypeMap] @ encodeUint64 tot @ encodeUint64 (of_nat (length kbs)) @ concat kbs @ concat vbs)
    (VEncodedMap ks vs)"
proof (rule dec_okI)
  let ?t = "encodeUint64 tot" and ?n = "encodeUint64 (of_nat (length kbs))"
  fix r
  assume p: "prefix ([TypeMap] @ ?t @ ?n @ concat kbs @ concat vbs) (rpeek r)"
  note p1 = rskip_next [OF p]
  note p2 = rskip_next [OF p1(1)]
  note p3 = rskip_next [OF p2(1)]
  note p4 = rskip_next [OF p3(1)]
  have "readType r = (Ok (TypeMap, TypeMap), rskip 1 r)"
    using DecodeAny_tag [of TypeMap] p by (simp add: allPrimitives_def)
  moreover have "decodeUint64 (rskip 1 r) = (Ok tot, rskip (length ?t) (rskip 1 r))"
    using varint.dec_enc [OF TrueI prefix_appendD1 [OF p1(1)]] by simp
  moreover have "decodeUint64 (rskip (length ?t) (rskip 1 r))
      = (Ok (of_nat (length kbs)), rskip (length ?n) (rskip (length ?t) (rskip 1 r)))"
    using varint.dec_enc [OF TrueI prefix_appendD1 [OF p2(1)]] by simp
  moreover have "decodeItems inst (length kbs) (rskip (length ?n) (rskip (length ?t) (rskip 1 r)))
      = (Ok ks, rskip (length (concat kbs)) (rskip (length ?n) (rskip (length ?t) (rskip 1 r))))"
    using decodeItems_ok [OF ks] prefix_appendD1 [OF p3(1)] by simp
  moreover have "decodeItems inst (length kbs) (rskip (length (concat kbs)) (rskip (length ?n) (rskip (length ?t) (rskip 1 r))))
      = (Ok vs, rskip (length (concat vbs)) (rskip (length (concat kbs)) (rskip (length ?n) (rskip (length ?t) (rskip 1 r)))))"
    using decodeItems_ok [OF vs] p4(1) eq by simp
  ultimately have "DecodeAny inst r = (Ok (VEncodedMap ks vs),
      rskip (length (concat vbs)) (rskip (length (concat kbs)) (rskip (length ?n) (rskip (length ?t) (rskip 1 r)))))"
    using len by (simp add: DecodeAny.simps [of inst r] decodeMap.simps unat_of_length makeslice_16)
  then show "DecodeAny inst r = (Ok (VEncodedMap ks vs), radv (length ([TypeMap] @ ?t @ ?n @ concat kbs @ concat vbs)) r)"
    using p1(2) p2(2) p3(2) p4(2) by simp
qed simp

lemma dec_ok_struct:
  assumes flds: "list_all2 (\<lambda>f g. fst f = fst g \<and> index_ok (fst f) \<and> dec_ok inst (snd f) (snd g)) fbs fws"
    and payload: "payload = concat (map field_bytes fbs)" and len: "length payload \<le> 2 ^ 44"
    and sid: "length sid \<le> maxAlloc"
    and w: "inst sid (fold (\<lambda>(i, w). AList.update i w) fws []) = Ok w"
  shows "dec_ok inst ([TypeStruct] @ EncodeString sid @ encodeUint64 (of_nat (length payload)) @ payload) w"
proof (rule dec_okI)
  let ?s = "EncodeString sid" and ?n = "encodeUint64 (of_nat (length payload))"
  have s_ne: "?s \<noteq> []" by (simp add: EncodeString_def)
  fix r
  assume p: "prefix ([TypeStruct] @ ?s @ ?n @ payload) (rpeek r)"
  note p1 = rskip_next [OF p]
  note p2 = rskip_next [OF p1(1)]
  note p3 = rskip_next [OF p2(1)]
  let ?r1 = "rskip (length [TypeStruct]) r"
  let ?r2 = "rskip (length ?s) ?r1"
  let ?r3 = "rskip (length ?n) ?r2"
  have tag: "readType r = (Ok (TypeStruct, TypeStruct), ?r1)"
    using DecodeAny_tag [of TypeStruct] p by (simp add: allPrimitives_def)
  have "DecodeString ?r1 = (Ok sid, ?r2)"
    using str.dec_enc [OF sid prefix_appendD1 [OF p1(1)]] s_ne by simp
  then obtain b r1 where str: "readType ?r1 = (Ok (TypeString, b), r1)" "decodeString b r1 = (Ok sid, ?r2)"
    by (auto simp: DecodeString_def bindR_eq_Ok_iff split: if_splits)
  have n: "decodeUint64 ?r2 = (Ok (of_nat (length payload)), ?r3)"
    using varint.dec_enc [OF TrueI prefix_appendD1 [OF p2(1)]] by simp
  have sint: "sint (of_nat (length payload) :: u64) = int (length payload)"
    using len sint_index [of "int (length payload)"] by (simp add: index_ok_def)
  have flds': "decodeFields inst [] (Limit ?r3 (int (length payload)))
      = (Ok (fold (\<lambda>(i, w). AList.update i w) fws []), Limit (rskip (length payload) ?r3) 0)"
    using decodeFields_ok [OF flds] p3(1) unfolding payload by simp
  have "DecodeAny inst r = (Ok w, rskip (length payload) ?r3)"
    using tag str n sint flds' w
    by (simp add: DecodeAny.simps [of inst r] decodeStruct.simps)
  then show "DecodeAny inst r = (Ok w, radv (length ([TypeStruct] @ ?s @ ?n @ payload)) r)"
    using p1(2) p2(2) p3(2) by simp
qed simp

section \<open>The round trip\<close>

lemma list_all2_dec_ok_length: "list_all2 (dec_ok inst) bss ws \<Longrightarrow> length bss \<le> length (concat bss)"
proof (induction rule: list_all2_induct)
  case (Cons bs bss w ws)
  then show ?case using dec_okD(1) [OF Cons.hyps(1)] by (cases bs) auto
qed simp

text \<open>\<open>roundtrips inst e c\<close>: if the encoding \<open>e\<close> and the expected value \<open>c\<close> exist, decoding returns the value. The bound on
  the length of the encoding keeps every \<^verbatim>\<open>make\<close> of the decoder below its limit.\<close>

definition maxEncoded :: nat where
  "maxEncoded = 2 ^ 44"

definition roundtrips :: "instantiate \<Rightarrow> bytes outcome \<Rightarrow> goval outcome \<Rightarrow> bool" where
  "roundtrips inst e c \<longleftrightarrow> (\<forall>bs w. e = Ok bs \<longrightarrow> c = Ok w \<longrightarrow> length bs \<le> maxEncoded \<longrightarrow> dec_ok inst bs w)"

lemma roundtrips_simps [simp]:
  "roundtrips inst (Fail e) c" "roundtrips inst (Panic m) c" "roundtrips inst Blocks c"
  "roundtrips inst (Ok bs) (Ok w) \<longleftrightarrow> (length bs \<le> maxEncoded \<longrightarrow> dec_ok inst bs w)"
  by (simp_all add: roundtrips_def)

lemma roundtripsI:
  "(\<And>bs w. e = Ok bs \<Longrightarrow> c = Ok w \<Longrightarrow> length bs \<le> maxEncoded \<Longrightarrow> dec_ok inst bs w) \<Longrightarrow> roundtrips inst e c"
  by (simp add: roundtrips_def)

lemma roundtripsD: "roundtrips inst (Ok bs) (Ok w) \<Longrightarrow> length bs \<le> maxEncoded \<Longrightarrow> dec_ok inst bs w"
  by (simp add: roundtrips_def)

lemma items_dec_ok:
  "\<forall>x\<in>set xs. roundtrips inst (f x) (g x) \<Longrightarrow> map f xs = map Ok bss \<Longrightarrow> map g xs = map Ok ws \<Longrightarrow>
     length (concat bss) \<le> maxEncoded \<Longrightarrow> list_all2 (dec_ok inst) bss ws"
proof (induction xs arbitrary: bss ws)
  case (Cons x xs)
  from Cons.prems(2,3) obtain bs bss' w ws' where eqs: "bss = bs # bss'" "ws = w # ws'" "f x = Ok bs" "g x = Ok w"
    "map f xs = map Ok bss'" "map g xs = map Ok ws'" by (auto simp: Cons_eq_map_conv)
  with Cons.prems(4) have len: "length bs \<le> maxEncoded" "length (concat bss') \<le> maxEncoded" by simp_all
  have "dec_ok inst bs w" using Cons.prems(1) eqs len roundtripsD by fastforce
  moreover have "list_all2 (dec_ok inst) bss' ws'" using Cons.IH [OF _ eqs(5,6) len(2)] Cons.prems(1) by simp
  ultimately show ?case using eqs by simp
qed simp

lemma encodeArray_roundtrips:
  assumes IH: "\<forall>x\<in>set vs. roundtrips inst (Encode \<Gamma> x) (canon inst \<Gamma> x)"
  shows "roundtrips inst (encodeArray (map (Encode \<Gamma>) vs))
    (bindO (seqO (map (canon inst \<Gamma>) vs)) (\<lambda>ws. Ok (VSlice None TAny ws)))"
proof (cases "vs = []")
  case True
  then show ?thesis using dec_ok_array_empty by (simp add: encodeArray_def)
next
  case False
  show ?thesis
  proof (rule roundtripsI)
  fix bs w
  assume enc: "encodeArray (map (Encode \<Gamma>) vs) = Ok bs" and len: "length bs \<le> maxEncoded"
    and can': "bindO (seqO (map (canon inst \<Gamma>) vs)) (\<lambda>ws. Ok (VSlice None TAny ws)) = Ok w"
  from can' obtain ws where can: "seqO (map (canon inst \<Gamma>) vs) = Ok ws" and w: "w = VSlice None TAny ws"
    by (auto simp: bindO_eq_Ok_iff)
  from False enc obtain bss where bss: "map (Encode \<Gamma>) vs = map Ok bss"
    and bs: "bs = [TypeArray] @ encodeUint64 (of_nat (length vs)) @ concat bss"
    by (auto simp: encodeArray_def bindO_eq_Ok_iff seqO_eq_Ok_iff)
  from bss have lens: "length bss = length vs" by (metis length_map)
  from can have ws: "map (canon inst \<Gamma>) vs = map Ok ws" by (simp add: seqO_eq_Ok_iff)
  from bs len have len': "length (concat bss) \<le> maxEncoded" by simp
  note * = items_dec_ok [OF IH bss ws len']
  from list_all2_dec_ok_length [OF *] len' dec_ok_array [OF *] lens bs w show "dec_ok inst bs w"
    by (simp add: maxEncoded_def)
  qed
qed

lemma encodeMap_roundtrips:
  assumes IH: "\<forall>p\<in>set kvs. roundtrips inst (Encode \<Gamma> (fst p)) (canon inst \<Gamma> (fst p)) \<and>
      roundtrips inst (Encode \<Gamma> (snd p)) (canon inst \<Gamma> (snd p))"
  shows "roundtrips inst (encodeMap (map (\<lambda>(k, w). (Encode \<Gamma> k, Encode \<Gamma> w)) kvs))
    (bindO (seqO (map (\<lambda>(k, w). canon inst \<Gamma> k) kvs)) (\<lambda>ks.
       bindO (seqO (map (\<lambda>(k, w). canon inst \<Gamma> w) kvs)) (\<lambda>ws. Ok (VEncodedMap ks ws))))"
proof (cases "kvs = []")
  case True
  then show ?thesis using dec_ok_map_empty by (simp add: encodeMap_def)
next
  case False
  show ?thesis
  proof (rule roundtripsI)
  fix bs w
  assume enc: "encodeMap (map (\<lambda>(k, w). (Encode \<Gamma> k, Encode \<Gamma> w)) kvs) = Ok bs" and len: "length bs \<le> maxEncoded"
    and can: "bindO (seqO (map (\<lambda>(k, w). canon inst \<Gamma> k) kvs)) (\<lambda>ks.
       bindO (seqO (map (\<lambda>(k, w). canon inst \<Gamma> w) kvs)) (\<lambda>ws. Ok (VEncodedMap ks ws))) = Ok w"
  from can obtain ks ws where ks: "seqO (map (\<lambda>(k, w). canon inst \<Gamma> k) kvs) = Ok ks"
    and ws: "seqO (map (\<lambda>(k, w). canon inst \<Gamma> w) kvs) = Ok ws" and w: "w = VEncodedMap ks ws"
    by (auto simp: bindO_eq_Ok_iff)
  from False enc obtain kbvs where
    "seqO (map (\<lambda>(k, v). bindO k (\<lambda>key. bindO v (\<lambda>value. Ok (key, value)))) (map (\<lambda>(k, w). (Encode \<Gamma> k, Encode \<Gamma> w)) kvs)) = Ok kbvs"
    and bs: "bs = [TypeMap] @ encodeUint64 (of_nat (length (concat (map fst kbvs)) + length (concat (map snd kbvs))
        + length (encodeUint64 (of_nat (length kvs))))) @ encodeUint64 (of_nat (length kvs)) @ concat (map fst kbvs) @ concat (map snd kbvs)"
    by (auto simp: encodeMap_def bindO_eq_Ok_iff Let_def simp del: map_map)
  from seqO_pair_Ok [OF this(1)] have kb: "map (\<lambda>p. Encode \<Gamma> (fst p)) kvs = map Ok (map fst kbvs)"
    and vb: "map (\<lambda>p. Encode \<Gamma> (snd p)) kvs = map Ok (map snd kbvs)"
    by (simp_all add: seqO_eq_Ok_iff o_def case_prod_unfold)
  from kb have lens: "length kbvs = length kvs" by (metis length_map)
  from bs len have lenk: "length (concat (map fst kbvs)) \<le> maxEncoded"
    and lenv: "length (concat (map snd kbvs)) \<le> maxEncoded" by simp_all
  from ks ws have ck: "map (\<lambda>p. canon inst \<Gamma> (fst p)) kvs = map Ok ks" and cw: "map (\<lambda>p. canon inst \<Gamma> (snd p)) kvs = map Ok ws"
    by (simp_all add: seqO_eq_Ok_iff case_prod_unfold)
  have k: "list_all2 (dec_ok inst) (map fst kbvs) ks" by (rule items_dec_ok [OF _ kb ck lenk]) (use IH in blast)
  have v: "list_all2 (dec_ok inst) (map snd kbvs) ws" by (rule items_dec_ok [OF _ vb cw lenv]) (use IH in blast)
  from list_all2_dec_ok_length [OF k] lenk dec_ok_map [OF k v] lens bs w show "dec_ok inst bs w"
    by (simp add: maxEncoded_def)
  qed
qed

lemma length_field_bytes:
  "length ixs = length bufs \<Longrightarrow> length (concat bufs) \<le> length (concat (map field_bytes (zip ixs bufs)))"
  by (induction ixs bufs rule: list_induct2) auto

lemma encodeStruct_dec_ok:
  assumes IH: "\<forall>f\<in>set fs. index_ok (eindex f) \<and> roundtrips inst (e f) (c f)"
    and enc: "encodeStruct sid (map (\<lambda>f. (eindex f, e f)) fs) = Ok bs" and len: "length bs \<le> maxEncoded"
    and can: "canon_fields (map (\<lambda>f. (eindex f, c f)) fs) = Ok fws" and w: "inst sid fws = Ok w"
  shows "dec_ok inst bs w"
proof -
  let ?is = "map eindex fs"
  from enc obtain data where "seqO (map (\<lambda>(i, d). bindO d (\<lambda>buf. Ok (encodeUint64 (word_of_int i) @ buf)))
      (map (\<lambda>f. (eindex f, e f)) fs)) = Ok data"
    and bs: "bs = [TypeStruct] @ EncodeString sid @ encodeUint64 (of_nat (length (concat data))) @ concat data"
    by (auto simp: encodeStruct_def bindO_eq_Ok_iff Let_def simp del: map_map)
  from seqO_bind_Ok [OF this(1)] obtain bufs where bufs: "map e fs = map Ok bufs"
    and data: "data = map2 (\<lambda>i buf. encodeUint64 (word_of_int i) @ buf) ?is bufs" by (auto simp: o_def)
  from can obtain kvs where "seqO (map (\<lambda>(i, d). bindO d (\<lambda>w. Ok (i, w))) (map (\<lambda>f. (eindex f, c f)) fs)) = Ok kvs"
    and fws: "fws = fold (\<lambda>(i, w). AList.update i w) kvs []"
    by (auto simp: canon_fields_def bindO_eq_Ok_iff simp del: map_map)
  from seqO_bind_Ok [OF this(1)] obtain ws where ws: "map c fs = map Ok ws" and kvs: "kvs = zip ?is ws"
    by (auto simp: o_def)
  have lens: "length bufs = length fs" "length ws = length fs" using bufs ws by (metis length_map)+
  have payload: "concat data = concat (map field_bytes (zip ?is bufs))"
    unfolding data by (simp add: case_prod_unfold)
  have "length (concat bufs) \<le> length (concat data)"
    unfolding payload using lens by (intro length_field_bytes) simp
  with bs len have blen: "length (concat bufs) \<le> maxEncoded" by simp
  from items_dec_ok [OF _ bufs ws blen] IH have items: "list_all2 (dec_ok inst) bufs ws" by blast
  have rel: "list_all2 (\<lambda>f g. fst f = fst g \<and> index_ok (fst f) \<and> dec_ok inst (snd f) (snd g)) (zip ?is bufs) (zip ?is ws)"
    using lens items IH by (auto simp: list_all2_conv_all_nth)
  have "length sid \<le> length (EncodeString sid)" by (simp add: EncodeString_def)
  moreover from bs len have "length (EncodeString sid) + length (concat data) \<le> 2 ^ 44"
    unfolding maxEncoded_def by simp
  ultimately have slen: "length sid \<le> maxAlloc" and dlen: "length (concat data) \<le> 2 ^ 44"
    by (simp_all add: maxAlloc_def)
  show ?thesis unfolding bs by (rule dec_ok_struct [OF rel payload dlen slen]) (use w fws kvs in simp)
qed

lemma encodeStruct_roundtrips:
  assumes "\<forall>f\<in>set fs. index_ok (eindex f) \<and> roundtrips inst (e f) (c f)"
  shows "roundtrips inst (encodeStruct sid (map (\<lambda>f. (eindex f, e f)) fs))
    (bindO (canon_fields (map (\<lambda>f. (eindex f, c f)) fs)) (inst sid))"
  using encodeStruct_dec_ok [OF assms] by (auto intro!: roundtripsI simp: bindO_eq_Ok_iff)

lemmas dec_ok_leaf =
  dec_ok_scalar [of _ "I64 x" for x, simplified] dec_ok_scalar [of _ "I32 x" for x, simplified]
  dec_ok_scalar [of _ "I16 x" for x, simplified] dec_ok_scalar [of _ "I8 x" for x, simplified]
  dec_ok_scalar [of _ "U64 x" for x, simplified] dec_ok_scalar [of _ "U32 x" for x, simplified]
  dec_ok_scalar [of _ "U16 x" for x, simplified] dec_ok_scalar [of _ "U8 x" for x, simplified]
  dec_ok_bool dec_ok_float32 dec_ok_float64

lemma string_roundtrips:
  "roundtrips inst (Ok (EncodeString s)) (Ok (VString None s))"
  "roundtrips inst (Ok (EncodeBytes s)) (Ok (VBytes s))"
  using dec_ok_string [of s inst] dec_ok_bytes [of s inst]
  by (auto simp: EncodeString_def EncodeBytes_def maxEncoded_def maxAlloc_def split: if_splits)

theorem Encode_roundtrips: "roundtrips inst (Encode \<Gamma> v) (canon inst \<Gamma> v)"
proof (induction \<Gamma> v rule: Encode.induct)
  case (1 \<Gamma> v)
  note unf = Encode.simps [of \<Gamma> v] canon.simps [of inst \<Gamma> v]
  show ?case
  proof (cases "is_nil v \<or> ptr_to_interface v \<noteq> None")
    case True
    then show ?thesis using dec_ok_void by (auto simp: unf)
  next
    case False
    then have nil: "\<not> is_nil v" and ptr: "ptr_to_interface v = None" by simp_all
    note here = unf nil ptr
    show ?thesis
    proof (cases "deref v")
      case (VSlice n t vs)
      with "1.IH"(1) [OF nil ptr VSlice] show ?thesis by (simp add: here encodeArray_roundtrips)
    next
      case (VArray n t vs)
      with "1.IH"(2) [OF nil ptr VArray] show ?thesis by (simp add: here encodeArray_roundtrips)
    next
      case (VMap n kt vt kvs)
      with "1.IH"(3,4) [OF nil ptr VMap] show ?thesis
        by (simp add: here) (rule encodeMap_roundtrips, auto)
    next
      case (VStruct n vs)
      show ?thesis
      proof (cases "structID (\<Gamma> n)")
        case (Some sid)
        show ?thesis
        proof (cases "encodableFieldsFromType \<Gamma> (TStruct n)")
          case (Ok fs)
          have "\<forall>f\<in>set fs. index_ok (eindex f) \<and>
              roundtrips inst (if epos f < length vs then Encode \<Gamma> (vs ! epos f) else Panic ''reflect: Field index out of range'')
                (if epos f < length vs then canon inst \<Gamma> (vs ! epos f) else Panic ''reflect: Field index out of range'')"
            using "1.IH"(5) [OF nil ptr VStruct Some Ok] encodableFields_range [OF Ok] by (auto simp: index_ok_def)
          from encodeStruct_roundtrips [OF this] show ?thesis by (simp add: here VStruct Some Ok)
        qed (simp_all add: here VStruct Some)
      qed (simp add: here VStruct)
    qed (use string_roundtrips in \<open>simp_all add: here dec_ok_leaf split: option.split\<close>)
  qed
qed

text \<open>DecodeAny returns the magnitude of an integer: a value and its negation are decoded alike.\<close>

lemma DecodeAny_forgets_sign:
  "fst (DecodeAny inst (NewReader (encodeScalar (I64 (- x))))) = fst (DecodeAny inst (NewReader (encodeScalar (I64 x))))"
proof -
  have "fst (DecodeAny inst (NewReader (encodeScalar (I64 y)))) = Ok (VUint64 None (snd (negate y)))" for y
    using dec_okD(1) [OF dec_ok_scalar, of "I64 y"]
      dec_okD(2) [OF dec_ok_scalar [of inst "I64 y"], of "NewReader (encodeScalar (I64 y))"]
    by (cases "encodeScalar (I64 y)") auto
  then show ?thesis by (simp add: negate_negated)
qed

end
