(* ===== verification/Rpc_Message.thy ===== *)
theory Rpc_Message
  imports Rpc_Metadata Proto_Roundtrip
begin

text \<open>
  Messages of a call (\<^verbatim>\<open>src/rpc/structs.go\<close>, \<^verbatim>\<open>message_kind.go\<close>): the seven kinds, their encodings and
  decoders, and the wrapping by a kind byte. The locale \<open>message\<close> is the contract of the interface
  \<^verbatim>\<open>Message\<close>, interpreted for each kind: what comes back is the message with every value as the decoder of
  package \<^verbatim>\<open>proto\<close> returns it (\<open>canon\<close>).
\<close>

section \<open>Kinds\<close>

type_synonym messageKind = u8

abbreviation (input) MessageKindInvalid :: messageKind where "MessageKindInvalid \<equiv> 0x00"
abbreviation (input) MessageKindRequest :: messageKind where "MessageKindRequest \<equiv> 0x01"
abbreviation (input) MessageKindResponse :: messageKind where "MessageKindResponse \<equiv> 0x02"
abbreviation (input) MessageKindStartStream :: messageKind where "MessageKindStartStream \<equiv> 0x03"
abbreviation (input) MessageKindStreamItem :: messageKind where "MessageKindStreamItem \<equiv> 0x04"
abbreviation (input) MessageKindStreamMetadata :: messageKind where "MessageKindStreamMetadata \<equiv> 0x05"
abbreviation (input) MessageKindEndStream :: messageKind where "MessageKindEndStream \<equiv> 0x06"
abbreviation (input) MessageKindStreamError :: messageKind where "MessageKindStreamError \<equiv> 0x07"

definition messageNames :: "(messageKind \<times> string) list" where
  "messageNames =
    [(MessageKindInvalid, ''Invalid''), (MessageKindRequest, ''Request''), (MessageKindResponse, ''Response''),
     (MessageKindStartStream, ''StartStream''), (MessageKindStreamItem, ''StreamItem''),
     (MessageKindStreamMetadata, ''StreamMetadata''), (MessageKindEndStream, ''EndStream''),
     (MessageKindStreamError, ''StreamError'')]"

definition MessageKind_String :: "messageKind \<Rightarrow> string" where
  "MessageKind_String m = (case map_of messageNames m of Some v \<Rightarrow> v | None \<Rightarrow> ''UNKNOWN'')"

definition messageKindFromByte :: "u8 \<Rightarrow> messageKind option" where
  "messageKindFromByte = map_of
    [(MessageKindInvalid, MessageKindInvalid), (MessageKindRequest, MessageKindRequest),
     (MessageKindResponse, MessageKindResponse), (MessageKindStartStream, MessageKindStartStream),
     (MessageKindStreamItem, MessageKindStreamItem), (MessageKindStreamMetadata, MessageKindStreamMetadata),
     (MessageKindEndStream, MessageKindEndStream), (MessageKindStreamError, MessageKindStreamError)]"

definition MessageKindFromByte :: "u8 \<Rightarrow> messageKind" where
  "MessageKindFromByte b = (case messageKindFromByte b of None \<Rightarrow> MessageKindInvalid | Some k \<Rightarrow> k)"

definition MessageKindFromReader :: "reader \<Rightarrow> messageKind outcome \<times> reader" where
  "MessageKindFromReader r = bindR (ReadFull 1 r) (\<lambda>b r. (Ok (MessageKindFromByte (b ! 0)), r))"

section \<open>Messages\<close>

record request =
  Service :: bytes
  Method :: bytes
  reqStreaming :: bool
  reqMetadata :: metadata
  reqParams :: "goval list"

record response =
  respStatus :: u16
  respStreaming :: bool
  respMetadata :: metadata
  respParams :: "goval list"

record streamError =
  seStatus :: u16
  seMetadata :: metadata

datatype message =
    Request request
  | Response response
  | StartStream
  | StreamItem goval
  | StreamMetadata metadata
  | EndStreamMsg
  | StreamErrorM streamError

text \<open>\<^verbatim>\<open>r.Streaming = flags&(0x01<<0) == (0x01 << 0)\<close>\<close>

definition streaming_flag :: "bool \<Rightarrow> u8" where
  "streaming_flag s = (if s then 0 OR push_bit 0 1 else 0)"

definition flag_streaming :: "u8 \<Rightarrow> bool" where
  "flag_streaming flags \<longleftrightarrow> flags AND push_bit 0 1 = push_bit 0 1"

definition encodeParams :: "tyenv \<Rightarrow> goval list \<Rightarrow> bytes list outcome" where
  "encodeParams \<Gamma> ps = seqO (map (Encode \<Gamma>) ps)"

definition decodeParams :: "instantiate \<Rightarrow> reader \<Rightarrow> goval list outcome \<times> reader" where
  "decodeParams inst r = bindR (decodeUint16FromReader r) (\<lambda>n r. rloop (unat n) (DecodeAny inst) r)"

definition Request_Encode :: "tyenv \<Rightarrow> request \<Rightarrow> bytes outcome" where
  "Request_Encode \<Gamma> r =
     bindO (encodeParams \<Gamma> (reqParams r)) (\<lambda>params.
       Ok (EncodeString (Service r) @ EncodeString (Method r) @ [streaming_flag (reqStreaming r)] @
           Metadata_Encode (reqMetadata r) @ PutUint16 (of_nat (length (reqParams r))) @ concat params))"

definition Request_FromReader :: "instantiate \<Rightarrow> reader \<Rightarrow> request outcome \<times> reader" where
  "Request_FromReader inst r =
     bindR (DecodeString r) (\<lambda>service r.
     bindR (DecodeString r) (\<lambda>method r.
     bindR (decodeUint8FromReader r) (\<lambda>flags r.
     bindR (MetadataFromReader r) (\<lambda>meta r.
     bindR (decodeParams inst r) (\<lambda>params r.
       (Ok \<lparr>Service = service, Method = method, reqStreaming = flag_streaming flags, reqMetadata = meta,
            reqParams = params\<rparr>, r))))))"

definition Response_Encode :: "tyenv \<Rightarrow> response \<Rightarrow> bytes outcome" where
  "Response_Encode \<Gamma> r =
     bindO (encodeParams \<Gamma> (respParams r)) (\<lambda>params.
       Ok (PutUint16 (respStatus r) @ [streaming_flag (respStreaming r)] @
           Metadata_Encode (respMetadata r) @ PutUint16 (of_nat (length (respParams r))) @ concat params))"

definition Response_FromReader :: "instantiate \<Rightarrow> reader \<Rightarrow> response outcome \<times> reader" where
  "Response_FromReader inst r =
     bindR (decodeUint16FromReader r) (\<lambda>st r.
     bindR (decodeUint8FromReader r) (\<lambda>flags r.
     bindR (MetadataFromReader r) (\<lambda>meta r.
     bindR (decodeParams inst r) (\<lambda>params r.
       (Ok \<lparr>respStatus = st, respStreaming = flag_streaming flags, respMetadata = meta, respParams = params\<rparr>, r)))))"

definition Response_Result :: "response \<Rightarrow> goval list outcome" where
  "Response_Result r =
     (if respStatus r = 0 then Ok (respParams r)
      else
        let st = uint (respStatus r);
            msg = (case Metadata_Lookup (ascii ''arf-status-description'') (respMetadata r) of
                     Some s \<Rightarrow> s
                   | None \<Rightarrow> ascii (Status_Error st))
        in Fail (BadStatus st msg))"

definition StreamItem_Encode :: "tyenv \<Rightarrow> goval \<Rightarrow> bytes outcome" where
  "StreamItem_Encode \<Gamma> v = Encode \<Gamma> v"

definition StreamItem_FromReader :: "instantiate \<Rightarrow> reader \<Rightarrow> goval outcome \<times> reader" where
  "StreamItem_FromReader inst r = bindR (DecodeAny inst r) (\<lambda>val r. (Ok val, r))"

definition StreamMetadata_FromReader :: "reader \<Rightarrow> metadata outcome \<times> reader" where
  "StreamMetadata_FromReader r = MetadataFromReader r"

text \<open>The two messages without contents.\<close>

definition StartStream_Encode :: "bytes outcome" where
  "StartStream_Encode = Ok []"

definition StartStream_FromReader :: "reader \<Rightarrow> unit outcome \<times> reader" where
  "StartStream_FromReader r = (Ok (), r)"

definition EndStream_Encode :: "bytes outcome" where
  "EndStream_Encode = Ok []"

definition EndStream_FromReader :: "reader \<Rightarrow> unit outcome \<times> reader" where
  "EndStream_FromReader r = (Ok (), r)"

lemmas emptyMessage_defs [simp] = StartStream_Encode_def StartStream_FromReader_def EndStream_Encode_def EndStream_FromReader_def

definition StreamMetadata_Encode :: "metadata \<Rightarrow> bytes outcome" where
  "StreamMetadata_Encode m = Ok (Metadata_Encode m)"

definition StreamError_Encode :: "streamError \<Rightarrow> bytes outcome" where
  "StreamError_Encode s = Ok (PutUint16 (seStatus s) @ Metadata_Encode (seMetadata s))"

definition StreamError_FromReader :: "reader \<Rightarrow> streamError outcome \<times> reader" where
  "StreamError_FromReader r =
     bindR (decodeUint16FromReader r) (\<lambda>st r.
     bindR (MetadataFromReader r) (\<lambda>meta r. (Ok \<lparr>seStatus = st, seMetadata = meta\<rparr>, r)))"

text \<open>The interface: \<^verbatim>\<open>Kind\<close>, \<^verbatim>\<open>Encode\<close>, \<^verbatim>\<open>Wrap\<close>, and the two readers of a message.\<close>

primrec message_Kind :: "message \<Rightarrow> messageKind" where
  "message_Kind (Request r) = MessageKindRequest"
| "message_Kind (Response r) = MessageKindResponse"
| "message_Kind StartStream = MessageKindStartStream"
| "message_Kind (StreamItem v) = MessageKindStreamItem"
| "message_Kind (StreamMetadata m) = MessageKindStreamMetadata"
| "message_Kind EndStreamMsg = MessageKindEndStream"
| "message_Kind (StreamErrorM e) = MessageKindStreamError"

primrec message_Encode :: "tyenv \<Rightarrow> message \<Rightarrow> bytes outcome" where
  "message_Encode \<Gamma> (Request r) = Request_Encode \<Gamma> r"
| "message_Encode \<Gamma> (Response r) = Response_Encode \<Gamma> r"
| "message_Encode \<Gamma> StartStream = StartStream_Encode"
| "message_Encode \<Gamma> (StreamItem v) = StreamItem_Encode \<Gamma> v"
| "message_Encode \<Gamma> (StreamMetadata m) = StreamMetadata_Encode m"
| "message_Encode \<Gamma> EndStreamMsg = EndStream_Encode"
| "message_Encode \<Gamma> (StreamErrorM e) = StreamError_Encode e"

definition wrapMessage :: "tyenv \<Rightarrow> message \<Rightarrow> bytes outcome" where
  "wrapMessage \<Gamma> m = bindO (message_Encode \<Gamma> m) (\<lambda>buf. Ok (message_Kind m # buf))"

text \<open>\<^verbatim>\<open>InitializeMessageKind\<close> and the \<^verbatim>\<open>FromReader\<close> of the message it returns.\<close>

definition message_FromReader :: "instantiate \<Rightarrow> messageKind \<Rightarrow> reader \<Rightarrow> message outcome \<times> reader" where
  "message_FromReader inst k r =
     (if k = MessageKindRequest then bindR (Request_FromReader inst r) (\<lambda>m r. (Ok (Request m), r))
      else if k = MessageKindResponse then bindR (Response_FromReader inst r) (\<lambda>m r. (Ok (Response m), r))
      else if k = MessageKindStartStream then bindR (StartStream_FromReader r) (\<lambda>_ r. (Ok StartStream, r))
      else if k = MessageKindStreamItem then bindR (StreamItem_FromReader inst r) (\<lambda>v r. (Ok (StreamItem v), r))
      else if k = MessageKindStreamMetadata then bindR (StreamMetadata_FromReader r) (\<lambda>m r. (Ok (StreamMetadata m), r))
      else if k = MessageKindEndStream then bindR (EndStream_FromReader r) (\<lambda>_ r. (Ok EndStreamMsg, r))
      else if k = MessageKindStreamError then bindR (StreamError_FromReader r) (\<lambda>e r. (Ok (StreamErrorM e), r))
      else (Fail (Errorf ''cannot initialize Invalid message kind''), r))"

definition MessageFromReader :: "instantiate \<Rightarrow> reader \<Rightarrow> message outcome \<times> reader" where
  "MessageFromReader inst r =
     bindR (decodeUint8FromReader r) (\<lambda>rawKind r. message_FromReader inst (MessageKindFromByte rawKind) r)"

text \<open>\<^verbatim>\<open>MessageTFromReader[T]\<close> for the type of messages of kind \<open>k\<close>.\<close>

definition MessageTFromReader :: "instantiate \<Rightarrow> messageKind \<Rightarrow> reader \<Rightarrow> message outcome \<times> reader" where
  "MessageTFromReader inst k r =
     bindR (MessageKindFromReader r) (\<lambda>rk r.
       if rk \<noteq> k then (Fail (MessageKindMismatchError k rk), r) else message_FromReader inst k r)"

section \<open>The contract of the interface Message\<close>

text \<open>
  \<open>norm m\<close> is the message the peer gets for \<open>m\<close>. \<open>from_encode\<close>: when the message is encoded within the bound of the decoder's
  allocations and the encoding arrives in one piece, the peer gets that message.
\<close>

locale message =
  fixes Encode :: "'m \<Rightarrow> bytes outcome"
    and FromReader :: "reader \<Rightarrow> 'm outcome \<times> reader"
    and norm :: "'m \<Rightarrow> 'm outcome"
    and valid :: "'m \<Rightarrow> bool"
    and kind :: messageKind
  assumes from_encode: "valid m \<Longrightarrow> Encode m = Ok bs \<Longrightarrow> norm m = Ok m' \<Longrightarrow> length bs \<le> maxEncoded \<Longrightarrow> reads_back FromReader bs m'"
    and kind_known: "MessageKindFromByte kind = kind"
begin

lemma from_wrapped:
  assumes "valid m" and "Encode m = Ok bs" and "norm m = Ok m'" and "length bs \<le> maxEncoded"
  shows "reads_back (\<lambda>r. bindR (decodeUint8FromReader r) (\<lambda>k. FromReader)) (kind # bs) m'"
    and "reads_back (\<lambda>r. bindR (MessageKindFromReader r) (\<lambda>k r.
           if k \<noteq> kind then (Fail (MessageKindMismatchError kind k), r) else FromReader r)) (kind # bs) m'"
proof -
  note frm = from_encode [OF assms]
  have k: "reads_back decodeUint8FromReader [kind] kind" by (rule u8rd.reads_back) simp
  show "reads_back (\<lambda>r. bindR (decodeUint8FromReader r) (\<lambda>k. FromReader)) (kind # bs) m'"
    using reads_back_bind [OF k frm] by simp
  have "reads_back MessageKindFromReader [kind] kind"
    using k kind_known by (auto simp: reads_back_def MessageKindFromReader_def decodeUint8FromReader_def bindR_eq_Ok_iff)
  then show "reads_back (\<lambda>r. bindR (MessageKindFromReader r) (\<lambda>k r.
           if k \<noteq> kind then (Fail (MessageKindMismatchError kind k), r) else FromReader r)) (kind # bs) m'"
    using reads_back_bind [of MessageKindFromReader "[kind]" kind "\<lambda>k r. if k \<noteq> kind then (Fail (MessageKindMismatchError kind k), r) else FromReader r" bs m']
      frm by (simp add: reads_back_def)
qed

end

definition canonParams :: "instantiate \<Rightarrow> tyenv \<Rightarrow> goval list \<Rightarrow> goval list outcome" where
  "canonParams inst \<Gamma> ps = seqO (map (canon inst \<Gamma>) ps)"

definition Request_norm :: "instantiate \<Rightarrow> tyenv \<Rightarrow> request \<Rightarrow> request outcome" where
  "Request_norm inst \<Gamma> r = bindO (canonParams inst \<Gamma> (reqParams r)) (\<lambda>ps. Ok (r\<lparr>reqParams := ps\<rparr>))"

definition Request_valid :: "request \<Rightarrow> bool" where
  "Request_valid r \<longleftrightarrow> metadata_ok (reqMetadata r) \<and> length (reqParams r) < 65536"

definition Response_norm :: "instantiate \<Rightarrow> tyenv \<Rightarrow> response \<Rightarrow> response outcome" where
  "Response_norm inst \<Gamma> r = bindO (canonParams inst \<Gamma> (respParams r)) (\<lambda>ps. Ok (r\<lparr>respParams := ps\<rparr>))"

definition Response_valid :: "response \<Rightarrow> bool" where
  "Response_valid r \<longleftrightarrow> metadata_ok (respMetadata r) \<and> length (respParams r) < 65536"

lemma flag_streaming_flag [simp]: "flag_streaming (streaming_flag s) = s"
  by (simp add: flag_streaming_def streaming_flag_def)

lemma reads_back_dec_ok: "dec_ok inst bs w \<Longrightarrow> reads_back (DecodeAny inst) bs w"
  using dec_okD [of inst bs w] by (simp add: reads_back_def)

lemma decodeParams_reads_back:
  assumes enc: "encodeParams \<Gamma> ps = Ok bss" and can: "canonParams inst \<Gamma> ps = Ok ws"
    and len: "length (concat bss) \<le> maxEncoded" and n: "length ps < 65536"
  shows "reads_back (decodeParams inst) (PutUint16 (of_nat (length ps)) @ concat bss) ws"
proof -
  from enc can have b: "map (Encode \<Gamma>) ps = map Ok bss" and w: "map (canon inst \<Gamma>) ps = map Ok ws"
    by (simp_all add: encodeParams_def canonParams_def seqO_eq_Ok_iff)
  have "list_all2 (dec_ok inst) bss ws" by (rule items_dec_ok [OF _ b w len]) (simp add: Encode_roundtrips)
  then have "list_all2 (reads_back (DecodeAny inst)) bss ws" by (rule list_all2_mono) (rule reads_back_dec_ok)
  from reads_back_rloop [OF this] have "reads_back (rloop (length ps) (DecodeAny inst)) (concat bss) ws"
    using b by (metis length_map)
  then have "reads_back (rloop (unat (of_nat (length ps) :: u16)) (DecodeAny inst)) (concat bss) ws"
    using n by (simp add: unat_of_nat_small)
  then show ?thesis unfolding decodeParams_def by (rule reads_back_bind [OF u16rd.reads_back [OF TrueI]])
qed

lemma length_EncodeString: "length s \<le> length (EncodeString s)"
  by (simp add: EncodeString_def)

interpretation request: message "Request_Encode \<Gamma>" "Request_FromReader inst" "Request_norm inst \<Gamma>" Request_valid MessageKindRequest
  for \<Gamma> inst
proof
  fix m bs m'
  assume valid: "Request_valid m" and enc: "Request_Encode \<Gamma> m = Ok bs" and norm: "Request_norm inst \<Gamma> m = Ok m'"
    and len: "length bs \<le> maxEncoded"
  from enc obtain params where params: "encodeParams \<Gamma> (reqParams m) = Ok params"
    and bs: "bs = EncodeString (Service m) @ EncodeString (Method m) @ [streaming_flag (reqStreaming m)] @
      Metadata_Encode (reqMetadata m) @ PutUint16 (of_nat (length (reqParams m))) @ concat params"
    by (auto simp: Request_Encode_def bindO_eq_Ok_iff)
  from norm obtain ws where ws: "canonParams inst \<Gamma> (reqParams m) = Ok ws" and m': "m' = m\<lparr>reqParams := ws\<rparr>"
    by (auto simp: Request_norm_def bindO_eq_Ok_iff)
  from len bs length_EncodeString [of "Service m"] length_EncodeString [of "Method m"]
  have s: "length (Service m) \<le> maxAlloc" "length (Method m) \<le> maxAlloc" and p: "length (concat params) \<le> maxEncoded"
    by (simp_all add: maxEncoded_def maxAlloc_def)
  note meta = metard.reads_back [of "reqMetadata m"]
  show "reads_back (Request_FromReader inst) bs m'"
    unfolding bs Request_FromReader_def
    apply (intro reads_back_bind [OF str.reads_back] reads_back_bind [OF u8rd.reads_back] reads_back_bind [OF meta]
        reads_back_last [OF decodeParams_reads_back [OF params ws p]])
    using valid s by (simp_all add: Request_valid_def m')
qed (simp add: MessageKindFromByte_def messageKindFromByte_def)

interpretation response: message "Response_Encode \<Gamma>" "Response_FromReader inst" "Response_norm inst \<Gamma>" Response_valid MessageKindResponse
  for \<Gamma> inst
proof
  fix m bs m'
  assume valid: "Response_valid m" and enc: "Response_Encode \<Gamma> m = Ok bs" and norm: "Response_norm inst \<Gamma> m = Ok m'"
    and len: "length bs \<le> maxEncoded"
  from enc obtain params where params: "encodeParams \<Gamma> (respParams m) = Ok params"
    and bs: "bs = PutUint16 (respStatus m) @ [streaming_flag (respStreaming m)] @
      Metadata_Encode (respMetadata m) @ PutUint16 (of_nat (length (respParams m))) @ concat params"
    by (auto simp: Response_Encode_def bindO_eq_Ok_iff)
  from norm obtain ws where ws: "canonParams inst \<Gamma> (respParams m) = Ok ws" and m': "m' = m\<lparr>respParams := ws\<rparr>"
    by (auto simp: Response_norm_def bindO_eq_Ok_iff)
  from len bs have p: "length (concat params) \<le> maxEncoded" by simp
  note meta = metard.reads_back [of "respMetadata m"]
  show "reads_back (Response_FromReader inst) bs m'"
    unfolding bs Response_FromReader_def
    apply (intro reads_back_bind [OF u16rd.reads_back] reads_back_bind [OF u8rd.reads_back] reads_back_bind [OF meta]
        reads_back_last [OF decodeParams_reads_back [OF params ws p]])
    using valid by (simp_all add: Response_valid_def m')
qed (simp add: MessageKindFromByte_def messageKindFromByte_def)

interpretation startstream: message "\<lambda>m. Ok []" "\<lambda>r. (Ok (), r)" "\<lambda>m. Ok ()" "\<lambda>m. True" MessageKindStartStream
  by unfold_locales (auto simp: reads_back_return MessageKindFromByte_def messageKindFromByte_def)

interpretation streamitem: message "StreamItem_Encode \<Gamma>" "DecodeAny inst" "canon inst \<Gamma>" "\<lambda>m. True" MessageKindStreamItem
  for \<Gamma> inst
proof
  fix m bs m'
  assume "StreamItem_Encode \<Gamma> m = Ok bs" and "canon inst \<Gamma> m = Ok m'" and "length bs \<le> maxEncoded"
  then show "reads_back (DecodeAny inst) bs m'"
    using Encode_roundtrips [of inst \<Gamma> m] by (simp add: reads_back_dec_ok StreamItem_Encode_def)
qed (simp add: MessageKindFromByte_def messageKindFromByte_def)

interpretation streammeta: message StreamMetadata_Encode MetadataFromReader Ok metadata_ok MessageKindStreamMetadata
  by unfold_locales (auto simp: StreamMetadata_Encode_def metard.reads_back MessageKindFromByte_def messageKindFromByte_def)

interpretation endstream: message "\<lambda>m. Ok []" "\<lambda>r. (Ok (), r)" "\<lambda>m. Ok ()" "\<lambda>m. True" MessageKindEndStream
  by unfold_locales (auto simp: reads_back_return MessageKindFromByte_def messageKindFromByte_def)

interpretation streamerror: message StreamError_Encode StreamError_FromReader Ok "\<lambda>e. metadata_ok (seMetadata e)" MessageKindStreamError
proof
  fix m bs m'
  assume ok: "metadata_ok (seMetadata m)" and enc: "StreamError_Encode m = Ok bs" and m': "Ok m = Ok m'"
  from enc have bs: "bs = PutUint16 (seStatus m) @ Metadata_Encode (seMetadata m)" by (simp add: StreamError_Encode_def)
  show "reads_back StreamError_FromReader bs m'"
    unfolding bs StreamError_FromReader_def
    by (intro reads_back_bind [OF u16rd.reads_back] reads_back_last [OF metard.reads_back]) (use ok m' in simp_all)
qed (simp add: MessageKindFromByte_def messageKindFromByte_def)

section \<open>All messages\<close>

primrec message_norm :: "instantiate \<Rightarrow> tyenv \<Rightarrow> message \<Rightarrow> message outcome" where
  "message_norm inst \<Gamma> (Request r) = bindO (Request_norm inst \<Gamma> r) (\<lambda>r. Ok (Request r))"
| "message_norm inst \<Gamma> (Response r) = bindO (Response_norm inst \<Gamma> r) (\<lambda>r. Ok (Response r))"
| "message_norm inst \<Gamma> StartStream = Ok StartStream"
| "message_norm inst \<Gamma> (StreamItem v) = bindO (canon inst \<Gamma> v) (\<lambda>v. Ok (StreamItem v))"
| "message_norm inst \<Gamma> (StreamMetadata m) = Ok (StreamMetadata m)"
| "message_norm inst \<Gamma> EndStreamMsg = Ok EndStreamMsg"
| "message_norm inst \<Gamma> (StreamErrorM e) = Ok (StreamErrorM e)"

primrec message_valid :: "message \<Rightarrow> bool" where
  "message_valid (Request r) = Request_valid r"
| "message_valid (Response r) = Response_valid r"
| "message_valid StartStream = True"
| "message_valid (StreamItem v) = True"
| "message_valid (StreamMetadata m) = metadata_ok m"
| "message_valid EndStreamMsg = True"
| "message_valid (StreamErrorM e) = metadata_ok (seMetadata e)"

lemma message_FromReader_simps:
  "message_FromReader inst MessageKindRequest = (\<lambda>r. bindR (Request_FromReader inst r) (\<lambda>m r. (Ok (Request m), r)))"
  "message_FromReader inst MessageKindResponse = (\<lambda>r. bindR (Response_FromReader inst r) (\<lambda>m r. (Ok (Response m), r)))"
  "message_FromReader inst MessageKindStartStream = (\<lambda>r. (Ok StartStream, r))"
  "message_FromReader inst MessageKindStreamItem = (\<lambda>r. bindR (DecodeAny inst r) (\<lambda>v r. (Ok (StreamItem v), r)))"
  "message_FromReader inst MessageKindStreamMetadata = (\<lambda>r. bindR (MetadataFromReader r) (\<lambda>m r. (Ok (StreamMetadata m), r)))"
  "message_FromReader inst MessageKindEndStream = (\<lambda>r. (Ok EndStreamMsg, r))"
  "message_FromReader inst MessageKindStreamError = (\<lambda>r. bindR (StreamError_FromReader r) (\<lambda>e r. (Ok (StreamErrorM e), r)))"
  by (simp_all add: message_FromReader_def fun_eq_iff emptyMessage_defs StreamItem_FromReader_def StreamMetadata_FromReader_def bindR_return)

lemma message_from_encode:
  assumes "message_valid m" and "message_Encode \<Gamma> m = Ok bs" and "message_norm inst \<Gamma> m = Ok m'" and "length bs \<le> maxEncoded"
  shows "reads_back (message_FromReader inst (message_Kind m)) bs m'"
proof (cases m)
  case (Request r)
  with assms request.from_encode [of r \<Gamma> bs inst] show ?thesis
    by (auto simp: message_FromReader_simps bindO_eq_Ok_iff intro!: reads_back_last)
next
  case (Response r)
  with assms response.from_encode [of r \<Gamma> bs inst] show ?thesis
    by (auto simp: message_FromReader_simps bindO_eq_Ok_iff intro!: reads_back_last)
next
  case (StreamItem v)
  with assms streamitem.from_encode [of \<Gamma> v bs inst] show ?thesis
    by (auto simp: message_FromReader_simps bindO_eq_Ok_iff intro!: reads_back_last)
next
  case (StreamMetadata d)
  with assms streammeta.from_encode [of d bs] show ?thesis
    by (auto simp: message_FromReader_simps intro!: reads_back_last)
next
  case (StreamErrorM e)
  with assms streamerror.from_encode [of e bs] show ?thesis
    by (auto simp: message_FromReader_simps intro!: reads_back_last)
qed (use assms in \<open>auto simp: message_FromReader_simps reads_back_return\<close>)

lemma kind_roundtrip: "MessageKindFromByte (message_Kind m) = message_Kind m"
  by (cases m) (simp_all add: MessageKindFromByte_def messageKindFromByte_def)

lemma wrapMessage_reads_back:
  assumes "message_valid m" and "wrapMessage \<Gamma> m = Ok bs" and "message_norm inst \<Gamma> m = Ok m'" and "length bs \<le> maxEncoded"
  shows "reads_back (MessageFromReader inst) bs m'" and "reads_back (MessageTFromReader inst (message_Kind m)) bs m'"
proof -
  from assms(2) obtain buf where buf: "message_Encode \<Gamma> m = Ok buf" and bs: "bs = [message_Kind m] @ buf"
    by (auto simp: wrapMessage_def bindO_eq_Ok_iff)
  from message_from_encode [OF assms(1) buf assms(3)] assms(4) bs
  have frm: "reads_back (message_FromReader inst (message_Kind m)) buf m'" by simp
  have k: "reads_back decodeUint8FromReader [message_Kind m] (message_Kind m)" by (rule u8rd.reads_back) simp
  show "reads_back (MessageFromReader inst) bs m'"
    unfolding bs MessageFromReader_def by (rule reads_back_bind [OF k]) (simp add: kind_roundtrip frm)
  have "reads_back MessageKindFromReader [message_Kind m] (message_Kind m)"
    using k kind_roundtrip [of m] by (auto simp: reads_back_def MessageKindFromReader_def decodeUint8FromReader_def bindR_eq_Ok_iff)
  then show "reads_back (MessageTFromReader inst (message_Kind m)) bs m'"
    unfolding bs MessageTFromReader_def by (rule reads_back_bind) (simp add: frm)
qed

text \<open>A reader of one kind refuses every other message, whatever follows the kind byte.\<close>

lemma MessageTFromReader_mismatch:
  assumes "prefix [b] (rpeek r)" and "MessageKindFromByte b \<noteq> k"
  shows "MessageTFromReader inst k r = (Fail (MessageKindMismatchError k (MessageKindFromByte b)), radv 1 r)"
  using ReadFull_prefix [OF assms(1)] assms(2) by (simp add: MessageTFromReader_def MessageKindFromReader_def)

end
