(* ===== verification/Arf_Context.thy ===== *)
theory Arf_Context
  imports Rpc_Message
begin

text \<open>
  The context of a call (\<^verbatim>\<open>src/context.go\<close>): receiving and sending the items of a stream, and the response. The
  stream below is reached through the operations of \<^verbatim>\<open>wire.Stream\<close>: reading is the \<open>reader\<close> of the decoders, writing
  an argument \<open>wr\<close>. The last sections relate the two ends: what one context sends, the other receives.
\<close>

section \<open>Reading a message consumes input\<close>

lemma decodeUint_rsize_le:
  "rsize (snd (decodeUint16FromReader r)) \<le> rsize r" "rsize (snd (decodeUint8FromReader r)) \<le> rsize r"
  unfolding decodeUint16FromReader_def decodeUint8FromReader_def
  by (auto intro!: shrinking_bindR simp: ReadFull_rsize_le)

lemma rloop_rsize_le: "(\<And>r. rsize (snd (dec r)) \<le> rsize r) \<Longrightarrow> rsize (snd (rloop n dec r)) \<le> rsize r"
  by (induction n arbitrary: r) (auto intro!: shrinking_bindR)

lemma DecodeString_rsize_le: "rsize (snd (DecodeString r)) \<le> rsize r" "rsize (snd (DecodeBytes r)) \<le> rsize r"
  unfolding DecodeString_def DecodeBytes_def
  by (auto intro!: shrinking_bindR simp: leaf_rsize_le split: prod.splits)

lemma MetadataFromReader_rsize_le: "rsize (snd (MetadataFromReader r)) \<le> rsize r"
  unfolding MetadataFromReader_def
  by (auto intro!: shrinking_bindR rloop_rsize_le simp: decodeUint_rsize_le DecodeString_rsize_le)

lemma decodeParams_rsize_le: "rsize (snd (decodeParams inst r)) \<le> rsize r"
  unfolding decodeParams_def
  by (auto intro!: shrinking_bindR rloop_rsize_le simp: decodeUint_rsize_le DecodeAny_rsize_le)

lemmas message_rsize_le = decodeUint_rsize_le DecodeString_rsize_le MetadataFromReader_rsize_le
  decodeParams_rsize_le DecodeAny_rsize_le

lemma message_FromReader_rsize_le: "rsize (snd (message_FromReader inst k r)) \<le> rsize r"
  unfolding message_FromReader_def Request_FromReader_def Response_FromReader_def StreamError_FromReader_def
    StreamItem_FromReader_def StreamMetadata_FromReader_def emptyMessage_defs
  by (auto intro!: shrinking_bindR simp: message_rsize_le)

lemma MessageFromReader_shrinks: "MessageFromReader inst r = (Ok m, r') \<Longrightarrow> rsize r' < rsize r"
proof -
  assume "MessageFromReader inst r = (Ok m, r')"
  then obtain b r1 where "ReadFull 1 r = (Ok b, r1)" and m: "message_FromReader inst (MessageKindFromByte (b ! 0)) r1 = (Ok m, r')"
    by (auto simp: MessageFromReader_def decodeUint8FromReader_def bindR_eq_Ok_iff)
  from ReadFull_Ok_rsize [OF this(1)] message_FromReader_rsize_le [of inst _ r1] m show ?thesis
    by (metis One_nat_def add_Suc less_Suc_eq_le plus_nat.add_0 snd_conv)
qed

section \<open>State and operations\<close>

record ctx =
  cxErr :: "goerr option"
  hasRecvStream :: bool
  recvStreamError :: "goerr option"
  recvStreamStarted :: bool
  hasSendStream :: bool
  sendStreamStarted :: bool
  sendStreamError :: "goerr option"
  cxResp :: "response option"
  cxReq :: "request option"
  hasSentResponse :: bool

text \<open>\<^verbatim>\<open>c.err = err; return nil, err\<close>\<close>

definition fail_ctx :: "goerr \<Rightarrow> ctx \<Rightarrow> reader \<Rightarrow> 'a outcome \<times> ctx \<times> reader" where
  "fail_ctx e c r = (Fail e, c\<lparr>cxErr := Some e\<rparr>, r)"

text \<open>The loop of \<^verbatim>\<open>Recv\<close>: metadata is stored and the next message read.\<close>

function Recv_loop :: "instantiate \<Rightarrow> ctx \<Rightarrow> reader \<Rightarrow> goval outcome \<times> ctx \<times> reader" where
  "Recv_loop inst c r =
     (case MessageFromReader inst r of
        (Ok (StreamItem v), r') \<Rightarrow> (Ok v, c, r')
      | (Ok EndStreamMsg, r') \<Rightarrow> (Fail StreamEndError, c\<lparr>recvStreamError := Some StreamEndError\<rparr>, r')
      | (Ok (StreamErrorM e), r') \<Rightarrow>
          let err = StreamErrorMsg (seStatus e) (seMetadata e) in (Fail err, c\<lparr>recvStreamError := Some err\<rparr>, r')
      | (Ok (StreamMetadata m), r') \<Rightarrow>
          (case cxResp c of
             None \<Rightarrow> (Panic ''nil pointer dereference'', c, r')
           | Some resp \<Rightarrow> Recv_loop inst (c\<lparr>cxResp := Some (resp\<lparr>respMetadata := m\<rparr>)\<rparr>) r')
      | (Ok _, r') \<Rightarrow> fail_ctx (StreamFailure ''received unexpected message kind'') c r'
      | (Fail e, r') \<Rightarrow> fail_ctx e c r'
      | (Panic x, r') \<Rightarrow> (Panic x, c, r')
      | (Blocks, r') \<Rightarrow> (Blocks, c, r'))"
  by pat_completeness auto
termination
  by (relation "measure (\<lambda>(inst, c, r). rsize r)") (auto dest: MessageFromReader_shrinks [OF sym])

declare Recv_loop.simps [simp del]

definition Recv :: "instantiate \<Rightarrow> ctx \<Rightarrow> reader \<Rightarrow> goval outcome \<times> ctx \<times> reader" where
  "Recv inst c r =
     (if \<not> hasRecvStream c then (Fail (NoStreamError True), c, r)
      else case cxErr c of Some e \<Rightarrow> (Fail e, c, r) | None \<Rightarrow>
      (case recvStreamError c of Some e \<Rightarrow> (Fail e, c, r) | None \<Rightarrow>
      if recvStreamStarted c then Recv_loop inst c r
      else case MessageFromReader inst r of
        (Ok StartStream, r') \<Rightarrow> Recv_loop inst (c\<lparr>recvStreamStarted := True\<rparr>) r'
      | (Ok _, r') \<Rightarrow> fail_ctx (StreamFailure ''received unexpected message kind'') c r'
      | (Fail e, r') \<Rightarrow> fail_ctx e c r'
      | (Panic x, r') \<Rightarrow> (Panic x, c, r')
      | (Blocks, r') \<Rightarrow> (Blocks, c, r')))"

text \<open>\<^verbatim>\<open>err = c.str.Write(enc, end); if err != nil { c.err = err }; return err\<close>\<close>

type_synonym 'w streamWrite = "bytes \<Rightarrow> bool \<Rightarrow> 'w \<Rightarrow> unit outcome \<times> 'w"

definition ctx_write :: "'w streamWrite \<Rightarrow> bytes \<Rightarrow> bool \<Rightarrow> ctx \<times> 'w \<Rightarrow> unit outcome \<times> ctx \<times> 'w" where
  "ctx_write wr enc endStream cw =
     (let (c, w) = cw; (out, w) = wr enc endStream w in
      case out of Fail e \<Rightarrow> (Fail e, c\<lparr>cxErr := Some e\<rparr>, w) | out \<Rightarrow> (out, c, w))"

text \<open>\<^verbatim>\<open>enc, err := m.Wrap(); if err != nil { c.sendStreamError = err; return err }\<close>\<close>

definition wrap_or_stop :: "tyenv \<Rightarrow> message \<Rightarrow> ctx \<times> 'w \<Rightarrow> bytes outcome \<times> ctx \<times> 'w" where
  "wrap_or_stop \<Gamma> m cw =
     (case wrapMessage \<Gamma> m of
        Fail e \<Rightarrow> (Fail e, (fst cw)\<lparr>sendStreamError := Some e\<rparr>, snd cw)
      | out \<Rightarrow> (out, cw))"

definition Send :: "tyenv \<Rightarrow> 'w streamWrite \<Rightarrow> goval \<Rightarrow> ctx \<times> 'w \<Rightarrow> unit outcome \<times> ctx \<times> 'w" where
  "Send \<Gamma> wr v cw =
     (let c = fst cw in
      if \<not> hasSendStream c then (Fail (NoStreamError False), cw)
      else case cxErr c of Some e \<Rightarrow> (Fail e, cw) | None \<Rightarrow>
      (case sendStreamError c of Some e \<Rightarrow> (Fail e, cw) | None \<Rightarrow>
      bindR (if sendStreamStarted c then (Ok (), cw)
             else bindR (wrap_or_stop \<Gamma> StartStream cw) (\<lambda>enc cw.
               bindR (ctx_write wr enc False cw) (\<lambda>_ (c, w). (Ok (), c\<lparr>sendStreamStarted := True\<rparr>, w)))) (\<lambda>_ cw.
        bindR (wrap_or_stop \<Gamma> (StreamItem v) cw) (\<lambda>enc cw. ctx_write wr enc False cw))))"

definition EndSend :: "tyenv \<Rightarrow> 'w streamWrite \<Rightarrow> ctx \<times> 'w \<Rightarrow> unit outcome \<times> ctx \<times> 'w" where
  "EndSend \<Gamma> wr cw =
     (let c = fst cw in
      if \<not> hasSendStream c then (Fail (NoStreamError False), cw)
      else case cxErr c of Some e \<Rightarrow> (Fail e, cw) | None \<Rightarrow>
      (case sendStreamError c of Some e \<Rightarrow> (Fail e, cw) | None \<Rightarrow>
      (case wrapMessage \<Gamma> EndStreamMsg of
         Ok enc \<Rightarrow> ctx_write wr enc True cw
       | Fail e \<Rightarrow> (Fail e, c\<lparr>cxErr := Some e\<rparr>, snd cw)
       | Panic x \<Rightarrow> (Panic x, cw)
       | Blocks \<Rightarrow> (Blocks, cw))))"

definition ReadResponse :: "instantiate \<Rightarrow> ctx \<Rightarrow> reader \<Rightarrow> response outcome \<times> ctx \<times> reader" where
  "ReadResponse inst c r =
     (case cxErr c of Some e \<Rightarrow> (Fail e, c, r) | None \<Rightarrow>
      (case MessageTFromReader inst MessageKindResponse r of
         (Ok (Response resp), r') \<Rightarrow> (Ok resp, c\<lparr>cxResp := Some resp, hasRecvStream := respStreaming resp\<rparr>, r')
       | (Ok _, r') \<Rightarrow> (Panic ''unreachable'', c, r')
       | (Fail e, r') \<Rightarrow> fail_ctx e c r'
       | (Panic x, r') \<Rightarrow> (Panic x, c, r')
       | (Blocks, r') \<Rightarrow> (Blocks, c, r')))"

definition SendResponse ::
  "tyenv \<Rightarrow> 'w streamWrite \<Rightarrow> int \<Rightarrow> goval list \<Rightarrow> bool \<Rightarrow> metadata \<Rightarrow> ctx \<times> 'w \<Rightarrow> unit outcome \<times> ctx \<times> 'w" where
  "SendResponse \<Gamma> wr st params streaming meta cw =
     (let resp = \<lparr>respStatus = word_of_int st, respStreaming = streaming, respMetadata = meta, respParams = params\<rparr> in
      bindR (wrapMessage \<Gamma> (Response resp), cw) (\<lambda>enc (c, w).
        let c = c\<lparr>hasSentResponse := True, hasSendStream := streaming, sendStreamStarted := False\<rparr>;
            (out, w) = wr enc (\<not> streaming) w
        in (out, c, w)))"

lemma wrap_or_stop_Ok_iff: "wrap_or_stop \<Gamma> m cw = (Ok b, cw') \<longleftrightarrow> wrapMessage \<Gamma> m = Ok b \<and> cw' = cw"
  by (cases "wrapMessage \<Gamma> m") (auto simp: wrap_or_stop_def)

section \<open>Receiving\<close>

text \<open>Once a receive has failed, every later one fails with the same error and reads nothing.\<close>

lemma Recv_loop_Fail:
  "Recv_loop inst c r = (Fail e, c', r') \<Longrightarrow> cxErr c = None \<Longrightarrow>
     hasRecvStream c' = hasRecvStream c \<and> (cxErr c' = Some e \<or> cxErr c' = None \<and> recvStreamError c' = Some e)"
proof (induction inst c r rule: Recv_loop.induct)
  case (1 inst c r)
  show ?case
  proof (cases "MessageFromReader inst r" rule: outcome_pair_cases)
    case (Ok m r1)
    show ?thesis
    proof (cases m)
      case (StreamMetadata d)
      show ?thesis
      proof (cases "cxResp c")
        case None
        with "1.prems" Ok StreamMetadata show ?thesis by (simp add: Recv_loop.simps [of inst c r])
      next
        case (Some resp)
        with "1.prems" "1.IH" [OF Ok [symmetric] refl StreamMetadata Some] Ok StreamMetadata show ?thesis
          by (simp add: Recv_loop.simps [of inst c r])
      qed
    qed (use "1.prems" Ok in \<open>auto simp: Recv_loop.simps [of inst c r] fail_ctx_def Let_def\<close>)
  qed (use "1.prems" in \<open>auto simp: Recv_loop.simps [of inst c r] fail_ctx_def\<close>)
qed

lemma Recv_Fail_state:
  assumes "Recv inst c r = (Fail e, c', r')" and "hasRecvStream c"
  shows "hasRecvStream c' \<and> (cxErr c' = Some e \<or> cxErr c' = None \<and> recvStreamError c' = Some e)"
proof -
  have start: ?thesis if "cxErr c = None" "recvStreamError c = None" "\<not> recvStreamStarted c"
  proof (cases "MessageFromReader inst r" rule: outcome_pair_cases)
    case (Ok m r1)
    then show ?thesis
      using assms that Recv_loop_Fail [of inst "c\<lparr>recvStreamStarted := True\<rparr>" r1 e c' r']
      by (cases m) (auto simp: Recv_def fail_ctx_def)
  qed (use assms that in \<open>auto simp: Recv_def fail_ctx_def\<close>)
  show ?thesis
  proof (cases "cxErr c = None \<and> recvStreamError c = None")
    case True
    then show ?thesis
    proof (cases "recvStreamStarted c")
      case started: True
      with assms True have "Recv_loop inst c r = (Fail e, c', r')" by (simp add: Recv_def)
      from Recv_loop_Fail [OF this] assms(2) True show ?thesis by auto
    qed (use start in auto)
  qed (use assms in \<open>auto simp: Recv_def split: option.splits\<close>)
qed

lemma Recv_sticky:
  assumes "Recv inst c r = (Fail e, c', r')" and "hasRecvStream c"
  shows "Recv inst c' r'' = (Fail e, c', r'')"
  using Recv_Fail_state [OF assms] by (auto simp: Recv_def)

text \<open>A context that is ready to receive, and one that has already seen the start of the stream.\<close>

definition can_recv :: "bool \<Rightarrow> ctx \<Rightarrow> bool" where
  "can_recv started c \<longleftrightarrow> hasRecvStream c \<and> cxErr c = None \<and> recvStreamError c = None \<and> recvStreamStarted c = started"

text \<open>The messages a source offers, one per chunk.\<close>

definition offers :: "bytes list \<Rightarrow> reader \<Rightarrow> bool" where
  "offers bss r \<longleftrightarrow> (\<exists>cs t. r = Base cs t \<and> filter (\<lambda>c. c \<noteq> []) cs = bss)"

lemma MessageFromReader_offers:
  assumes "message_valid m" and "wrapMessage \<Gamma> m = Ok bs" and "message_norm inst \<Gamma> m = Ok m'" and "length bs \<le> maxEncoded"
    and "offers (bs # bss) r"
  shows "\<exists>r'. MessageFromReader inst r = (Ok m', r') \<and> offers bss r'"
proof -
  from assms(5) obtain cs t where r: "r = Base cs t" "filter (\<lambda>c. c \<noteq> []) cs = (bs @ []) # bss" by (auto simp: offers_def)
  have "bs \<noteq> []" using assms(2) by (auto simp: wrapMessage_def bindO_eq_Ok_iff)
  from reads_back_chunk [OF wrapMessage_reads_back(1) [OF assms(1-4)] this r(2), of t] r(1) show ?thesis
    by (auto simp: offers_def)
qed

lemma Recv_item:
  assumes c: "can_recv True c" and enc: "wrapMessage \<Gamma> (StreamItem v) = Ok bs" "length bs \<le> maxEncoded" and can: "canon inst \<Gamma> v = Ok w"
    and r: "offers (bs # bss) r"
  shows "\<exists>r'. Recv inst c r = (Ok w, c, r') \<and> offers bss r'"
  using MessageFromReader_offers [of "StreamItem v" \<Gamma> bs inst "StreamItem w" bss r] assms
  by (auto simp: Recv_def can_recv_def Recv_loop.simps [of inst c r])

lemma Recv_start:
  assumes c: "can_recv False c" and r: "offers ([MessageKindStartStream] # bss) r"
  shows "\<exists>r'. Recv inst c r = Recv_loop inst (c\<lparr>recvStreamStarted := True\<rparr>) r' \<and> offers bss r'"
  using MessageFromReader_offers [of StartStream \<Gamma> "[MessageKindStartStream]" inst StartStream bss r for \<Gamma>] assms
  by (auto simp: Recv_def can_recv_def wrapMessage_def maxEncoded_def)

lemma Recv_end:
  assumes c: "can_recv True c" and r: "offers ([MessageKindEndStream] # bss) r"
  shows "\<exists>r'. Recv inst c r = (Fail StreamEndError, c\<lparr>recvStreamError := Some StreamEndError\<rparr>, r') \<and> offers bss r'"
  using MessageFromReader_offers [of EndStreamMsg \<Gamma> "[MessageKindEndStream]" inst EndStreamMsg bss r for \<Gamma>] assms
  by (auto simp: Recv_def can_recv_def wrapMessage_def maxEncoded_def Recv_loop.simps [of inst c r])

text \<open>\<open>n\<close> calls of \<^verbatim>\<open>Recv\<close> by the application.\<close>

primrec Recvs :: "instantiate \<Rightarrow> nat \<Rightarrow> ctx \<Rightarrow> reader \<Rightarrow> goval list outcome \<times> ctx \<times> reader" where
  "Recvs inst 0 c r = (Ok [], c, r)"
| "Recvs inst (Suc n) c r = bindR (Recv inst c r) (\<lambda>v (c, r). bindR (Recvs inst n c r) (\<lambda>vs cr. (Ok (v # vs), cr)))"

text \<open>What the items of a stream look like on the wire, and what the receiver gets for them.\<close>

definition item_bytes :: "tyenv \<Rightarrow> instantiate \<Rightarrow> goval \<Rightarrow> bytes \<Rightarrow> goval \<Rightarrow> bool" where
  "item_bytes \<Gamma> inst v bs w \<longleftrightarrow> wrapMessage \<Gamma> (StreamItem v) = Ok bs \<and> canon inst \<Gamma> v = Ok w \<and> length bs \<le> maxEncoded"

lemma Recvs_items:
  "list_all2 (\<lambda>v (bs, w). item_bytes \<Gamma> inst v bs w) vs bws \<Longrightarrow> can_recv True c \<Longrightarrow> offers (map fst bws @ bss) r \<Longrightarrow>
     \<exists>r'. Recvs inst (length vs) c r = (Ok (map snd bws), c, r') \<and> offers bss r'"
proof (induction vs bws arbitrary: r rule: list_all2_induct)
  case (Cons v vs bw bws)
  obtain bs w where bw: "bw = (bs, w)" by (cases bw)
  with Cons.hyps Recv_item [OF Cons.prems(1), of \<Gamma> v bs inst w "map fst bws @ bss" r] Cons.prems(2)
  obtain r1 where "Recv inst c r = (Ok w, c, r1)" "offers (map fst bws @ bss) r1" by (auto simp: item_bytes_def)
  with Cons.IH [OF Cons.prems(1)] bw show ?case by fastforce
qed simp

text \<open>A whole stream: the start message, the items, the end message. The receiver gets the items and then the end.\<close>

lemma Recvs_stream:
  assumes items: "list_all2 (\<lambda>v (bs, w). item_bytes \<Gamma> inst v bs w) vs bws" and vs: "vs \<noteq> []" and c: "can_recv False c"
    and r: "offers ([MessageKindStartStream] # map fst bws @ [[MessageKindEndStream]]) r"
  shows "\<exists>c' r'. Recvs inst (length vs) c r = (Ok (map snd bws), c', r') \<and> fst (Recv inst c' r') = Fail StreamEndError"
proof -
  let ?c = "c\<lparr>recvStreamStarted := True\<rparr>"
  have c': "can_recv True ?c" using c by (simp add: can_recv_def)
  obtain r1 where start: "Recv inst c r = Recv_loop inst ?c r1" and r1: "offers (map fst bws @ [[MessageKindEndStream]]) r1"
    using Recv_start [OF c r] by blast
  have "Recv_loop inst ?c r1 = Recv inst ?c r1" using c' by (simp add: Recv_def can_recv_def)
  then have "Recvs inst (length vs) c r = Recvs inst (length vs) ?c r1" using start vs by (cases vs) simp_all
  moreover obtain r2 where "Recvs inst (length vs) ?c r1 = (Ok (map snd bws), ?c, r2)" and r2: "offers [[MessageKindEndStream]] r2"
    using Recvs_items [OF items c' r1] by blast
  moreover obtain r3 where "Recv inst ?c r2 = (Fail StreamEndError, ?c\<lparr>recvStreamError := Some StreamEndError\<rparr>, r3)"
    using Recv_end [OF c' r2] by blast
  ultimately show ?thesis by auto
qed

text \<open>A stream that starts twice is refused at the first receive.\<close>

lemma Recv_double_start:
  assumes c: "can_recv False c" and r: "offers ([MessageKindStartStream] # [MessageKindStartStream] # bss) r"
  shows "fst (Recv inst c r) = Fail (StreamFailure ''received unexpected message kind'')"
proof -
  obtain r1 where start: "Recv inst c r = Recv_loop inst (c\<lparr>recvStreamStarted := True\<rparr>) r1" and r1: "offers ([MessageKindStartStream] # bss) r1"
    using Recv_start [OF c r] by blast
  from MessageFromReader_offers [of StartStream \<Gamma> "[MessageKindStartStream]" inst StartStream bss r1 for \<Gamma>] r1
  obtain r2 where "MessageFromReader inst r1 = (Ok StartStream, r2)" by (auto simp: wrapMessage_def maxEncoded_def)
  then show ?thesis by (simp add: start Recv_loop.simps fail_ctx_def)
qed

section \<open>Sending\<close>

text \<open>
  What a context needs of the stream it writes to: a write that returns no error has emitted the frames of the buffer
  and does not change how later buffers are emitted.
\<close>

locale stream_writer =
  fixes wr :: "'w streamWrite"
    and out :: "'w \<Rightarrow> bytes"
    and emit :: "'w \<Rightarrow> bytes \<Rightarrow> bool \<Rightarrow> bytes"
  assumes wr_Ok: "wr d e w = (Ok (), w') \<Longrightarrow> out w' = out w @ emit w d e \<and> emit w' = emit w"
begin

lemma ctx_write_Ok:
  "ctx_write wr d e (c, w) = (Ok (), c', w') \<Longrightarrow> c' = c \<and> out w' = out w @ emit w d e \<and> emit w' = emit w"
  by (auto simp: ctx_write_def Let_def split: prod.splits outcome.splits dest: wr_Ok)

lemma Send_Ok:
  assumes "Send \<Gamma> wr v (c, w) = (Ok (), c', w')"
  shows "\<exists>bs. wrapMessage \<Gamma> (StreamItem v) = Ok bs \<and>
    out w' = out w @ (if sendStreamStarted c then [] else emit w [MessageKindStartStream] False) @ emit w bs False \<and>
    emit w' = emit w \<and> c' = c\<lparr>sendStreamStarted := True\<rparr>"
proof -
  from assms have guards: "hasSendStream c" "cxErr c = None" "sendStreamError c = None"
    by (auto simp: Send_def split: if_splits option.splits)
  let ?first = "if sendStreamStarted c then (Ok (), c, w)
             else bindR (wrap_or_stop \<Gamma> StartStream (c, w)) (\<lambda>enc cw.
               bindR (ctx_write wr enc False cw) (\<lambda>_ (c, w). (Ok (), c\<lparr>sendStreamStarted := True\<rparr>, w)))"
  from assms guards obtain c1 w1 bs where first: "?first = (Ok (), c1, w1)"
    and item: "wrapMessage \<Gamma> (StreamItem v) = Ok bs" "ctx_write wr bs False (c1, w1) = (Ok (), c', w')"
    by (auto simp: Send_def bindR_eq_Ok_iff wrap_or_stop_Ok_iff)
  have 1: "c1 = c\<lparr>sendStreamStarted := True\<rparr> \<and> emit w1 = emit w \<and>
      out w1 = out w @ (if sendStreamStarted c then [] else emit w [MessageKindStartStream] False)"
  proof (cases "sendStreamStarted c")
    case True
    with first show ?thesis by (cases c) auto
  next
    case False
    with first obtain c2 where "ctx_write wr [MessageKindStartStream] False (c, w) = (Ok (), c2, w1)" "c1 = c2\<lparr>sendStreamStarted := True\<rparr>"
      by (auto simp: bindR_eq_Ok_iff wrap_or_stop_Ok_iff wrapMessage_def)
    with ctx_write_Ok False show ?thesis by fastforce
  qed
  with ctx_write_Ok [OF item(2)] item(1) show ?thesis by auto
qed

lemma EndSend_Ok:
  assumes "EndSend \<Gamma> wr (c, w) = (Ok (), c', w')"
  shows "c' = c \<and> out w' = out w @ emit w [MessageKindEndStream] True \<and> emit w' = emit w"
  using assms by (auto simp: EndSend_def wrapMessage_def split: if_splits option.splits dest: ctx_write_Ok)

end

text \<open>The application sends a list of values and ends the stream.\<close>

primrec Sends :: "tyenv \<Rightarrow> 'w streamWrite \<Rightarrow> goval list \<Rightarrow> ctx \<times> 'w \<Rightarrow> unit outcome \<times> ctx \<times> 'w" where
  "Sends \<Gamma> wr [] cw = (Ok (), cw)"
| "Sends \<Gamma> wr (v # vs) cw = bindR (Send \<Gamma> wr v cw) (\<lambda>_. Sends \<Gamma> wr vs)"

context stream_writer
begin

lemma Sends_started_Ok:
  "Sends \<Gamma> wr vs (c, w) = (Ok (), c', w') \<Longrightarrow> sendStreamStarted c \<Longrightarrow>
     \<exists>bss. map (\<lambda>v. wrapMessage \<Gamma> (StreamItem v)) vs = map Ok bss \<and> out w' = out w @ concat (map (\<lambda>bs. emit w bs False) bss) \<and>
       emit w' = emit w \<and> c' = c"
proof (induction vs arbitrary: c w)
  case (Cons v vs)
  from Cons.prems(1) obtain c1 w1 where s: "Send \<Gamma> wr v (c, w) = (Ok (), c1, w1)" and rest: "Sends \<Gamma> wr vs (c1, w1) = (Ok (), c', w')"
    by (auto simp: bindR_eq_Ok_iff)
  from Send_Ok [OF s] Cons.prems(2) obtain bs where bs: "wrapMessage \<Gamma> (StreamItem v) = Ok bs" "out w1 = out w @ emit w bs False"
    "emit w1 = emit w" "c1 = c" by auto
  from Cons.IH [OF rest] bs Cons.prems(2) obtain bss where "map (\<lambda>v. wrapMessage \<Gamma> (StreamItem v)) vs = map Ok bss"
    "out w' = out w1 @ concat (map (\<lambda>bs. emit w bs False) bss)" "emit w' = emit w" "c' = c" by auto
  with bs show ?case by (intro exI [of _ "bs # bss"]) simp
qed auto

lemma Sends_Ok:
  assumes "Sends \<Gamma> wr vs (c, w) = (Ok (), c', w')" and "vs \<noteq> []" and "\<not> sendStreamStarted c"
  shows "\<exists>bss. map (\<lambda>v. wrapMessage \<Gamma> (StreamItem v)) vs = map Ok bss \<and>
    out w' = out w @ emit w [MessageKindStartStream] False @ concat (map (\<lambda>bs. emit w bs False) bss) \<and> emit w' = emit w \<and>
    c' = c\<lparr>sendStreamStarted := True\<rparr>"
proof -
  obtain v vs' where vs: "vs = v # vs'" using assms(2) by (cases vs) auto
  with assms(1) obtain c1 w1 where s: "Send \<Gamma> wr v (c, w) = (Ok (), c1, w1)" and rest: "Sends \<Gamma> wr vs' (c1, w1) = (Ok (), c', w')"
    by (auto simp: bindR_eq_Ok_iff)
  from Send_Ok [OF s] assms(3) obtain bs where bs: "wrapMessage \<Gamma> (StreamItem v) = Ok bs"
    "out w1 = out w @ emit w [MessageKindStartStream] False @ emit w bs False" "emit w1 = emit w" "c1 = c\<lparr>sendStreamStarted := True\<rparr>" by auto
  from Sends_started_Ok [OF rest] bs(4) obtain bss where "map (\<lambda>v. wrapMessage \<Gamma> (StreamItem v)) vs' = map Ok bss"
    "out w' = out w1 @ concat (map (\<lambda>bs. emit w1 bs False) bss)" "emit w' = emit w1" "c' = c1" by auto
  with bs vs show ?thesis by (intro exI [of _ "bs # bss"]) simp
qed

end

end
