(* ===== verification/Wire_Frame.thy ===== *)
theory Wire_Frame
  imports Codec
begin

text \<open>
  Frames of the wire protocol (\<^verbatim>\<open>src/wire/frame.go\<close>, \<^verbatim>\<open>frame_kind.go\<close>, \<^verbatim>\<open>error_code.go\<close>,
  \<^verbatim>\<open>compression.go\<close>): the frame record, its serialisation and validation, and the six typed
  frames with their conversions to and from it. The locale \<open>framer\<close> states the contract of the
  interface \<^verbatim>\<open>Framer\<close>; it is interpreted for each of the six.
\<close>

section \<open>Compression\<close>

text \<open>
  The DEFLATE implementation of \<^verbatim>\<open>compress/flate\<close> is a parameter: \<open>deflate\<close> is what a writer at best
  compression emits for a buffer, \<open>inflate\<close> what \<^verbatim>\<open>io.ReadAll\<close> of a flate reader returns: the data read
  and the error that ended it, if any.
  \<open>flate_ok\<close> is its documented law.
\<close>

record flate =
  deflate :: "bytes \<Rightarrow> bytes"
  inflate :: "bytes \<Rightarrow> bytes \<times> goerr option"

definition flate_ok :: "flate \<Rightarrow> bool" where
  "flate_ok z \<longleftrightarrow> (\<forall>b. inflate z (deflate z b) = (b, None))"

type_synonym compressionMethod = int

abbreviation (input) CompressionMethodNone :: compressionMethod where "CompressionMethodNone \<equiv> 0"
abbreviation (input) CompressionMethodGzip :: compressionMethod where "CompressionMethodGzip \<equiv> 1"

definition Compress :: "flate \<Rightarrow> compressionMethod \<Rightarrow> bytes \<Rightarrow> bytes outcome" where
  "Compress z c buf =
     (if c = CompressionMethodNone then Ok buf
      else if c = CompressionMethodGzip then Ok (deflate z buf)
      else Panic ''Unsupported compression method'')"

definition Decompress :: "flate \<Rightarrow> compressionMethod \<Rightarrow> bytes \<Rightarrow> (bytes \<times> goerr option) outcome" where
  "Decompress z c buf =
     (if c = CompressionMethodNone then Ok (buf, None)
      else if c = CompressionMethodGzip then Ok (inflate z buf)
      else Panic ''Unsupported compression method'')"

lemma Decompress_Compress: "flate_ok z \<Longrightarrow> Compress z c buf = Ok b \<Longrightarrow> Decompress z c b = Ok (buf, None)"
  by (auto simp: Compress_def Decompress_def flate_ok_def split: if_splits)

section \<open>Kinds and error codes\<close>

type_synonym frameKind = u8

abbreviation (input) FrameKindHello :: frameKind where "FrameKindHello \<equiv> 0x00"
abbreviation (input) FrameKindPing :: frameKind where "FrameKindPing \<equiv> 0x01"
abbreviation (input) FrameKindGoAway :: frameKind where "FrameKindGoAway \<equiv> 0x02"
abbreviation (input) FrameKindMakeStream :: frameKind where "FrameKindMakeStream \<equiv> 0x03"
abbreviation (input) FrameKindResetStream :: frameKind where "FrameKindResetStream \<equiv> 0x04"
abbreviation (input) FrameKindData :: frameKind where "FrameKindData \<equiv> 0x05"

definition frameNames :: "(frameKind \<times> string) list" where
  "frameNames =
    [(FrameKindHello, ''HELLO''), (FrameKindPing, ''PING''), (FrameKindGoAway, ''GO_AWAY''),
     (FrameKindMakeStream, ''MAKE_STREAM''), (FrameKindResetStream, ''RESET_STREAM''), (FrameKindData, ''DATA'')]"

definition FrameKind_String :: "frameKind \<Rightarrow> string" where
  "FrameKind_String k = (case map_of frameNames k of None \<Rightarrow> ''UNKNOWN'' | Some v \<Rightarrow> v)"

definition frameFromByte :: "u8 \<Rightarrow> frameKind option" where
  "frameFromByte = map_of
    [(FrameKindHello, FrameKindHello), (FrameKindPing, FrameKindPing), (FrameKindGoAway, FrameKindGoAway),
     (FrameKindMakeStream, FrameKindMakeStream), (FrameKindResetStream, FrameKindResetStream),
     (FrameKindData, FrameKindData)]"

type_synonym errorCode = u32

abbreviation (input) ErrorCodeNoError :: errorCode where "ErrorCodeNoError \<equiv> 0x00"
abbreviation (input) ErrorCodeProtocolError :: errorCode where "ErrorCodeProtocolError \<equiv> 0x01"
abbreviation (input) ErrorCodeInternalError :: errorCode where "ErrorCodeInternalError \<equiv> 0x02"
abbreviation (input) ErrorCodeStreamClosed :: errorCode where "ErrorCodeStreamClosed \<equiv> 0x03"
abbreviation (input) ErrorCodeFrameSizeError :: errorCode where "ErrorCodeFrameSizeError \<equiv> 0x04"
abbreviation (input) ErrorCodeRefusedStream :: errorCode where "ErrorCodeRefusedStream \<equiv> 0x05"
abbreviation (input) ErrorCodeCancel :: errorCode where "ErrorCodeCancel \<equiv> 0x06"
abbreviation (input) ErrorCodeCompressionError :: errorCode where "ErrorCodeCompressionError \<equiv> 0x07"
abbreviation (input) ErrorCodeEnhanceYourCalm :: errorCode where "ErrorCodeEnhanceYourCalm \<equiv> 0x08"
abbreviation (input) ErrorCodeInadequateSecurity :: errorCode where "ErrorCodeInadequateSecurity \<equiv> 0x09"

section \<open>Frames\<close>

record frame =
  StreamID :: u32
  FrameKind :: frameKind
  Flags :: u8
  Length :: u16
  Payload :: bytes

text \<open>\<^verbatim>\<open>"arf"\<close>\<close>

definition magic :: bytes where
  "magic = [0x61, 0x72, 0x66]"

text \<open>\<open>Bytes\<close> replaces the payload by its compressed form and the length by its low 16 bits, in the frame
  itself.\<close>

definition Bytes :: "flate \<Rightarrow> compressionMethod \<Rightarrow> frame \<Rightarrow> bytes outcome \<times> frame" where
  "Bytes z method f =
     (case Compress z method (Payload f) of
        Ok p \<Rightarrow>
          let f = f\<lparr>Payload := p, Length := of_nat (length p)\<rparr> in
          (Ok (magic @ PutUint32 (StreamID f) @ [FrameKind f, Flags f] @ PutUint16 (Length f) @ Payload f), f)
      | Fail e \<Rightarrow> (Fail e, f)
      | Panic m \<Rightarrow> (Panic m, f)
      | Blocks \<Rightarrow> (Blocks, f))"

definition ValidateKind :: "frameKind \<Rightarrow> bool \<Rightarrow> frame \<Rightarrow> unit outcome" where
  "ValidateKind expected associated f =
     (if FrameKind f \<noteq> expected then Fail (FrameTypeMismatchError expected (FrameKind f))
      else if associated \<and> StreamID f = 0 then Fail (UnexpectedUnassociatedFrameError (FrameKind f))
      else if \<not> associated \<and> StreamID f \<noteq> 0 then Fail (UnexpectedAssociatedFrameError (FrameKind f))
      else Ok ())"

definition ValidateSize :: "int \<Rightarrow> frame \<Rightarrow> unit outcome" where
  "ValidateSize s f =
     (if Length f \<noteq> word_of_int s then Fail (InvalidFrameLengthError ''invalid length for frame'') else Ok ())"

definition Frame_Decompress :: "flate \<Rightarrow> compressionMethod \<Rightarrow> frame \<Rightarrow> unit outcome \<times> frame" where
  "Frame_Decompress z method f =
     (case Decompress z method (Payload f) of
        Ok (p, None) \<Rightarrow> (Ok (), f\<lparr>Payload := p, Length := of_nat (length p)\<rparr>)
      | Ok (p, Some e) \<Rightarrow> (Fail e, f\<lparr>Payload := p\<rparr>)
      | Fail e \<Rightarrow> (Fail e, f)
      | Panic m \<Rightarrow> (Panic m, f)
      | Blocks \<Rightarrow> (Blocks, f))"

text \<open>The length field is the length of the payload, and the kind is one of the six.\<close>

definition frame_sized :: "frame \<Rightarrow> bool" where
  "frame_sized f \<longleftrightarrow> unat (Length f) = length (Payload f)"

definition frame_known :: "frame \<Rightarrow> bool" where
  "frame_known f \<longleftrightarrow> frameFromByte (FrameKind f) \<noteq> None"

lemma frame_sizedI: "length (Payload f) < 65536 \<Longrightarrow> Length f = of_nat (length (Payload f)) \<Longrightarrow> frame_sized f"
  by (simp add: frame_sized_def unat_of_nat_small)

lemma frame_sizedD:
  assumes "frame_sized f"
  shows "Length f = of_nat (length (Payload f))" and "length (Payload f) < 65536"
proof -
  have "Length f = of_nat (unat (Length f))" by simp
  also have "\<dots> = of_nat (length (Payload f))" using assms by (simp only: frame_sized_def)
  finally show "Length f = of_nat (length (Payload f))" .
  have "unat (Length f) < 2 ^ 16" using unsigned_less [of "Length f"] by simp
  then show "length (Payload f) < 65536" using assms by (simp add: frame_sized_def)
qed

lemma frame_known_iff:
  "frame_known f \<longleftrightarrow> FrameKind f \<in>
     {FrameKindHello, FrameKindPing, FrameKindGoAway, FrameKindMakeStream, FrameKindResetStream, FrameKindData}"
  by (auto simp: frame_known_def frameFromByte_def)

lemma Bytes_none:
  "frame_sized f \<Longrightarrow> Bytes z CompressionMethodNone f =
     (Ok (magic @ PutUint32 (StreamID f) @ [FrameKind f, Flags f] @ PutUint16 (Length f) @ Payload f), f)"
  using frame_sizedD(1) [of f] by (simp add: Bytes_def Compress_def)

text \<open>\<open>Decompress\<close> undoes the compression that \<open>Bytes\<close> left in the frame.\<close>

lemma Decompress_Bytes:
  assumes "flate_ok z" and "frame_sized f" and "Bytes z method f = (Ok bs, f')"
  shows "Frame_Decompress z method f' = (Ok (), f)"
proof -
  from assms(3) obtain p where p: "Compress z method (Payload f) = Ok p"
    and f': "f' = f\<lparr>Payload := p, Length := of_nat (length p)\<rparr>"
    by (auto simp: Bytes_def Let_def split: outcome.splits)
  from Decompress_Compress [OF assms(1) p] frame_sizedD(1) [OF assms(2)] show ?thesis
    by (simp add: Frame_Decompress_def f')
qed

section \<open>Typed frames\<close>

record helloFrame =
  helloAck :: bool
  CompressionGZip :: bool
  MaxConcurrentStreams :: u32

record pingFrame =
  pingAck :: bool
  pingPayload :: bytes

record goAwayFrame =
  LastStreamID :: u32
  goAwayErrorCode :: errorCode
  AdditionalData :: bytes

record makeStreamFrame =
  makeStreamID :: u32

record resetStreamFrame =
  resetStreamID :: u32
  resetErrorCode :: errorCode

record dataFrame =
  dataStreamID :: u32
  EndData :: bool
  EndStream :: bool
  dataPayload :: bytes

text \<open>\<^verbatim>\<open>flags |= 0x01 << n\<close> under a condition, and \<^verbatim>\<open>flags & (0x01 << n) != 0\<close>.\<close>

definition set_flag :: "bool \<Rightarrow> nat \<Rightarrow> u8 \<Rightarrow> u8" where
  "set_flag c n flags = (if c then flags OR push_bit n 1 else flags)"

definition has_flag :: "nat \<Rightarrow> u8 \<Rightarrow> bool" where
  "has_flag n flags \<longleftrightarrow> flags AND push_bit n 1 \<noteq> 0"

lemma has_flag_bit: "has_flag n flags \<longleftrightarrow> bit flags n"
  by (simp only: has_flag_def flag_set_iff)

lemma has_flag_set_flag [simp]: "n < 8 \<Longrightarrow> has_flag n (set_flag c m flags) \<longleftrightarrow> c \<and> n = m \<or> has_flag n flags"
  by (auto simp: has_flag_bit set_flag_def bit_simps)

lemma has_flag_0 [simp]: "\<not> has_flag n 0"
  by (simp add: has_flag_def)

text \<open>Every \<open>FromFrame\<close> fills the struct it is called on, and may have changed it when it returns an error.\<close>

definition Hello_IntoFrame :: "helloFrame \<Rightarrow> frame" where
  "Hello_IntoFrame s =
     \<lparr>StreamID = 0, FrameKind = FrameKindHello, Flags = set_flag (CompressionGZip s) 1 (set_flag (helloAck s) 0 0),
      Length = 4, Payload = PutUint32 (MaxConcurrentStreams s)\<rparr>"

definition Hello_FromFrame :: "helloFrame \<Rightarrow> frame \<Rightarrow> unit outcome \<times> helloFrame" where
  "Hello_FromFrame s f =
     bindR (ValidateKind FrameKindHello False f, s) (\<lambda>_ s.
     let s = s\<lparr>helloAck := has_flag 0 (Flags f), CompressionGZip := has_flag 1 (Flags f)\<rparr> in
     if Length f \<noteq> 0 \<and> Length f \<noteq> 4 then (Fail (InvalidFrameLengthError ''invalid length for frame HELLO''), s)
     else bindR (if Length f \<noteq> 0
                 then bindR (Uint32 (Payload f), s) (\<lambda>m s. (Ok (), s\<lparr>MaxConcurrentStreams := m\<rparr>))
                 else (Ok (), s)) (\<lambda>_ s.
       if MaxConcurrentStreams s \<noteq> 0 \<and> \<not> helloAck s
       then (Fail (InvalidFrameError ''received non-ack HELLO with non-zero MaxConcurrentStreams''), s)
       else (Ok (), s)))"

definition Ping_IntoFrame :: "pingFrame \<Rightarrow> frame" where
  "Ping_IntoFrame p =
     \<lparr>StreamID = 0, FrameKind = FrameKindPing, Flags = set_flag (pingAck p) 2 0,
      Length = of_nat (length (pingPayload p)), Payload = pingPayload p\<rparr>"

definition Ping_FromFrame :: "pingFrame \<Rightarrow> frame \<Rightarrow> unit outcome \<times> pingFrame" where
  "Ping_FromFrame p f =
     bindR (ValidateKind FrameKindPing False f, p) (\<lambda>_ p.
     bindR (ValidateSize 8 f, p) (\<lambda>_ p.
       (Ok (), p\<lparr>pingAck := has_flag 2 (Flags f), pingPayload := Payload f\<rparr>)))"

definition GoAway_IntoFrame :: "goAwayFrame \<Rightarrow> frame" where
  "GoAway_IntoFrame g =
     (let payload = PutUint32 (LastStreamID g) @ PutUint32 (goAwayErrorCode g) @ AdditionalData g in
      \<lparr>StreamID = 0, FrameKind = FrameKindGoAway, Flags = 0, Length = of_nat (length payload), Payload = payload\<rparr>)"

text \<open>\<^verbatim>\<open>b[k:]\<close>\<close>

definition slice_from :: "nat \<Rightarrow> bytes \<Rightarrow> bytes outcome" where
  "slice_from k b = (if k \<le> length b then Ok (drop k b) else Panic ''slice bounds out of range'')"

definition GoAway_FromFrame :: "goAwayFrame \<Rightarrow> frame \<Rightarrow> unit outcome \<times> goAwayFrame" where
  "GoAway_FromFrame g f =
     bindR (ValidateKind FrameKindGoAway False f, g) (\<lambda>_ g.
     if Length f < 8 then (Fail (InvalidFrameLengthError ''invalid length for frame GOAWAY''), g)
     else bindR (Uint32 (Payload f), g) (\<lambda>n g.
       let g = g\<lparr>LastStreamID := n\<rparr> in
       bindR (bindO (slice_from 4 (Payload f)) Uint32, g) (\<lambda>c g.
         let g = g\<lparr>goAwayErrorCode := c\<rparr> in
         bindR (slice_from 8 (Payload f), g) (\<lambda>d g. (Ok (), g\<lparr>AdditionalData := d\<rparr>)))))"

definition MakeStream_IntoFrame :: "makeStreamFrame \<Rightarrow> frame" where
  "MakeStream_IntoFrame r =
     \<lparr>StreamID = makeStreamID r, FrameKind = FrameKindMakeStream, Flags = 0, Length = 0, Payload = []\<rparr>"

definition MakeStream_FromFrame :: "makeStreamFrame \<Rightarrow> frame \<Rightarrow> unit outcome \<times> makeStreamFrame" where
  "MakeStream_FromFrame r f =
     bindR (ValidateKind FrameKindMakeStream True f, r) (\<lambda>_ r.
     bindR (ValidateSize 0 f, r) (\<lambda>_ r. (Ok (), r\<lparr>makeStreamID := StreamID f\<rparr>)))"

definition ResetStream_IntoFrame :: "resetStreamFrame \<Rightarrow> frame" where
  "ResetStream_IntoFrame r =
     \<lparr>StreamID = resetStreamID r, FrameKind = FrameKindResetStream, Flags = 0, Length = 4,
      Payload = PutUint32 (resetErrorCode r)\<rparr>"

definition ResetStream_FromFrame :: "resetStreamFrame \<Rightarrow> frame \<Rightarrow> unit outcome \<times> resetStreamFrame" where
  "ResetStream_FromFrame r f =
     bindR (ValidateKind FrameKindResetStream True f, r) (\<lambda>_ r.
     bindR (ValidateSize 4 f, r) (\<lambda>_ r.
       let r = r\<lparr>resetStreamID := StreamID f\<rparr> in
       bindR (Uint32 (Payload f), r) (\<lambda>c r. (Ok (), r\<lparr>resetErrorCode := c\<rparr>))))"

definition Data_IntoFrame :: "dataFrame \<Rightarrow> frame" where
  "Data_IntoFrame d =
     \<lparr>StreamID = dataStreamID d, FrameKind = FrameKindData,
      Flags = set_flag (EndData d) 1 (set_flag (EndStream d) 0 0),
      Length = of_nat (length (dataPayload d)), Payload = dataPayload d\<rparr>"

definition Data_FromFrame :: "dataFrame \<Rightarrow> frame \<Rightarrow> unit outcome \<times> dataFrame" where
  "Data_FromFrame d f =
     bindR (ValidateKind FrameKindData True f, d) (\<lambda>_ d.
       (Ok (), d\<lparr>dataStreamID := StreamID f, EndStream := has_flag 0 (Flags f), EndData := has_flag 1 (Flags f),
                  dataPayload := Payload f\<rparr>))"

section \<open>The contract of the interface Framer\<close>

text \<open>
  \<open>valid\<close> says which values of the typed frame are meant to be sent. \<open>into_sized\<close>: the length field is right;
  \<open>from_into\<close>: receiving what was sent fills any struct with the same value; \<open>from_mismatch\<close>: a frame of another
  kind is refused and leaves the struct alone; \<open>from_total\<close>: on a frame whose length field is right,
  \<open>FromFrame\<close> returns (it does not index out of range).
\<close>

locale framer =
  fixes IntoFrame :: "'m \<Rightarrow> frame"
    and FromFrame :: "'m \<Rightarrow> frame \<Rightarrow> unit outcome \<times> 'm"
    and kind :: frameKind
    and valid :: "'m \<Rightarrow> bool"
  assumes into_sized: "valid m \<Longrightarrow> frame_sized (IntoFrame m)"
    and into_kind: "FrameKind (IntoFrame m) = kind"
    and kind_known: "frameFromByte kind = Some kind"
    and from_into: "valid m \<Longrightarrow> FromFrame m0 (IntoFrame m) = (Ok (), m)"
    and from_mismatch: "FrameKind f \<noteq> kind \<Longrightarrow> FromFrame m0 f = (Fail (FrameTypeMismatchError kind (FrameKind f)), m0)"
    and from_total: "frame_sized f \<Longrightarrow> returns (fst (FromFrame m0 f))"
begin

lemma into_known: "frame_known (IntoFrame m)"
  by (simp add: frame_known_def into_kind kind_known)

lemma from_Ok_kind: "FromFrame m0 f = (Ok (), m) \<Longrightarrow> FrameKind f = kind"
  by (rule ccontr) (simp add: from_mismatch)

lemma into_inject: "valid m \<Longrightarrow> valid m' \<Longrightarrow> IntoFrame m = IntoFrame m' \<longleftrightarrow> m = m'"
  by (metis from_into snd_conv)

text \<open>The round trip through a serialised frame, compressed or not, when the receiver decompresses.\<close>

lemma from_Decompress_Bytes:
  assumes "flate_ok z" and "valid m" and "Bytes z method (IntoFrame m) = (Ok bs, f)"
  shows "Frame_Decompress z method f = (Ok (), IntoFrame m)"
    and "FromFrame m0 (snd (Frame_Decompress z method f)) = (Ok (), m)"
  using Decompress_Bytes [OF assms(1) into_sized [OF assms(2)] assms(3)] from_into [OF assms(2)] by simp_all

end

definition Hello_valid :: "helloFrame \<Rightarrow> bool" where
  "Hello_valid s \<longleftrightarrow> (MaxConcurrentStreams s \<noteq> 0 \<longrightarrow> helloAck s)"

definition Ping_valid :: "pingFrame \<Rightarrow> bool" where
  "Ping_valid p \<longleftrightarrow> length (pingPayload p) = 8"

definition GoAway_valid :: "goAwayFrame \<Rightarrow> bool" where
  "GoAway_valid g \<longleftrightarrow> length (AdditionalData g) + 8 < 65536"

definition MakeStream_valid :: "makeStreamFrame \<Rightarrow> bool" where
  "MakeStream_valid r \<longleftrightarrow> makeStreamID r \<noteq> 0"

definition ResetStream_valid :: "resetStreamFrame \<Rightarrow> bool" where
  "ResetStream_valid r \<longleftrightarrow> resetStreamID r \<noteq> 0"

definition Data_valid :: "dataFrame \<Rightarrow> bool" where
  "Data_valid d \<longleftrightarrow> dataStreamID d \<noteq> 0 \<and> length (dataPayload d) < 65536"

lemma Uint32_total: "4 \<le> length b \<Longrightarrow> \<exists>n. Uint32 b = Ok n"
  by (cases b rule: Uint32.cases) auto

interpretation hello: framer Hello_IntoFrame Hello_FromFrame FrameKindHello Hello_valid
proof
  fix f :: frame and m0
  assume "frame_sized f"
  then have "Length f = 4 \<Longrightarrow> length (Payload f) = 4" by (simp add: frame_sized_def)
  then have "Length f = 4 \<Longrightarrow> \<exists>n. Uint32 (Payload f) = Ok n" using Uint32_total by simp
  then show "returns (fst (Hello_FromFrame m0 f))"
    by (auto simp: Hello_FromFrame_def ValidateKind_def Let_def)
qed (auto simp: Hello_IntoFrame_def Hello_FromFrame_def Hello_valid_def frame_sized_def frameFromByte_def
    ValidateKind_def)

interpretation ping: framer Ping_IntoFrame Ping_FromFrame FrameKindPing Ping_valid
  by unfold_locales
    (auto simp: Ping_IntoFrame_def Ping_FromFrame_def Ping_valid_def frame_sized_def frameFromByte_def
      ValidateKind_def ValidateSize_def)

interpretation goaway: framer GoAway_IntoFrame GoAway_FromFrame FrameKindGoAway GoAway_valid
proof
  fix f :: frame and m0
  assume "frame_sized f"
  then have "\<not> Length f < 8 \<Longrightarrow> 8 \<le> length (Payload f)" by (simp add: frame_sized_def word_less_nat_alt)
  then have "\<not> Length f < 8 \<Longrightarrow> (\<exists>n. Uint32 (Payload f) = Ok n) \<and> (\<exists>c. Uint32 (drop 4 (Payload f)) = Ok c) \<and> 8 \<le> length (Payload f)"
    using Uint32_total [of "Payload f"] Uint32_total [of "drop 4 (Payload f)"] by simp
  then show "returns (fst (GoAway_FromFrame m0 f))"
    by (auto simp: GoAway_FromFrame_def ValidateKind_def slice_from_def Let_def)
next
  fix m m0
  assume v: "GoAway_valid m"
  have "\<not> (of_nat (length (AdditionalData m) + 8) :: u16) < 8"
    using v by (simp add: GoAway_valid_def word_less_nat_alt unat_of_nat_small del: of_nat_add)
  then show "GoAway_FromFrame m0 (GoAway_IntoFrame m) = (Ok (), m)"
    by (simp add: GoAway_FromFrame_def GoAway_IntoFrame_def ValidateKind_def slice_from_def Let_def add.commute)
qed (auto simp: GoAway_IntoFrame_def GoAway_FromFrame_def GoAway_valid_def frame_sized_def frameFromByte_def
    ValidateKind_def Let_def unat_of_nat_small simp del: of_nat_add)

interpretation makestream: framer MakeStream_IntoFrame MakeStream_FromFrame FrameKindMakeStream MakeStream_valid
  by unfold_locales
    (auto simp: MakeStream_IntoFrame_def MakeStream_FromFrame_def MakeStream_valid_def frame_sized_def
      frameFromByte_def ValidateKind_def ValidateSize_def)

interpretation resetstream: framer ResetStream_IntoFrame ResetStream_FromFrame FrameKindResetStream ResetStream_valid
proof
  fix f :: frame and m0
  assume "frame_sized f"
  then have "Length f = 4 \<Longrightarrow> length (Payload f) = 4" by (simp add: frame_sized_def)
  then have "Length f = 4 \<Longrightarrow> \<exists>n. Uint32 (Payload f) = Ok n" using Uint32_total by simp
  then show "returns (fst (ResetStream_FromFrame m0 f))"
    by (auto simp: ResetStream_FromFrame_def ValidateKind_def ValidateSize_def Let_def)
qed (auto simp: ResetStream_IntoFrame_def ResetStream_FromFrame_def ResetStream_valid_def frame_sized_def
    frameFromByte_def ValidateKind_def ValidateSize_def)

interpretation data: framer Data_IntoFrame Data_FromFrame FrameKindData Data_valid
  by unfold_locales
    (auto simp: Data_IntoFrame_def Data_FromFrame_def Data_valid_def frame_sized_def frameFromByte_def
      ValidateKind_def unat_of_nat_small)

text \<open>The conditions are needed: a frame that is not well-formed in its stream or its limit is refused by the receiver.\<close>

lemma invalid_refused:
  "\<not> Hello_valid h \<Longrightarrow> \<exists>e h'. Hello_FromFrame h0 (Hello_IntoFrame h) = (Fail e, h')"
  "\<not> MakeStream_valid m \<Longrightarrow> \<exists>e m'. MakeStream_FromFrame m0 (MakeStream_IntoFrame m) = (Fail e, m')"
  "\<not> ResetStream_valid s \<Longrightarrow> \<exists>e s'. ResetStream_FromFrame s0 (ResetStream_IntoFrame s) = (Fail e, s')"
  "dataStreamID d = 0 \<Longrightarrow> \<exists>e d'. Data_FromFrame d0 (Data_IntoFrame d) = (Fail e, d')"
  by (auto simp: Hello_valid_def Hello_FromFrame_def Hello_IntoFrame_def MakeStream_valid_def MakeStream_FromFrame_def MakeStream_IntoFrame_def
      ResetStream_valid_def ResetStream_FromFrame_def ResetStream_IntoFrame_def Data_FromFrame_def Data_IntoFrame_def ValidateKind_def Let_def)

end
