(* ===== verification/Wire_Data.thy ===== *)
theory Wire_Data
  imports Wire_Frame
begin

text \<open>
  Splitting a buffer into DATA frames (\<^verbatim>\<open>src/wire/data.go\<close>): the loop of \<open>DataFramesFromBuffer\<close>, and
  that the frames carry the buffer in order, fit the 16-bit length field and mark the last one. The flag that
  ends the stream is put on every frame, not only on the last.
\<close>

definition maxPayload :: nat where
  "maxPayload = 65535"

definition mkDataFrame :: "u32 \<Rightarrow> bool \<Rightarrow> bool \<Rightarrow> bytes \<Rightarrow> dataFrame" where
  "mkDataFrame streamID endData endStream payload =
     \<lparr>dataStreamID = streamID, EndData = endData, EndStream = endStream, dataPayload = payload\<rparr>"

text \<open>The loop, from \<open>written\<close> on. It is entered with \<open>written < bufLen\<close>.\<close>

function DataFrames_loop :: "u32 \<Rightarrow> bool \<Rightarrow> bytes \<Rightarrow> nat \<Rightarrow> dataFrame list" where
  "DataFrames_loop streamID endStream buffer written =
     (let bufLen = length buffer;
          toWrite = min (bufLen - written) maxPayload;
          endData = (bufLen - written - toWrite = 0);
          fr = mkDataFrame streamID endData endStream (take toWrite (drop written buffer))
      in if endData then [fr] else fr # DataFrames_loop streamID endStream buffer (written + toWrite))"
  by pat_completeness auto
termination
  by (relation "measure (\<lambda>(_, _, buffer, written). length buffer - written)") (auto simp: maxPayload_def)

declare DataFrames_loop.simps [simp del]

definition DataFramesFromBuffer :: "u32 \<Rightarrow> bool \<Rightarrow> bytes \<Rightarrow> dataFrame list" where
  "DataFramesFromBuffer streamID endStream buffer =
     (if length buffer \<le> maxPayload then [mkDataFrame streamID True endStream buffer]
      else mkDataFrame streamID False endStream (take maxPayload buffer)
             # DataFrames_loop streamID endStream buffer maxPayload)"

text \<open>The comparison with the limit in binary arithmetic, for evaluation.\<close>

lemma DataFramesFromBuffer_code [code]:
  "DataFramesFromBuffer streamID endStream buffer =
     (if int (length buffer) \<le> 65535 then [mkDataFrame streamID True endStream buffer]
      else mkDataFrame streamID False endStream (take maxPayload buffer)
             # DataFrames_loop streamID endStream buffer maxPayload)"
  by (simp add: DataFramesFromBuffer_def maxPayload_def)

lemma mkDataFrame_sel [simp]:
  "dataStreamID (mkDataFrame i e s p) = i" "EndData (mkDataFrame i e s p) = e"
  "EndStream (mkDataFrame i e s p) = s" "dataPayload (mkDataFrame i e s p) = p"
  by (simp_all add: mkDataFrame_def)

lemma DataFrames_loop_last:
  "length b - w \<le> maxPayload \<Longrightarrow> DataFrames_loop i e b w = [mkDataFrame i True e (drop w b)]"
  by (simp add: DataFrames_loop.simps [of i e b w] Let_def)

lemma DataFrames_loop_next:
  "\<not> length b - w \<le> maxPayload \<Longrightarrow>
     DataFrames_loop i e b w = mkDataFrame i False e (take maxPayload (drop w b)) # DataFrames_loop i e b (w + maxPayload)"
  by (auto simp: DataFrames_loop.simps [of i e b w] Let_def)

text \<open>Induction on the blocks still to be written.\<close>

lemma DataFrames_loop_induct [case_names final more]:
  assumes "\<And>w. length b - w \<le> maxPayload \<Longrightarrow> P w"
    and "\<And>w. \<not> length b - w \<le> maxPayload \<Longrightarrow> P (w + maxPayload) \<Longrightarrow> P w"
  shows "P w"
proof (induction "length b - w" arbitrary: w rule: less_induct)
  case less
  show ?case
  proof (cases "length b - w \<le> maxPayload")
    case False
    then have "length b - (w + maxPayload) < length b - w" by (simp add: maxPayload_def)
    from assms(2) [OF False less [OF this]] show ?thesis .
  qed (rule assms(1))
qed

lemma DataFrames_loop_payload: "concat (map dataPayload (DataFrames_loop i e b w)) = drop w b"
proof (induction w rule: DataFrames_loop_induct [where b = b])
  case (final w)
  then show ?case by (simp add: DataFrames_loop_last)
next
  case (more w)
  have "take maxPayload (drop w b) @ drop (w + maxPayload) b = drop w b"
    by (metis add.commute append_take_drop_id drop_drop)
  with more show ?case by (simp add: DataFrames_loop_next)
qed

lemma DataFrames_loop_frames:
  "\<forall>fr\<in>set (DataFrames_loop i e b w). dataStreamID fr = i \<and> EndStream fr = e \<and> length (dataPayload fr) \<le> maxPayload"
proof (induction w rule: DataFrames_loop_induct [where b = b])
  case (final w)
  then show ?case by (simp add: DataFrames_loop_last)
next
  case (more w)
  then show ?case by (simp add: DataFrames_loop_next)
qed

text \<open>Exactly the last frame has the flag that ends the data.\<close>

definition last_ends :: "dataFrame list \<Rightarrow> bool" where
  "last_ends frs \<longleftrightarrow> frs \<noteq> [] \<and> EndData (last frs) \<and> (\<forall>f\<in>set (butlast frs). \<not> EndData f)"

lemma last_ends_simps [simp]:
  "last_ends [fr] \<longleftrightarrow> EndData fr"
  "frs \<noteq> [] \<Longrightarrow> last_ends (fr # frs) \<longleftrightarrow> \<not> EndData fr \<and> last_ends frs"
  by (auto simp: last_ends_def)

lemma last_ends_nonempty: "last_ends frs \<Longrightarrow> frs \<noteq> []"
  by (simp add: last_ends_def)

lemma DataFrames_loop_EndData: "last_ends (DataFrames_loop i e b w)"
proof (induction w rule: DataFrames_loop_induct [where b = b])
  case (final w)
  then show ?case by (simp add: DataFrames_loop_last)
next
  case (more w)
  then show ?case by (simp add: DataFrames_loop_next last_ends_nonempty)
qed

lemma DataFrames_payload: "concat (map dataPayload (DataFramesFromBuffer i e b)) = b"
  by (simp add: DataFramesFromBuffer_def DataFrames_loop_payload)

lemma DataFrames_frames:
  "fr \<in> set (DataFramesFromBuffer i e b) \<Longrightarrow>
     dataStreamID fr = i \<and> EndStream fr = e \<and> length (dataPayload fr) \<le> maxPayload"
  using DataFrames_loop_frames [of i e b maxPayload] by (auto simp: DataFramesFromBuffer_def split: if_splits)

lemma DataFrames_EndData: "last_ends (DataFramesFromBuffer i e b)"
  using DataFrames_loop_EndData [of i e b maxPayload]
  by (simp add: DataFramesFromBuffer_def last_ends_nonempty)

text \<open>The number of frames: one per started block of 65535 bytes, and one for an empty buffer.\<close>

lemma blocks_Suc: "x = y + maxPayload \<Longrightarrow> x div maxPayload = Suc (y div maxPayload)"
  by (simp add: maxPayload_def)

lemma DataFrames_loop_length:
  "w < length b \<Longrightarrow> length (DataFrames_loop i e b w) = (length b - w + (maxPayload - 1)) div maxPayload"
proof (induction w rule: DataFrames_loop_induct [where b = b])
  case (final w)
  then have "(length b - w + (maxPayload - 1)) div maxPayload = 1" by (simp add: maxPayload_def)
  with final show ?case by (simp add: DataFrames_loop_last)
next
  case (more w)
  then have "length b - w + (maxPayload - 1) = (length b - (w + maxPayload) + (maxPayload - 1)) + maxPayload" by simp
  then have "(length b - w + (maxPayload - 1)) div maxPayload = Suc ((length b - (w + maxPayload) + (maxPayload - 1)) div maxPayload)"
    by (rule blocks_Suc)
  with more show ?case by (simp add: DataFrames_loop_next)
qed

lemma DataFrames_length:
  "length (DataFramesFromBuffer i e b) = max 1 ((length b + (maxPayload - 1)) div maxPayload)"
proof (cases "length b \<le> maxPayload")
  case True
  then have "(length b + (maxPayload - 1)) div maxPayload \<le> 1" by (simp add: maxPayload_def)
  with True show ?thesis by (simp add: DataFramesFromBuffer_def)
next
  case False
  then have "length b + (maxPayload - 1) = (length b - maxPayload + (maxPayload - 1)) + maxPayload" by simp
  then have "(length b + (maxPayload - 1)) div maxPayload = Suc ((length b - maxPayload + (maxPayload - 1)) div maxPayload)"
    by (rule blocks_Suc)
  with False show ?thesis by (simp add: DataFramesFromBuffer_def DataFrames_loop_length)
qed

lemma DataFrames_valid:
  "i \<noteq> 0 \<Longrightarrow> fr \<in> set (DataFramesFromBuffer i e b) \<Longrightarrow> Data_valid fr"
  by (auto simp: Data_valid_def maxPayload_def dest!: DataFrames_frames)

end
