(* ===== verification/Wire_Reader.thy ===== *)
theory Wire_Reader
  imports Wire_Frame
begin

text \<open>
  The frame reader (\<^verbatim>\<open>src/wire/frame_reader.go\<close>). Its buffer \<^verbatim>\<open>tmp\<close> is scratch space: the header is
  decoded before the payload overwrites it, and the payload is cloned; so the state of the reader is
  the \<^verbatim>\<open>io.Reader\<close> below it.
\<close>

definition readSize :: "nat \<Rightarrow> reader \<Rightarrow> bytes outcome \<times> reader" where
  "readSize n r = (if n = 0 then (Ok [], r) else ReadFull n r)"

abbreviation (input) magicLen :: nat where "magicLen \<equiv> length magic"
abbreviation (input) streamIDOffset :: nat where "streamIDOffset \<equiv> magicLen"
abbreviation (input) frameKindOffset :: nat where "frameKindOffset \<equiv> streamIDOffset + 4"
abbreviation (input) flagsOffset :: nat where "flagsOffset \<equiv> frameKindOffset + 1"
abbreviation (input) lengthOffset :: nat where "lengthOffset \<equiv> flagsOffset + 1"
abbreviation (input) payloadOffset :: nat where "payloadOffset \<equiv> lengthOffset + 2"

text \<open>\<^verbatim>\<open>buf[i:j]\<close>, inside the bounds.\<close>

definition between :: "nat \<Rightarrow> nat \<Rightarrow> bytes \<Rightarrow> bytes" where
  "between i j buf = take (j - i) (drop i buf)"

text \<open>The part of \<open>Read\<close> after the header is in \<^verbatim>\<open>buf\<close>.\<close>

definition FrameReader_decode :: "bytes \<Rightarrow> reader \<Rightarrow> frame outcome \<times> reader" where
  "FrameReader_decode buf r =
     (if take magicLen buf \<noteq> magic then (Fail (Errorf ''magic number mismatch''), r)
      else
        let fk = between frameKindOffset flagsOffset buf ! 0 in
        case frameFromByte fk of
          None \<Rightarrow> (Fail (UnknownFrameKindError fk), r)
        | Some _ \<Rightarrow>
            bindR (Uint32 (between streamIDOffset frameKindOffset buf), r) (\<lambda>sid r.
            bindR (Uint16 (between lengthOffset payloadOffset buf), r) (\<lambda>len r.
            bindR (readSize (unat len) r) (\<lambda>payload r.
              (Ok \<lparr>StreamID = sid, FrameKind = fk, Flags = between flagsOffset lengthOffset buf ! 0,
                   Length = len, Payload = payload\<rparr>, r)))))"

definition FrameReader_Read :: "reader \<Rightarrow> frame outcome \<times> reader" where
  "FrameReader_Read r = bindR (readSize (magicLen + 4 + 1 + 1 + 2) r) FrameReader_decode"

definition frame_bytes :: "frame \<Rightarrow> bytes" where
  "frame_bytes f = magic @ PutUint32 (StreamID f) @ [FrameKind f, Flags f] @ PutUint16 (Length f) @ Payload f"

definition frame_ok :: "frame \<Rightarrow> bool" where
  "frame_ok f \<longleftrightarrow> frame_sized f \<and> frame_known f"

lemma Bytes_frame_bytes: "frame_sized f \<Longrightarrow> Bytes z CompressionMethodNone f = (Ok (frame_bytes f), f)"
  by (simp add: Bytes_none frame_bytes_def)

lemma readSize_flat: "rflat r = bs @ ys \<Longrightarrow> \<exists>r'. readSize (length bs) r = (Ok bs, r') \<and> rflat r' = ys"
  using ReadFull_flat [of "length bs" r] by (auto simp: readSize_def)

lemma header_parts:
  defines "buf sid fk fl len \<equiv> magic @ PutUint32 sid @ [fk, fl] @ PutUint16 len"
  shows "length (buf sid fk fl len) = magicLen + 4 + 1 + 1 + 2" and "take magicLen (buf sid fk fl len) = magic"
    and "between frameKindOffset flagsOffset (buf sid fk fl len) ! 0 = fk"
    and "between streamIDOffset frameKindOffset (buf sid fk fl len) = PutUint32 sid"
    and "between lengthOffset payloadOffset (buf sid fk fl len) = PutUint16 len"
    and "between flagsOffset lengthOffset (buf sid fk fl len) ! 0 = fl"
  by (simp_all add: buf_def between_def magic_def PutUint32_def PutUint16_def)

interpretation framerd: chunkfree frame_bytes FrameReader_Read frame_ok
proof
  fix f r ys
  assume ok: "frame_ok f" and flat: "rflat r = frame_bytes f @ ys"
  let ?h = "magic @ PutUint32 (StreamID f) @ [FrameKind f, Flags f] @ PutUint16 (Length f)"
  from flat have "rflat r = ?h @ (Payload f @ ys)" by (simp add: frame_bytes_def)
  from readSize_flat [OF this] obtain r1 where h: "readSize (magicLen + 4 + 1 + 1 + 2) r = (Ok ?h, r1)"
    and "rflat r1 = Payload f @ ys" unfolding header_parts(1) by blast
  from readSize_flat [OF this(2)] obtain r2 where p: "readSize (length (Payload f)) r1 = (Ok (Payload f), r2)"
    and flat2: "rflat r2 = ys" by blast
  from ok obtain k where known: "frameFromByte (FrameKind f) = Some k" and sized: "unat (Length f) = length (Payload f)"
    by (auto simp: frame_ok_def frame_known_def frame_sized_def)
  have "FrameReader_Read r = (Ok f, r2)"
    by (simp only: FrameReader_Read_def FrameReader_decode_def h bindR.simps header_parts Let_def known sized option.case Uint_PutUint_Nil p) simp
  with flat2 show "\<exists>r'. FrameReader_Read r = (Ok f, r') \<and> rflat r' = ys" by blast
qed

text \<open>What the reader returns is always a frame of a known kind whose length field is right.\<close>

lemma FrameReader_Read_ok: "FrameReader_Read r = (Ok f, r') \<Longrightarrow> frame_ok f"
  by (auto simp: FrameReader_Read_def FrameReader_decode_def bindR_eq_Ok_iff Let_def frame_ok_def frame_sized_def frame_known_def readSize_def
      dest: ReadFull_Ok_rsize split: if_splits option.splits)

text \<open>On a source that ends, the reader returns a frame or an error.\<close>

lemma readSize_ends: "ends r \<Longrightarrow> returns (fst (readSize n r)) \<and> ends (snd (readSize n r))"
  by (simp add: readSize_def ReadFull_ends)

lemma readSize_length: "readSize n r = (Ok bs, r') \<Longrightarrow> length bs = n"
  by (auto simp: readSize_def dest: ReadFull_Ok_rsize split: if_splits)

lemma Uint16_total: "2 \<le> length b \<Longrightarrow> \<exists>n. Uint16 b = Ok n"
  by (cases b rule: Uint16.cases) auto

lemma FrameReader_decode_ends:
  assumes "ends r" and "length buf = magicLen + 4 + 1 + 1 + 2"
  shows "returns (fst (FrameReader_decode buf r)) \<and> ends (snd (FrameReader_decode buf r))"
proof -
  obtain sid where sid: "Uint32 (between streamIDOffset frameKindOffset buf) = Ok sid"
    using Uint32_total [of "between streamIDOffset frameKindOffset buf"] assms(2) by (auto simp: between_def)
  obtain n where n: "Uint16 (between lengthOffset payloadOffset buf) = Ok n"
    using Uint16_total [of "between lengthOffset payloadOffset buf"] assms(2) by (auto simp: between_def)
  show ?thesis
    using readSize_ends [OF assms(1), of "unat n"] assms(1)
    by (cases "readSize (unat n) r" rule: outcome_pair_cases;
        cases "frameFromByte (between frameKindOffset flagsOffset buf ! 0)")
      (simp_all only: FrameReader_decode_def sid n Let_def bindR.simps option.case split: if_split, simp_all)
qed

lemma FrameReader_Read_ends:
  assumes "ends r"
  shows "returns (fst (FrameReader_Read r)) \<and> ends (snd (FrameReader_Read r))"
proof (cases "readSize (magicLen + 4 + 1 + 1 + 2) r" rule: outcome_pair_cases)
  case (Ok buf r1)
  with readSize_ends [OF assms] have "ends r1" by (metis snd_conv)
  from FrameReader_decode_ends [OF this readSize_length [OF Ok]] show ?thesis
    unfolding FrameReader_Read_def Ok bindR.simps .
next
  case (Fail e r1)
  with readSize_ends [OF assms] have "ends r1" by (metis snd_conv)
  then show ?thesis unfolding FrameReader_Read_def Fail by simp
next
  case (Panic m r1)
  with readSize_ends [OF assms] have "returns (Panic m :: bytes outcome)" by (metis fst_conv)
  then show ?thesis by simp
next
  case (Blocks r1)
  with readSize_ends [OF assms] have "returns (Blocks :: bytes outcome)" by (metis fst_conv)
  then show ?thesis by simp
qed

section \<open>Reading what has arrived\<close>


lemma readSize_source: "source t r \<Longrightarrow> source t (snd (readSize n r))"
  using ReadFull_loop_Base by (auto simp: source_def readSize_def ReadFull_def)

lemma FrameReader_decode_source: "source t r \<Longrightarrow> source t (snd (FrameReader_decode b r))"
  unfolding FrameReader_decode_def Let_def
  by (auto split: option.split intro!: bindR_keeps [where Q = "source t"] readSize_source)

lemma FrameReader_Read_source: "source t r \<Longrightarrow> source t (snd (FrameReader_Read r))"
  unfolding FrameReader_Read_def
  by (intro bindR_keeps [where Q = "source t"] readSize_source FrameReader_decode_source)

lemma readSize_waits: "length (concat cs) < n \<Longrightarrow> fst (readSize n (Base cs None)) = Blocks"
  using ReadFull_loop_waits [of "[]" cs n] by (simp add: readSize_def ReadFull_def)

text \<open>Less than a frame has arrived.\<close>

lemma FrameReader_Read_waits:
  assumes ok: "frame_ok f" and r: "source None r" and part: "frame_bytes f = rflat r @ ys" "ys \<noteq> []"
  shows "fst (FrameReader_Read r) = Blocks"
proof -
  let ?h = "magic @ PutUint32 (StreamID f) @ [FrameKind f, Flags f] @ PutUint16 (Length f)"
  obtain cs where cs: "r = Base cs None" using r by (auto simp: source_def)
  show ?thesis
  proof (cases "length (rflat r) < length ?h")
    case True
    then have "fst (readSize (magicLen + 4 + 1 + 1 + 2) r) = Blocks"
      unfolding header_parts(1) cs by (intro readSize_waits) simp
    then show ?thesis by (cases "readSize (magicLen + 4 + 1 + 1 + 2) r") (simp add: FrameReader_Read_def)
  next
    case False
    have "?h @ Payload f = rflat r @ ys" using part(1) by (simp add: frame_bytes_def)
    with False obtain p where p: "rflat r = ?h @ p" "Payload f = p @ ys"
      using append_longer [of ?h "Payload f" "rflat r" ys] by (auto simp del: append.simps append_assoc)
    from readSize_flat [OF p(1)] obtain r1 where h: "readSize (magicLen + 4 + 1 + 1 + 2) r = (Ok ?h, r1)"
      and r1: "rflat r1 = p" unfolding header_parts(1) by blast
    have "source None r1" using readSize_source [OF r, of "magicLen + 4 + 1 + 1 + 2"] h by simp
    moreover have sized: "unat (Length f) = length (Payload f)" using ok by (simp add: frame_ok_def frame_sized_def)
    ultimately have "fst (readSize (length (Payload f)) r1) = Blocks"
      using readSize_waits [of _ "length (Payload f)"] p(2) part(2) r1 by (auto simp: source_def)
    moreover obtain k where known: "frameFromByte (FrameKind f) = Some k"
      using ok by (auto simp: frame_ok_def frame_known_def)
    ultimately show ?thesis
      by (cases "readSize (length (Payload f)) r1")
        (simp only: FrameReader_Read_def FrameReader_decode_def h bindR.simps header_parts Let_def known sized option.case Uint_PutUint_Nil, simp)
  qed
qed

text \<open>Nothing is left and the peer has closed.\<close>

lemma FrameReader_Read_end:
  assumes "source (Some e) r" and "rflat r = []"
  shows "fst (FrameReader_Read r) = Fail e \<and> rflat (snd (FrameReader_Read r)) = []"
proof -
  obtain cs where cs: "r = Base cs (Some e)" and "concat cs = []" using assms by (auto simp: source_def)
  then have "pending cs = []" using pending_none [of cs] by (auto simp: filter_empty_conv)
  then show ?thesis
    by (simp add: cs FrameReader_Read_def readSize_def ReadFull_def ReadFull_loop.simps)
qed

lemma frame_bytes_unique: "frame_ok f \<Longrightarrow> frame_ok g \<Longrightarrow> frame_bytes f @ xs = frame_bytes g @ ys \<Longrightarrow> f = g \<and> xs = ys"
proof -
  assume ok: "frame_ok f" "frame_ok g" and eq: "frame_bytes f @ xs = frame_bytes g @ ys"
  let ?r = "Base [frame_bytes f @ xs] None"
  have "rflat ?r = frame_bytes f @ xs" "rflat ?r = frame_bytes g @ ys" using eq by simp_all
  with framerd.dec_flat [OF ok(1)] framerd.dec_flat [OF ok(2)] show "f = g \<and> xs = ys"
    by (metis outcome.inject(1) prod.inject)
qed

lemma frames_prefix:
  assumes "\<forall>f\<in>set gs. frame_ok f" and "\<forall>f\<in>set fs. frame_ok f" and "concat (map frame_bytes fs) = concat (map frame_bytes gs) @ ys"
  shows "prefix gs fs"
  using assms
proof (induction gs arbitrary: fs)
  case (Cons g gs)
  then obtain f fs' where fs: "fs = f # fs'" by (cases fs) (auto simp: frame_bytes_def magic_def)
  with Cons.prems frame_bytes_unique [of f g "concat (map frame_bytes fs')" "concat (map frame_bytes gs) @ ys"]
  have "f = g" "concat (map frame_bytes fs') = concat (map frame_bytes gs) @ ys" by simp_all
  with Cons fs show ?case by simp
qed simp

end
