(* ===== verification/Block_Reader.thy ===== *)
theory Block_Reader
  imports Go_IO
begin

text \<open>
  The queue of received blocks of a stream (\<^verbatim>\<open>src/wire/block_reader.go\<close>). The first part runs each operation
  without interruption, and shows that the queue is an \<^verbatim>\<open>io.Reader\<close> over the bytes enqueued. The second part
  takes the mutex and the channel apart, with one enqueuing and one reading goroutine in every
  interleaving: bytes come out in the order they went in, and the two can wait for each other for ever when
  the channel is full.
\<close>

section \<open>Operations\<close>

text \<open>\<^verbatim>\<open>buf\<close> is \<open>None\<close> for a nil slice.\<close>

record blockReader =
  blocks :: "bytes list"
  buf :: "bytes option"
  closed :: bool

definition chanCap :: nat where
  "chanCap = 128"

definition NewBlockReader :: blockReader where
  "NewBlockReader = \<lparr>blocks = [], buf = None, closed = False\<rparr>"

definition internalClose :: "blockReader \<Rightarrow> blockReader" where
  "internalClose r = (if closed r then r else r\<lparr>closed := True\<rparr>)"

definition Enqueue :: "bytes \<Rightarrow> blockReader \<Rightarrow> unit outcome \<times> blockReader" where
  "Enqueue d r =
     (if length d = 0 then (Ok (), r)
      else if closed r then (Ok (), r)
      else if length (blocks r) < chanCap then (Ok (), r\<lparr>blocks := blocks r @ [d]\<rparr>)
      else (Blocks, r))"

definition BlockReader_Close :: "blockReader \<Rightarrow> unit outcome \<times> blockReader" where
  "BlockReader_Close r = (Ok (), internalClose r)"

definition clearBuffer :: "blockReader \<Rightarrow> blockReader" where
  "clearBuffer r = (case buf r of None \<Rightarrow> r | Some b \<Rightarrow> if length b = 0 then r\<lparr>buf := None\<rparr> else r)"

text \<open>The tail shared by \<open>TryRead\<close> and \<open>Read\<close>: copy what fits, keep the rest.\<close>

definition copy_out :: "nat \<Rightarrow> bytes \<Rightarrow> blockReader \<Rightarrow> bytes \<times> blockReader" where
  "copy_out intoLen b r =
     (if intoLen \<le> length b then (take intoLen b, clearBuffer (r\<lparr>buf := Some (drop intoLen b)\<rparr>))
      else (b, clearBuffer (r\<lparr>buf := Some []\<rparr>)))"

text \<open>\<open>TryRead\<close> returns whether there was something to return, and the bytes or the error.\<close>

definition TryRead :: "nat \<Rightarrow> blockReader \<Rightarrow> (bool \<times> bytes outcome) \<times> blockReader" where
  "TryRead intoLen r =
     (case buf r of
        None \<Rightarrow>
          if closed r then ((True, Fail EOF), clearBuffer r)
          else (case blocks r of
             [] \<Rightarrow> ((False, Ok []), clearBuffer r)
           | b # bl \<Rightarrow> let (bs, r) = copy_out intoLen b (r\<lparr>blocks := bl\<rparr>) in ((True, Ok bs), r))
      | Some b \<Rightarrow> let (bs, r) = copy_out intoLen b r in ((True, Ok bs), r))"

definition BlockReader_Read :: "nat \<Rightarrow> blockReader \<Rightarrow> bytes outcome \<times> blockReader" where
  "BlockReader_Read intoLen r =
     (case buf r of
        None \<Rightarrow>
          if closed r then (Fail EOF, clearBuffer r)
          else (case blocks r of
             [] \<Rightarrow> (Blocks, r)
           | b # bl \<Rightarrow> let (bs, r) = copy_out intoLen b (r\<lparr>blocks := bl\<rparr>) in (Ok bs, r))
      | Some b \<Rightarrow> let (bs, r) = copy_out intoLen b r in (Ok bs, r))"

section \<open>The queue as a reader\<close>

primrec opt_bytes :: "bytes option \<Rightarrow> bytes" where
  "opt_bytes None = []"
| "opt_bytes (Some b) = b"

text \<open>The bytes a reader can still get: closing drops the blocks that wait in the channel.\<close>

definition br_contents :: "blockReader \<Rightarrow> bytes" where
  "br_contents r = opt_bytes (buf r) @ (if closed r then [] else concat (blocks r))"

definition br_inv :: "blockReader \<Rightarrow> bool" where
  "br_inv r \<longleftrightarrow> [] \<notin> set (blocks r) \<and> buf r \<noteq> Some [] \<and> length (blocks r) \<le> chanCap"

lemma br_inv_New [simp]: "br_inv NewBlockReader"
  by (simp add: br_inv_def NewBlockReader_def)

lemma br_contents_New [simp]: "br_contents NewBlockReader = []"
  by (simp add: br_contents_def NewBlockReader_def)

lemma internalClose_inv [simp]: "br_inv r \<Longrightarrow> br_inv (internalClose r)"
  by (simp add: br_inv_def internalClose_def)

lemma internalClose_sel [simp]: "closed (internalClose r)" "buf (internalClose r) = buf r" "blocks (internalClose r) = blocks r"
  by (simp_all add: internalClose_def)

lemma Enqueue_inv: "br_inv r \<Longrightarrow> br_inv (snd (Enqueue d r))"
  by (auto simp: Enqueue_def br_inv_def)

lemma Enqueue_room:
  "length (blocks r) < chanCap \<Longrightarrow> \<not> closed r \<Longrightarrow>
     \<exists>r'. Enqueue d r = (Ok (), r') \<and> br_contents r' = br_contents r @ d \<and> \<not> closed r' \<and>
          length (blocks r') \<le> Suc (length (blocks r))"
  by (auto simp: Enqueue_def br_contents_def)

lemma Enqueue_Ok:
  assumes "Enqueue d r = (Ok (), r')"
  obtains "d = []" "r' = r" | "closed r" "r' = r" | "\<not> closed r" "r' = r\<lparr>blocks := blocks r @ [d]\<rparr>"
proof -
  consider "d = []" | "d \<noteq> []" "closed r" | "d \<noteq> []" "\<not> closed r" "length (blocks r) < chanCap"
    using assms by (auto simp: Enqueue_def split: if_splits)
  then show ?thesis
  proof cases
    case 1
    then show ?thesis using assms by (intro that(1)) (simp_all add: Enqueue_def)
  next
    case 2
    then show ?thesis using assms by (intro that(2)) (simp_all add: Enqueue_def)
  next
    case 3
    then show ?thesis using assms by (intro that(3)) (simp_all add: Enqueue_def)
  qed
qed

lemma copy_out_contents:
  assumes "copy_out n b r = (bs, r')"
  shows "b = bs @ opt_bytes (buf r')" and "length bs \<le> n" and "blocks r' = blocks r" and "closed r' = closed r"
    and "buf r' \<noteq> Some []" and "0 < n \<Longrightarrow> b \<noteq> [] \<Longrightarrow> bs \<noteq> []"
  using assms by (auto simp: copy_out_def clearBuffer_def split: if_splits)

lemma BlockReader_Read_cases:
  assumes "BlockReader_Read n r = (out, r')"
  obtains (Empty) "buf r = None" "closed r" "out = Fail EOF" "r' = r"
    | (Wait) "buf r = None" "\<not> closed r" "blocks r = []" "out = Blocks" "r' = r"
    | (Block) b bl bs where "buf r = None" "\<not> closed r" "blocks r = b # bl" "out = Ok bs"
        "copy_out n b (r\<lparr>blocks := bl\<rparr>) = (bs, r')"
    | (Buf) b bs where "buf r = Some b" "out = Ok bs" "copy_out n b r = (bs, r')"
  using assms by (auto simp: BlockReader_Read_def clearBuffer_def split: option.splits if_splits list.splits prod.splits)

interpretation br: io_reader BlockReader_Read br_contents br_inv
proof
  fix n r
  assume inv: "br_inv r"
  obtain out r' where rd: "BlockReader_Read n r = (out, r')" by fastforce
  then have "br_inv r'"
    by (cases rule: BlockReader_Read_cases) (use inv in \<open>auto simp: br_inv_def dest: copy_out_contents(3,5)\<close>)
  then show "br_inv (snd (BlockReader_Read n r))" by (simp add: rd)
next
  fix n r bs r'
  assume inv: "br_inv r" and rd: "BlockReader_Read n r = (Ok bs, r')"
  from rd show "br_contents r = bs @ br_contents r' \<and> length bs \<le> n"
  proof (cases rule: BlockReader_Read_cases)
    case (Block b bl bs')
    note c = copy_out_contents [OF Block(5)]
    from Block c(1) show ?thesis by (simp add: br_contents_def c(2,3,4))
  next
    case (Buf b bs')
    note c = copy_out_contents [OF Buf(3)]
    from Buf c(1) show ?thesis by (simp add: br_contents_def c(2,3,4))
  qed simp_all
next
  fix n :: nat and r
  assume inv: "br_inv r" and pos: "0 < n" and ne: "br_contents r \<noteq> []"
  obtain out r' where rd: "BlockReader_Read n r = (out, r')" by fastforce
  then have "\<exists>bs. out = Ok bs \<and> bs \<noteq> []"
  proof (cases rule: BlockReader_Read_cases)
    case (Block b bl bs)
    then show ?thesis using inv copy_out_contents(6) [OF Block(5) pos] by (auto simp: br_inv_def)
  next
    case (Buf b bs)
    then show ?thesis using inv copy_out_contents(6) [OF Buf(3) pos] by (auto simp: br_inv_def)
  qed (use ne in \<open>auto simp: br_contents_def\<close>)
  then show "\<exists>bs r'. BlockReader_Read n r = (Ok bs, r') \<and> bs \<noteq> []" using rd by blast
qed

text \<open>\<open>TryRead\<close> is \<open>Read\<close> where \<open>Read\<close> does not wait.\<close>

lemma TryRead_Read:
  "TryRead n r = (case BlockReader_Read n r of (Blocks, r') \<Rightarrow> ((False, Ok []), r') | (out, r') \<Rightarrow> ((True, out), r'))"
  by (auto simp: TryRead_def BlockReader_Read_def clearBuffer_def split: option.splits list.splits prod.splits)

section \<open>Interleavings\<close>

text \<open>
  One goroutine enqueues (the connection's read loop), one reads (the application), and either may close. A
  step is one access to the mutex or the channel. \<open>sent\<close> and \<open>got\<close> record the bytes that entered the
  channel and those handed out. The program counters: the sender is idle or holds the mutex and is about to
  send; the reader is idle, waits for the mutex, or has checked \<^verbatim>\<open>closed\<close> and receives, in Read or in
  TryRead. The buffer belongs to the reading goroutine, so that a call that finds one is one step, which
  Read and TryRead share.
\<close>

datatype sender_pc = SIdle | SSending bytes
datatype reader_pc = RIdle | RLocking nat | RReceiving nat | RTryLocking nat | RTryReceiving nat

record brsys =
  rdr :: blockReader
  locked :: bool
  spc :: sender_pc
  rpc :: reader_pc
  sent :: bytes
  got :: bytes

definition brsys_init :: brsys where
  "brsys_init = \<lparr>rdr = NewBlockReader, locked = False, spc = SIdle, rpc = RIdle, sent = [], got = []\<rparr>"

inductive br_step :: "brsys \<Rightarrow> brsys \<Rightarrow> bool" where
  enqueue_lock: "spc s = SIdle \<Longrightarrow> d \<noteq> [] \<Longrightarrow> \<not> locked s \<Longrightarrow> \<not> closed (rdr s) \<Longrightarrow>
     br_step s (s\<lparr>locked := True, spc := SSending d\<rparr>)"
| enqueue_send: "spc s = SSending d \<Longrightarrow> length (blocks (rdr s)) < chanCap \<Longrightarrow>
     br_step s (s\<lparr>rdr := (rdr s)\<lparr>blocks := blocks (rdr s) @ [d]\<rparr>, locked := False, spc := SIdle, sent := sent s @ d\<rparr>)"
| close_reader: "\<not> locked s \<Longrightarrow> br_step s (s\<lparr>rdr := internalClose (rdr s)\<rparr>)"
| read_buffered: "rpc s = RIdle \<Longrightarrow> buf (rdr s) = Some b \<Longrightarrow> copy_out n b (rdr s) = (bs, r') \<Longrightarrow>
     br_step s (s\<lparr>rdr := r', got := got s @ bs\<rparr>)"
| read_start: "rpc s = RIdle \<Longrightarrow> buf (rdr s) = None \<Longrightarrow> br_step s (s\<lparr>rpc := RLocking n\<rparr>)"
| read_closed: "rpc s = RLocking n \<Longrightarrow> \<not> locked s \<Longrightarrow> closed (rdr s) \<Longrightarrow> br_step s (s\<lparr>rpc := RIdle\<rparr>)"
| read_open: "rpc s = RLocking n \<Longrightarrow> \<not> locked s \<Longrightarrow> \<not> closed (rdr s) \<Longrightarrow> br_step s (s\<lparr>rpc := RReceiving n\<rparr>)"
| read_block: "rpc s = RReceiving n \<Longrightarrow> blocks (rdr s) = b # bl \<Longrightarrow> copy_out n b ((rdr s)\<lparr>blocks := bl\<rparr>) = (bs, r') \<Longrightarrow>
     br_step s (s\<lparr>rdr := r', rpc := RIdle, got := got s @ bs\<rparr>)"
| read_drained: "rpc s = RReceiving n \<Longrightarrow> blocks (rdr s) = [] \<Longrightarrow> closed (rdr s) \<Longrightarrow> br_step s (s\<lparr>rpc := RIdle\<rparr>)"
| try_start: "rpc s = RIdle \<Longrightarrow> buf (rdr s) = None \<Longrightarrow> br_step s (s\<lparr>rpc := RTryLocking n\<rparr>)"
| try_closed: "rpc s = RTryLocking n \<Longrightarrow> \<not> locked s \<Longrightarrow> closed (rdr s) \<Longrightarrow> br_step s (s\<lparr>rpc := RIdle\<rparr>)"
| try_open: "rpc s = RTryLocking n \<Longrightarrow> \<not> locked s \<Longrightarrow> \<not> closed (rdr s) \<Longrightarrow> br_step s (s\<lparr>rpc := RTryReceiving n\<rparr>)"
| try_block: "rpc s = RTryReceiving n \<Longrightarrow> blocks (rdr s) = b # bl \<Longrightarrow> copy_out n b ((rdr s)\<lparr>blocks := bl\<rparr>) = (bs, r') \<Longrightarrow>
     br_step s (s\<lparr>rdr := r', rpc := RIdle, got := got s @ bs\<rparr>)"
| try_nothing: "rpc s = RTryReceiving n \<Longrightarrow> blocks (rdr s) = [] \<Longrightarrow> br_step s (s\<lparr>rpc := RIdle\<rparr>)"

inductive_cases br_stepE: "br_step s s'"

inductive br_reach :: "brsys \<Rightarrow> bool" where
  br_reach_init: "br_reach brsys_init"
| br_reach_step: "br_reach s \<Longrightarrow> br_step s s' \<Longrightarrow> br_reach s'"

text \<open>In every interleaving: the bytes handed out, then the buffered ones, then the queued ones, are the
  bytes sent; the queue never exceeds its capacity; the mutex is held exactly by a goroutine that sends; and while
  the reader receives nothing is buffered.\<close>

definition brsys_inv :: "brsys \<Rightarrow> bool" where
  "brsys_inv s \<longleftrightarrow> sent s = got s @ opt_bytes (buf (rdr s)) @ concat (blocks (rdr s)) \<and> br_inv (rdr s) \<and>
     (locked s \<longleftrightarrow> spc s \<noteq> SIdle) \<and> (rpc s \<noteq> RIdle \<longrightarrow> buf (rdr s) = None) \<and> (\<forall>d. spc s = SSending d \<longrightarrow> d \<noteq> [])"

lemma brsys_inv_init: "brsys_inv brsys_init"
  by (simp add: brsys_inv_def brsys_init_def NewBlockReader_def br_inv_def)

lemma brsys_inv_step: "br_step s s' \<Longrightarrow> brsys_inv s \<Longrightarrow> brsys_inv s'"
proof (induction rule: br_step.induct)
  case (read_buffered s b n bs r')
  note c = copy_out_contents [OF read_buffered(3)]
  from c(1) read_buffered show ?case by (auto simp: brsys_inv_def br_inv_def c(3,4,5))
next
  case (read_block s n b bl bs r')
  note c = copy_out_contents [OF read_block(3)]
  from c(1) read_block show ?case by (auto simp: brsys_inv_def br_inv_def c(3,4,5))
next
  case (try_block s n b bl bs r')
  note c = copy_out_contents [OF try_block(3)]
  from c(1) try_block show ?case by (auto simp: brsys_inv_def br_inv_def c(3,4,5))
qed (auto simp: brsys_inv_def br_inv_def)

lemma br_reach_inv: "br_reach s \<Longrightarrow> brsys_inv s"
  by (induction rule: br_reach.induct) (blast intro: brsys_inv_init brsys_inv_step)+

text \<open>The queue filled block by block.\<close>

definition filled :: "nat \<Rightarrow> bytes \<Rightarrow> brsys" where
  "filled k d = brsys_init\<lparr>rdr := NewBlockReader\<lparr>blocks := replicate k d\<rparr>, sent := concat (replicate k d)\<rparr>"

lemma br_reach_filled: "d \<noteq> [] \<Longrightarrow> k \<le> chanCap \<Longrightarrow> br_reach (filled k d)"
proof (induction k)
  case 0
  then show ?case using br_reach_init by (simp add: filled_def brsys_init_def NewBlockReader_def)
next
  case (Suc k)
  then have reach: "br_reach (filled k d)" and room: "k < chanCap" by simp_all
  let ?s = "(filled k d)\<lparr>locked := True, spc := SSending d\<rparr>"
  have "br_step (filled k d) ?s"
    by (rule enqueue_lock) (use Suc.prems in \<open>simp_all add: filled_def brsys_init_def NewBlockReader_def\<close>)
  moreover have "br_step ?s (?s\<lparr>rdr := (rdr ?s)\<lparr>blocks := blocks (rdr ?s) @ [d]\<rparr>, locked := False, spc := SIdle, sent := sent ?s @ d\<rparr>)"
    by (rule enqueue_send) (use room in \<open>simp_all add: filled_def brsys_init_def NewBlockReader_def\<close>)
  moreover have "?s\<lparr>rdr := (rdr ?s)\<lparr>blocks := blocks (rdr ?s) @ [d]\<rparr>, locked := False, spc := SIdle, sent := sent ?s @ d\<rparr> = filled (Suc k) d"
    by (simp add: filled_def brsys_init_def NewBlockReader_def flip: replicate_append_same concat_append)
      (simp add: concat_replicate_trivial flip: replicate_append_same)
  ultimately show ?case using reach br_reach_step by metis
qed

definition stuck :: "brsys \<Rightarrow> bool" where
  "stuck s \<longleftrightarrow> (\<nexists>s'. br_step s s')"

text \<open>The channel full, the sender inside \<^verbatim>\<open>r.blocks <- data\<close> with the mutex held, the reader at \<^verbatim>\<open>closedMu.Lock()\<close>.\<close>

definition clinch :: "nat \<Rightarrow> bytes \<Rightarrow> brsys" where
  "clinch n d = (filled chanCap d)\<lparr>locked := True, spc := SSending d, rpc := RLocking n\<rparr>"

lemma br_reach_clinch: "d \<noteq> [] \<Longrightarrow> br_reach (clinch n d)"
proof -
  assume d: "d \<noteq> []"
  let ?s = "(filled chanCap d)\<lparr>locked := True, spc := SSending d\<rparr>"
  have "br_step (filled chanCap d) ?s"
    by (rule enqueue_lock) (use d in \<open>simp_all add: filled_def brsys_init_def NewBlockReader_def\<close>)
  moreover have "br_step ?s (?s\<lparr>rpc := RLocking n\<rparr>)"
    by (rule read_start) (simp_all add: filled_def brsys_init_def NewBlockReader_def)
  ultimately show ?thesis
    unfolding clinch_def using br_reach_filled [OF d order_refl] br_reach_step by blast
qed

lemma clinch_stuck: "stuck (clinch n d)"
  by (auto simp: stuck_def clinch_def filled_def brsys_init_def NewBlockReader_def elim!: br_stepE)

text \<open>So there is a reachable state in which nothing can run any more.\<close>

lemma BlockReader_deadlock:
  "\<exists>s. br_reach s \<and> stuck s \<and> length (blocks (rdr s)) = chanCap \<and> spc s = SSending [0] \<and> rpc s = RLocking n"
  using br_reach_clinch [of "[0]" n] clinch_stuck [of n "[0]"]
  by (intro exI [of _ "clinch n [0]"]) (simp add: clinch_def filled_def brsys_init_def)

end
