(* ===== verification/Stream_State.thy ===== *)
theory Stream_State
  imports Prelude
begin

text \<open>
  The state of a stream (\<^verbatim>\<open>src/wire/stream_state.go\<close>): its code, the error that ended it, and the checks
  before sending and receiving. Abstractly a stream is two directions, each open or closed, and an error that
  shuts both.
\<close>

datatype streamStateCode = streamStateOpen | streamStateHalfClosedLocal | streamStateHalfClosedRemote | streamStateClosed

primrec streamStateCode_String :: "streamStateCode \<Rightarrow> string" where
  "streamStateCode_String streamStateOpen = ''open''"
| "streamStateCode_String streamStateHalfClosedLocal = ''half-closed (local)''"
| "streamStateCode_String streamStateHalfClosedRemote = ''half-closed (remote)''"
| "streamStateCode_String streamStateClosed = ''closed''"

record streamState =
  code :: streamStateCode
  serr :: "goerr option"

definition streamState_zero :: streamState where
  "streamState_zero = \<lparr>code = streamStateOpen, serr = None\<rparr>"

definition streamState_Error :: "streamState \<Rightarrow> goerr option" where
  "streamState_Error s = serr s"

definition streamState_Close :: "streamState \<Rightarrow> streamState" where
  "streamState_Close s = s\<lparr>code := streamStateClosed\<rparr>"

definition streamState_CloseLocal :: "streamState \<Rightarrow> streamState" where
  "streamState_CloseLocal s =
     (case code s of
        streamStateOpen \<Rightarrow> s\<lparr>code := streamStateHalfClosedLocal\<rparr>
      | streamStateHalfClosedLocal \<Rightarrow> s\<lparr>code := streamStateHalfClosedLocal\<rparr>
      | streamStateHalfClosedRemote \<Rightarrow> s\<lparr>code := streamStateClosed\<rparr>
      | streamStateClosed \<Rightarrow> s\<lparr>code := streamStateClosed\<rparr>)"

definition streamState_CloseRemote :: "streamState \<Rightarrow> streamState" where
  "streamState_CloseRemote s =
     (case code s of
        streamStateOpen \<Rightarrow> s\<lparr>code := streamStateHalfClosedRemote\<rparr>
      | streamStateHalfClosedLocal \<Rightarrow> s\<lparr>code := streamStateClosed\<rparr>
      | streamStateHalfClosedRemote \<Rightarrow> s\<lparr>code := streamStateHalfClosedRemote\<rparr>
      | streamStateClosed \<Rightarrow> s\<lparr>code := streamStateClosed\<rparr>)"

definition streamState_SetError :: "goerr \<Rightarrow> streamState \<Rightarrow> streamState" where
  "streamState_SetError e s = s\<lparr>serr := Some e\<rparr>"

definition RecvResetStream :: "streamState \<Rightarrow> unit outcome" where
  "RecvResetStream s =
     (case serr s of
        Some e \<Rightarrow> Fail e
      | None \<Rightarrow> if code s = streamStateClosed then Fail ClosedStreamErr else Ok ())"

definition RecvData :: "streamState \<Rightarrow> unit outcome" where
  "RecvData s =
     (case serr s of
        Some e \<Rightarrow> Fail e
      | None \<Rightarrow>
          if code s = streamStateClosed then Fail ClosedStreamErr
          else if code s = streamStateHalfClosedRemote then Fail ClosedStreamErr
          else Ok ())"

definition SendResetStream :: "streamState \<Rightarrow> unit outcome" where
  "SendResetStream s =
     (case serr s of
        Some e \<Rightarrow> Fail e
      | None \<Rightarrow>
          if code s = streamStateClosed then Fail ClosedStreamErr
          else if code s = streamStateHalfClosedLocal then Fail ClosedStreamErr
          else Ok ())"

definition SendData :: "streamState \<Rightarrow> unit outcome" where
  "SendData s =
     (case serr s of
        Some e \<Rightarrow> Fail e
      | None \<Rightarrow>
          if code s = streamStateClosed then Fail ClosedStreamErr
          else if code s = streamStateHalfClosedLocal then Fail ClosedStreamErr
          else Ok ())"

section \<open>Two directions\<close>

text \<open>The abstract stream: whether this side may still send, whether the peer may, and the error.\<close>

record duplex =
  localOpen :: bool
  remoteOpen :: bool
  failure :: "goerr option"

definition duplex_of :: "streamState \<Rightarrow> duplex" where
  "duplex_of s =
     \<lparr>localOpen = (code s \<in> {streamStateOpen, streamStateHalfClosedRemote}),
      remoteOpen = (code s \<in> {streamStateOpen, streamStateHalfClosedLocal}),
      failure = serr s\<rparr>"

definition permits :: "bool \<Rightarrow> goerr option \<Rightarrow> unit outcome" where
  "permits op e = (case e of Some e \<Rightarrow> Fail e | None \<Rightarrow> if op then Ok () else Fail ClosedStreamErr)"

lemma duplex_of_zero: "duplex_of streamState_zero = \<lparr>localOpen = True, remoteOpen = True, failure = None\<rparr>"
  by (simp add: duplex_of_def streamState_zero_def)

lemma duplex_of_updates:
  "duplex_of (streamState_Close s) = (duplex_of s)\<lparr>localOpen := False, remoteOpen := False\<rparr>"
  "duplex_of (streamState_CloseLocal s) = (duplex_of s)\<lparr>localOpen := False\<rparr>"
  "duplex_of (streamState_CloseRemote s) = (duplex_of s)\<lparr>remoteOpen := False\<rparr>"
  "duplex_of (streamState_SetError e s) = (duplex_of s)\<lparr>failure := Some e\<rparr>"
  by (simp_all add: duplex_of_def streamState_Close_def streamState_CloseLocal_def
      streamState_CloseRemote_def streamState_SetError_def split: streamStateCode.split)

lemma duplex_of_checks:
  "SendData s = permits (localOpen (duplex_of s)) (failure (duplex_of s))"
  "SendResetStream s = permits (localOpen (duplex_of s)) (failure (duplex_of s))"
  "RecvData s = permits (remoteOpen (duplex_of s)) (failure (duplex_of s))"
  "RecvResetStream s = permits (localOpen (duplex_of s) \<or> remoteOpen (duplex_of s)) (failure (duplex_of s))"
  using streamStateCode.exhaust [of "code s"]
  by (auto simp: duplex_of_def permits_def SendData_def SendResetStream_def RecvData_def RecvResetStream_def
      split: option.split)

lemma permits_Ok_iff: "permits op e = Ok () \<longleftrightarrow> op \<and> e = None"
  by (auto simp: permits_def split: option.splits)

lemma permits_returns [simp]: "returns (permits op e)"
  by (auto simp: permits_def split: option.splits)

end
