(* ===== verification/Wire_Stream.thy ===== *)
theory Wire_Stream
  imports Wire_Data Wire_Reader Block_Reader Stream_State
begin

text \<open>
  Streams (\<^verbatim>\<open>src/wire/stream.go\<close>). The connection below a stream is reached only through the method \<^verbatim>\<open>Write\<close>
  of the interface \<^verbatim>\<open>conn\<close>, an argument \<open>wr\<close> of the operations here; the locale \<open>conn\<close> states what
  they rely on, and is interpreted for the two implementations in their theories. Reading from a stream is shown
  to be reading from the chunked \<^verbatim>\<open>io.Reader\<close> that the decoders are proved against.
\<close>

record stream =
  strID :: u32
  sstate :: streamState
  sreader :: blockReader
  externalID :: string

type_synonym 'c writer = "frame \<Rightarrow> 'c \<Rightarrow> unit outcome \<times> 'c"

definition NewStream :: "u32 \<Rightarrow> stream" where
  "NewStream i = \<lparr>strID = i, sstate = streamState_zero, sreader = NewBlockReader, externalID = []\<rparr>"

definition SetExternalID :: "string \<Rightarrow> stream \<Rightarrow> stream" where
  "SetExternalID x s = s\<lparr>externalID := x\<rparr>"

definition stream_write :: "'c writer \<Rightarrow> frame \<Rightarrow> stream \<times> 'c \<Rightarrow> unit outcome \<times> stream \<times> 'c" where
  "stream_write wr fr sc =
     (let (s, c) = sc; (out, c) = wr (fr\<lparr>StreamID := strID s\<rparr>) c in (out, s, c))"

definition stream_reset :: "'c writer \<Rightarrow> errorCode \<Rightarrow> stream \<times> 'c \<Rightarrow> unit outcome \<times> stream \<times> 'c" where
  "stream_reset wr ec sc =
     stream_write wr (ResetStream_IntoFrame \<lparr>resetStreamID = strID (fst sc), resetErrorCode = ec\<rparr>) sc"

definition stream_handleResetStream ::
  "'c writer \<Rightarrow> resetStreamFrame \<Rightarrow> stream \<times> 'c \<Rightarrow> unit outcome \<times> stream \<times> 'c" where
  "stream_handleResetStream wr rs sc =
     (let (s, c) = sc in
      if RecvResetStream (sstate s) \<noteq> Ok () then ignoreErr (stream_reset wr ErrorCodeStreamClosed (s, c))
      else (Ok (), s\<lparr>sstate := streamState_SetError (StreamResetError (resetErrorCode rs)) (streamState_Close (sstate s)),
                     sreader := internalClose (sreader s)\<rparr>, c))"

definition stream_handleData :: "'c writer \<Rightarrow> dataFrame \<Rightarrow> stream \<times> 'c \<Rightarrow> unit outcome \<times> stream \<times> 'c" where
  "stream_handleData wr d sc =
     (let (s, c) = sc in
      if RecvData (sstate s) \<noteq> Ok () then ignoreErr (stream_reset wr ErrorCodeStreamClosed (s, c))
      else
        let (out, r) = Enqueue (dataPayload d) (sreader s); s = s\<lparr>sreader := r\<rparr> in
        bindR (out, (s, c)) (\<lambda>_ (s, c).
          (Ok (), if EndStream d then s\<lparr>sstate := streamState_CloseRemote (sstate s)\<rparr> else s, c)))"

primrec stream_writeAll :: "'c writer \<Rightarrow> frame list \<Rightarrow> stream \<times> 'c \<Rightarrow> unit outcome \<times> stream \<times> 'c" where
  "stream_writeAll wr [] sc = (Ok (), sc)"
| "stream_writeAll wr (fr # frs) sc = bindR (stream_write wr fr sc) (\<lambda>_. stream_writeAll wr frs)"

definition stream_Write :: "'c writer \<Rightarrow> bytes \<Rightarrow> bool \<Rightarrow> stream \<times> 'c \<Rightarrow> unit outcome \<times> stream \<times> 'c" where
  "stream_Write wr d endStream sc =
     bindR (SendData (sstate (fst sc)), sc) (\<lambda>_ sc.
     bindR (stream_writeAll wr (map Data_IntoFrame (DataFramesFromBuffer (strID (fst sc)) endStream d)) sc) (\<lambda>_ (s, c).
       (Ok (), if endStream then s\<lparr>sstate := streamState_CloseLocal (sstate s)\<rparr> else s, c)))"

definition stream_Reset :: "'c writer \<Rightarrow> errorCode \<Rightarrow> stream \<times> 'c \<Rightarrow> unit outcome \<times> stream \<times> 'c" where
  "stream_Reset wr ec sc =
     bindR (SendResetStream (sstate (fst sc)), sc) (\<lambda>_ (s, c).
       stream_reset wr ec (s\<lparr>sstate := streamState_Close (sstate s), sreader := internalClose (sreader s)\<rparr>, c))"

definition stream_Read :: "nat \<Rightarrow> stream \<Rightarrow> bytes outcome \<times> stream" where
  "stream_Read n s =
     (case serr (sstate s) of
        Some e \<Rightarrow> (Fail e, s)
      | None \<Rightarrow>
          let ((ok, out), r) = TryRead n (sreader s); s = s\<lparr>sreader := r\<rparr> in
          if ok then (out, s)
          else bindR (RecvData (sstate s), s) (\<lambda>_ s.
            let (out, r) = BlockReader_Read n (sreader s) in (out, s\<lparr>sreader := r\<rparr>)))"

definition stream_CloseLocal :: "'c writer \<Rightarrow> stream \<times> 'c \<Rightarrow> unit outcome \<times> stream \<times> 'c" where
  "stream_CloseLocal wr sc =
     bindR (SendData (sstate (fst sc)), sc) (\<lambda>_ (s, c).
       stream_write wr (Data_IntoFrame (mkDataFrame (strID s) True True []))
         (s\<lparr>sstate := streamState_CloseLocal (sstate s)\<rparr>, c))"

text \<open>The application's calls on a stream it was given.\<close>

datatype appOp = AppWrite bytes bool | AppReset errorCode | AppCloseLocal | AppRead nat | AppSetExternalID string

fun app_call :: "'c writer \<Rightarrow> appOp \<Rightarrow> stream \<times> 'c \<Rightarrow> unit outcome \<times> stream \<times> 'c" where
  "app_call wr (AppWrite d e) sc = stream_Write wr d e sc"
| "app_call wr (AppReset ec) sc = stream_Reset wr ec sc"
| "app_call wr AppCloseLocal sc = stream_CloseLocal wr sc"
| "app_call wr (AppRead n) (s, c) = (bindO (fst (stream_Read n s)) (\<lambda>_. Ok ()), snd (stream_Read n s), c)"
| "app_call wr (AppSetExternalID x) (s, c) = (Ok (), SetExternalID x s, c)"

section \<open>Reading from a stream is reading from a chunked source\<close>

text \<open>The chunks still to be read, and what follows them: an error, or a wait for the peer.\<close>

definition stream_chunks :: "stream \<Rightarrow> bytes list" where
  "stream_chunks s =
     (if serr (sstate s) \<noteq> None then []
      else (case buf (sreader s) of None \<Rightarrow> [] | Some b \<Rightarrow> [b]) @ (if closed (sreader s) then [] else blocks (sreader s)))"

definition stream_tail :: "stream \<Rightarrow> goerr option" where
  "stream_tail s =
     (case serr (sstate s) of
        Some e \<Rightarrow> Some e
      | None \<Rightarrow> if closed (sreader s) then Some EOF
                else if remoteOpen (duplex_of (sstate s)) then None else Some ClosedStreamErr)"

definition stream_inv :: "stream \<Rightarrow> bool" where
  "stream_inv s \<longleftrightarrow> br_inv (sreader s)"

text \<open>A source of chunks stands for a stream: the same non-empty chunks, the same end.\<close>

definition stream_as :: "reader \<Rightarrow> stream \<Rightarrow> bool" where
  "stream_as r s \<longleftrightarrow> (\<exists>cs. r = Base cs (stream_tail s) \<and> filter (\<lambda>c. c \<noteq> []) cs = stream_chunks s)"

lemma concat_nonempty: "concat (filter (\<lambda>c. c \<noteq> []) cs) = concat cs"
  by (induction cs) auto

lemma stream_Read_cases:
  assumes "stream_Read n s = (out, s')"
  obtains (Err) e where "serr (sstate s) = Some e" "out = Fail e" "s' = s"
    | (Closed) "serr (sstate s) = None" "buf (sreader s) = None" "closed (sreader s)" "out = Fail EOF" "s' = s"
    | (Done) "serr (sstate s) = None" "buf (sreader s) = None" "\<not> closed (sreader s)" "blocks (sreader s) = []"
        "\<not> remoteOpen (duplex_of (sstate s))" "out = Fail ClosedStreamErr" "s' = s"
    | (Wait) "serr (sstate s) = None" "buf (sreader s) = None" "\<not> closed (sreader s)" "blocks (sreader s) = []"
        "remoteOpen (duplex_of (sstate s))" "out = Blocks" "s' = s"
    | (Some) b r bs r' where "serr (sstate s) = None" "out = Ok bs" "s' = s\<lparr>sreader := r'\<rparr>" "copy_out n b r = (bs, r')"
        "buf (sreader s) = Some b \<and> r = sreader s \<or> buf (sreader s) = None \<and> \<not> closed (sreader s) \<and>
           (\<exists>bl. blocks (sreader s) = b # bl \<and> r = (sreader s)\<lparr>blocks := bl\<rparr>)"
proof (cases "serr (sstate s)")
  case (Some e)
  with assms show ?thesis by (intro that(1)) (auto simp: stream_Read_def)
next
  case None
  obtain o2 r' where rd: "BlockReader_Read n (sreader s) = (o2, r')" by fastforce
  then show ?thesis
  proof (cases rule: BlockReader_Read_cases)
    case Wait
    from assms None Wait rd have "(out, s') = (if remoteOpen (duplex_of (sstate s)) then Blocks else Fail ClosedStreamErr, s)"
      by (auto simp: stream_Read_def TryRead_Read duplex_of_checks permits_def duplex_of_def split: if_splits)
    with that(3,4) None Wait show ?thesis by (simp split: if_splits)
  qed (use that assms None rd in \<open>auto simp: stream_Read_def TryRead_Read\<close>)
qed

lemma stream_Read_simulates:
  assumes inv: "stream_inv s" and rel: "stream_as r s"
  shows "fst (Read n r) = fst (stream_Read n s) \<and> stream_as (snd (Read n r)) (snd (stream_Read n s)) \<and>
    stream_inv (snd (stream_Read n s))"
proof -
  obtain cs where r: "r = Base cs (stream_tail s)" and cs: "filter (\<lambda>c. c \<noteq> []) cs = stream_chunks s"
    using rel by (auto simp: stream_as_def)
  obtain out s' where rd: "stream_Read n s = (out, s')" by fastforce
  then show ?thesis
  proof (cases rule: stream_Read_cases)
    case (Some b q bs q')
    note c = copy_out_contents [OF Some(4)]
    have "stream_chunks s = b # (if closed q then [] else blocks q)" and b: "b \<noteq> []"
      and q: "br_inv q" "closed q = closed (sreader s)"
      using Some(1,5) inv by (auto simp: stream_chunks_def stream_inv_def br_inv_def)
    with cs pending_hd [of cs] obtain ds where ds: "pending cs = b # ds" "filter (\<lambda>c. c \<noteq> []) ds = (if closed q then [] else blocks q)"
      by auto
    have bs: "bs = take n b" and rest: "filter (\<lambda>c. c \<noteq> []) [drop n b] = (case buf q' of None \<Rightarrow> [] | Some b \<Rightarrow> [b])"
      using Some(4) by (auto simp: copy_out_def clearBuffer_def split: if_splits)
    have tail: "stream_tail s' = stream_tail s" using Some(1,3) c(4) q(2) by (simp add: stream_tail_def)
    have chunks: "stream_chunks s' = (case buf q' of None \<Rightarrow> [] | Some b \<Rightarrow> [b]) @ (if closed q then [] else blocks q)"
      using Some(1,3) c(3,4) by (simp add: stream_chunks_def)
    have "stream_as (Base (drop n b # ds) (stream_tail s)) s'"
      unfolding stream_as_def tail chunks using ds(2) rest by auto
    moreover have "stream_inv s'" using Some(3) c(3,5) q(1) by (simp add: stream_inv_def br_inv_def)
    moreover have "Read n r = (Ok (take n b), Base (drop n b # ds) (stream_tail s))" by (simp add: r ds(1))
    ultimately show ?thesis by (simp add: rd Some(2) bs)
  qed (use r cs rd inv in \<open>auto simp: stream_as_def stream_chunks_def stream_tail_def pending_none\<close>)
qed

lemma stream_as_exists: "stream_inv s \<Longrightarrow> stream_as (Base (stream_chunks s) (stream_tail s)) s"
  by (auto simp: stream_as_def stream_chunks_def stream_inv_def br_inv_def filter_id_conv split: option.splits)

interpretation strm: io_reader stream_Read "\<lambda>s. concat (stream_chunks s)" stream_inv
proof
  fix n s
  assume "stream_inv s"
  then show "stream_inv (snd (stream_Read n s))" using stream_Read_simulates stream_as_exists by blast
next
  fix n s bs s'
  assume inv: "stream_inv s" and rd: "stream_Read n s = (Ok bs, s')"
  let ?r = "Base (stream_chunks s) (stream_tail s)"
  obtain r' where r': "Read n ?r = (Ok bs, r')" and rel: "stream_as r' s'"
    using stream_Read_simulates [OF inv stream_as_exists [OF inv], of n] rd by (cases "Read n ?r") auto
  from rel obtain cs where "rflat r' = concat cs" "filter (\<lambda>c. c \<noteq> []) cs = stream_chunks s'" by (auto simp: stream_as_def)
  then have "rflat r' = concat (stream_chunks s')" using concat_nonempty [of cs] by metis
  with rd.read_in_order [OF TrueI r'] show "concat (stream_chunks s) = bs @ concat (stream_chunks s') \<and> length bs \<le> n" by simp
next
  fix n :: nat and s
  assume inv: "stream_inv s" and "0 < n" and "concat (stream_chunks s) \<noteq> []"
  then obtain bs r' where "Read n (Base (stream_chunks s) (stream_tail s)) = (Ok bs, r')" "bs \<noteq> []"
    using rd.read_progress [of n "Base (stream_chunks s) (stream_tail s)"] by auto
  then show "\<exists>bs s'. stream_Read n s = (Ok bs, s') \<and> bs \<noteq> []"
    using stream_Read_simulates [OF inv stream_as_exists [OF inv], of n] by (cases "stream_Read n s") auto
qed

section \<open>What a stream needs of its connection\<close>

text \<open>
  \<open>out\<close> is what the connection has sent, \<open>ser\<close> how it serialises a frame. A write that returns no error has
  sent exactly the frame and does not change how frames are serialised; a write never takes back bytes.
\<close>

locale conn =
  fixes Write :: "'c writer"
    and out :: "'c \<Rightarrow> bytes"
    and ser :: "'c \<Rightarrow> frame \<Rightarrow> bytes"
  assumes Write_Ok: "Write f c = (Ok (), c') \<Longrightarrow> out c' = out c @ ser c f \<and> ser c' = ser c"
    and Write_grows: "prefix (out c) (out (snd (Write f c)))"
begin

lemma stream_write_Ok:
  "stream_write Write f (s, c) = (Ok (), s', c') \<Longrightarrow>
     s' = s \<and> out c' = out c @ ser c (f\<lparr>StreamID := strID s\<rparr>) \<and> ser c' = ser c"
  by (auto simp: stream_write_def Let_def split: prod.splits dest: Write_Ok)

lemma stream_write_same: "fst (snd (stream_write Write f sc)) = fst sc"
  by (simp add: stream_write_def Let_def split: prod.splits)

lemma stream_writeAll_Ok:
  "stream_writeAll Write frs (s, c) = (Ok (), s', c') \<Longrightarrow>
     s' = s \<and> out c' = out c @ concat (map (\<lambda>f. ser c (f\<lparr>StreamID := strID s\<rparr>)) frs) \<and> ser c' = ser c"
proof (induction frs arbitrary: c)
  case (Cons f frs)
  from Cons.prems obtain s1 c1 where w: "stream_write Write f (s, c) = (Ok (), s1, c1)"
    and rest: "stream_writeAll Write frs (s1, c1) = (Ok (), s', c')" by (auto simp: bindR_eq_Ok_iff)
  from stream_write_Ok [OF w] have eqs: "s1 = s" "out c1 = out c @ ser c (f\<lparr>StreamID := strID s\<rparr>)" "ser c1 = ser c" by auto
  from Cons.IH [OF rest [unfolded eqs(1)]] eqs show ?case by simp
qed simp

lemma Data_IntoFrame_id: "(Data_IntoFrame d)\<lparr>StreamID := dataStreamID d\<rparr> = Data_IntoFrame d"
  by (simp add: Data_IntoFrame_def)

lemma DataFrames_StreamID:
  "map (\<lambda>f. g (f\<lparr>StreamID := i\<rparr>)) (map Data_IntoFrame (DataFramesFromBuffer i e d))
     = map g (map Data_IntoFrame (DataFramesFromBuffer i e d))"
proof -
  have "(Data_IntoFrame fr)\<lparr>StreamID := i\<rparr> = Data_IntoFrame fr" if "fr \<in> set (DataFramesFromBuffer i e d)" for fr
    using DataFrames_frames [OF that] Data_IntoFrame_id [of fr] by simp
  then show ?thesis by simp
qed

text \<open>A successful \<^verbatim>\<open>Write\<close> was allowed, sent the data frames of the buffer and nothing else, and closed this
  side's direction exactly when asked to.\<close>

lemma stream_Write_Ok:
  assumes "stream_Write Write d e (s, c) = (Ok (), s', c')"
  shows "localOpen (duplex_of (sstate s)) \<and> failure (duplex_of (sstate s)) = None"
    and "out c' = out c @ concat (map (ser c) (map Data_IntoFrame (DataFramesFromBuffer (strID s) e d)))"
    and "s' = (if e then s\<lparr>sstate := streamState_CloseLocal (sstate s)\<rparr> else s)" and "ser c' = ser c"
proof -
  let ?frs = "map Data_IntoFrame (DataFramesFromBuffer (strID s) e d)"
  from assms obtain s1 c1 where chk: "SendData (sstate s) = Ok ()"
    and w: "stream_writeAll Write ?frs (s, c) = (Ok (), s1, c1)"
    and s': "s' = (if e then s1\<lparr>sstate := streamState_CloseLocal (sstate s1)\<rparr> else s1)" "c' = c1"
    by (auto simp: stream_Write_def bindR_eq_Ok_iff)
  from chk show "localOpen (duplex_of (sstate s)) \<and> failure (duplex_of (sstate s)) = None"
    by (simp add: duplex_of_checks permits_Ok_iff)
  note eqs = stream_writeAll_Ok [OF w]
  from eqs s' show "s' = (if e then s\<lparr>sstate := streamState_CloseLocal (sstate s)\<rparr> else s)" and "ser c' = ser c" by simp_all
  from eqs s' DataFrames_StreamID [of "ser c" "strID s" e d]
  show "out c' = out c @ concat (map (ser c) ?frs)" by (simp del: map_map map_eq_conv)
qed

lemma stream_Write_refused:
  "SendData (sstate s) = Fail x \<Longrightarrow> stream_Write Write d e (s, c) = (Fail x, s, c)"
  by (simp add: stream_Write_def)

lemma stream_Reset_Ok:
  assumes "stream_Reset Write ec (s, c) = (Ok (), s', c')"
  shows "out c' = out c @ ser c (ResetStream_IntoFrame \<lparr>resetStreamID = strID s, resetErrorCode = ec\<rparr>)"
    and "code (sstate s') = streamStateClosed" and "closed (sreader s')"
proof -
  let ?s = "s\<lparr>sstate := streamState_Close (sstate s), sreader := internalClose (sreader s)\<rparr>"
  from assms have "stream_write Write (ResetStream_IntoFrame \<lparr>resetStreamID = strID s, resetErrorCode = ec\<rparr>) (?s, c) = (Ok (), s', c')"
    by (auto simp: stream_Reset_def bindR_eq_Ok_iff stream_reset_def)
  from stream_write_Ok [OF this]
  show "out c' = out c @ ser c (ResetStream_IntoFrame \<lparr>resetStreamID = strID s, resetErrorCode = ec\<rparr>)"
    and "code (sstate s') = streamStateClosed" and "closed (sreader s')"
    by (simp_all add: ResetStream_IntoFrame_def streamState_Close_def)
qed

lemma stream_CloseLocal_Ok:
  assumes "stream_CloseLocal Write (s, c) = (Ok (), s', c')"
  shows "out c' = out c @ ser c (Data_IntoFrame (mkDataFrame (strID s) True True []))"
    and "s' = s\<lparr>sstate := streamState_CloseLocal (sstate s)\<rparr>"
proof -
  let ?s = "s\<lparr>sstate := streamState_CloseLocal (sstate s)\<rparr>"
  from assms have "stream_write Write (Data_IntoFrame (mkDataFrame (strID s) True True [])) (?s, c) = (Ok (), s', c')"
    by (auto simp: stream_CloseLocal_def bindR_eq_Ok_iff)
  from stream_write_Ok [OF this]
  show "out c' = out c @ ser c (Data_IntoFrame (mkDataFrame (strID s) True True []))"
    and "s' = s\<lparr>sstate := streamState_CloseLocal (sstate s)\<rparr>"
    by (simp_all add: Data_IntoFrame_def)
qed

end

text \<open>A property of the connection that writing a well-formed frame keeps is kept by every operation of a
  stream.\<close>

locale write_keeps =
  fixes Write :: "'c writer"
    and P :: "'c \<Rightarrow> bool"
  assumes Write_keeps: "P c \<Longrightarrow> frame_ok f \<Longrightarrow> P (snd (Write f c))"
begin

lemma stream_write_keeps: "P c \<Longrightarrow> frame_ok f \<Longrightarrow> P (snd (snd (stream_write Write f (s, c))))"
  using Write_keeps [of c "f\<lparr>StreamID := strID s\<rparr>"]
  by (auto simp: stream_write_def Let_def frame_ok_def frame_sized_def frame_known_def split: prod.splits)

lemma stream_writeAll_keeps:
  "P (snd sc) \<Longrightarrow> \<forall>f\<in>set frs. frame_ok f \<Longrightarrow> P (snd (snd (stream_writeAll Write frs sc)))"
proof (induction frs arbitrary: sc)
  case (Cons f frs)
  have "P (snd (snd (stream_write Write f sc)))" using Cons.prems stream_write_keeps by (cases sc) auto
  then show ?case using Cons by (simp add: bindR_keeps [where Q = "\<lambda>sc. P (snd sc)"])
qed simp

lemma reset_frame_ok: "frame_ok (ResetStream_IntoFrame r)"
  by (simp add: frame_ok_def frame_known_def frame_sized_def ResetStream_IntoFrame_def frameFromByte_def)

lemma data_frame_ok: "length (dataPayload d) < 65536 \<Longrightarrow> frame_ok (Data_IntoFrame d)"
  by (simp add: frame_ok_def frame_known_def frame_sized_def Data_IntoFrame_def frameFromByte_def unat_of_nat_small)

lemma stream_reset_keeps: "P (snd sc) \<Longrightarrow> P (snd (snd (stream_reset Write ec sc)))"
  using stream_write_keeps reset_frame_ok by (cases sc) (simp add: stream_reset_def)

lemma stream_Reset_keeps: "P c \<Longrightarrow> P (snd (snd (stream_Reset Write ec (s, c))))"
  by (cases "SendResetStream (sstate s)") (simp_all add: stream_Reset_def stream_reset_keeps)

lemma stream_CloseLocal_keeps: "P c \<Longrightarrow> P (snd (snd (stream_CloseLocal Write (s, c))))"
  by (cases "SendData (sstate s)") (simp_all add: stream_CloseLocal_def stream_write_keeps data_frame_ok)

lemma stream_handleResetStream_keeps: "P c \<Longrightarrow> P (snd (snd (stream_handleResetStream Write rs (s, c))))"
  by (simp add: stream_handleResetStream_def stream_reset_keeps)

lemma stream_handleData_keeps: "P c \<Longrightarrow> P (snd (snd (stream_handleData Write d (s, c))))"
  by (cases "fst (Enqueue (dataPayload d) (sreader s))")
    (auto simp: stream_handleData_def stream_reset_keeps Let_def split: prod.splits)

lemma stream_Write_keeps:
  assumes "P c"
  shows "P (snd (snd (stream_Write Write d e (s, c))))"
proof -
  let ?frs = "map Data_IntoFrame (DataFramesFromBuffer (strID s) e d)"
  have "\<forall>f\<in>set ?frs. frame_ok f"
    by (auto simp: maxPayload_def intro!: data_frame_ok dest!: DataFrames_frames)
  then have "P (snd (snd (stream_writeAll Write ?frs (s, c))))" using assms stream_writeAll_keeps by simp
  then show ?thesis using assms unfolding stream_Write_def
    by (intro bindR_keeps [where Q = "\<lambda>sc. P (snd sc)"]) (auto intro!: bindR_keeps [where Q = "\<lambda>sc. P (snd sc)"])
qed

lemma app_call_keeps: "P c \<Longrightarrow> P (snd (snd (app_call Write op (s, c))))"
  by (cases op) (simp_all add: stream_Write_keeps stream_Reset_keeps stream_CloseLocal_keeps)

end

text \<open>If moreover such a write always returns, so do the operations; only a full queue can make \<^verbatim>\<open>handleData\<close> wait.\<close>

locale write_returns = write_keeps +
  assumes Write_returns: "P c \<Longrightarrow> frame_ok f \<Longrightarrow> returns (fst (Write f c))"
begin

lemma stream_write_returns: "P (snd sc) \<Longrightarrow> frame_ok f \<Longrightarrow> returns (fst (stream_write Write f sc))"
  using Write_returns [of "snd sc" "f\<lparr>StreamID := strID (fst sc)\<rparr>"]
  by (auto simp: stream_write_def Let_def frame_ok_def frame_sized_def frame_known_def split: prod.splits)

lemma stream_reset_returns: "P (snd sc) \<Longrightarrow> returns (fst (stream_reset Write ec sc))"
  by (simp add: stream_reset_def stream_write_returns reset_frame_ok)

lemma stream_Reset_returns: "P c \<Longrightarrow> returns (fst (stream_Reset Write ec (s, c)))"
  by (auto simp: stream_Reset_def duplex_of_checks stream_reset_returns intro!: returns_bindR)

lemma stream_handleResetStream_Ok: "P c \<Longrightarrow> fst (stream_handleResetStream Write rs (s, c)) = Ok ()"
  by (simp add: stream_handleResetStream_def stream_reset_returns ignoreErr_Ok)

lemma stream_handleData_safe: "P c \<Longrightarrow> safe (fst (stream_handleData Write d (s, c)))"
  by (auto simp: stream_handleData_def stream_reset_returns Enqueue_def returns_safe)

lemma stream_writeAll_returns: "P (snd sc) \<Longrightarrow> \<forall>f\<in>set frs. frame_ok f \<Longrightarrow> returns (fst (stream_writeAll Write frs sc))"
proof (induction frs arbitrary: sc)
  case (Cons f frs)
  have "P (snd sc') " if "stream_write Write f sc = (Ok v, sc')" for v sc'
    using stream_write_keeps [of "snd sc" f "fst sc"] Cons.prems that by simp
  moreover have "returns (fst (stream_write Write f sc))" using Cons.prems by (intro stream_write_returns) simp_all
  ultimately show ?case using Cons by (auto intro!: returns_bindR)
qed simp

lemma stream_Write_returns:
  assumes "P c"
  shows "returns (fst (stream_Write Write d e (s, c)))"
proof -
  have "\<forall>f\<in>set (map Data_IntoFrame (DataFramesFromBuffer (strID s) e d)). frame_ok f"
    by (auto simp: maxPayload_def intro!: data_frame_ok dest!: DataFrames_frames)
  from stream_writeAll_returns [OF _ this, of "(s, c)"] assms show ?thesis
    by (auto simp: stream_Write_def duplex_of_checks intro!: returns_bindR)
qed

end

text \<open>The stream's own part: its identifier never changes, and its queue stays well-formed.\<close>

definition stream_kept :: "stream \<Rightarrow> stream \<Rightarrow> bool" where
  "stream_kept s s' \<longleftrightarrow> strID s' = strID s \<and> (stream_inv s \<longrightarrow> stream_inv s')"

lemma stream_kept_refl [simp]: "stream_kept s s"
  by (simp add: stream_kept_def)

lemma stream_kept_update [simp]:
  "stream_kept s (s\<lparr>sstate := st\<rparr>)" "stream_kept s (s\<lparr>sstate := st, sreader := internalClose (sreader s)\<rparr>)"
  "stream_kept s (s\<lparr>externalID := x\<rparr>)"
  by (simp_all add: stream_kept_def stream_inv_def)

lemma stream_write_kept: "fst (snd (stream_write wr f sc)) = fst sc"
  by (simp add: stream_write_def Let_def split: prod.splits)

lemma stream_writeAll_kept: "fst (snd (stream_writeAll wr frs sc)) = fst sc"
proof (induction frs arbitrary: sc)
  case (Cons f frs)
  then show ?case
    by (simp add: bindR_keeps [where Q = "\<lambda>sc'. fst sc' = fst sc"] stream_write_kept)
qed simp

lemma stream_ops_kept:
  "stream_kept s (fst (snd (stream_handleResetStream wr rs (s, c))))"
  "stream_kept s (fst (snd (stream_handleData wr d (s, c))))"
  "stream_kept s (fst (snd (stream_Write wr bs e (s, c))))"
  "stream_kept s (fst (snd (stream_Reset wr ec (s, c))))"
  "stream_kept s (fst (snd (stream_CloseLocal wr (s, c))))"
  "stream_kept s (snd (stream_Read n s))"
proof -
  show "stream_kept s (fst (snd (stream_handleResetStream wr rs (s, c))))"
    by (simp add: stream_handleResetStream_def stream_reset_def stream_write_kept)
  have "stream_inv s \<Longrightarrow> stream_inv (s\<lparr>sreader := snd (Enqueue (dataPayload d) (sreader s))\<rparr>)"
    by (simp add: stream_inv_def Enqueue_inv)
  then show "stream_kept s (fst (snd (stream_handleData wr d (s, c))))"
    by (cases "fst (Enqueue (dataPayload d) (sreader s))")
      (auto simp: stream_handleData_def stream_reset_def stream_write_kept Let_def stream_kept_def stream_inv_def split: prod.splits)
  show "stream_kept s (fst (snd (stream_Write wr bs e (s, c))))"
    using stream_writeAll_kept [of wr "map Data_IntoFrame (DataFramesFromBuffer (strID s) e bs)" "(s, c)"]
    unfolding stream_Write_def
    by (intro bindR_keeps [where Q = "\<lambda>sc. stream_kept s (fst sc)"])
      (auto intro!: bindR_keeps [where Q = "\<lambda>sc. stream_kept s (fst sc)"])
  show "stream_kept s (fst (snd (stream_Reset wr ec (s, c))))"
    by (cases "SendResetStream (sstate s)") (simp_all add: stream_Reset_def stream_reset_def stream_write_kept)
  show "stream_kept s (fst (snd (stream_CloseLocal wr (s, c))))"
    by (cases "SendData (sstate s)") (simp_all add: stream_CloseLocal_def stream_write_kept)
  have "strID (snd (stream_Read n s)) = strID s"
    by (cases "stream_Read n s" rule: prod.exhaust) (auto elim: stream_Read_cases)
  then show "stream_kept s (snd (stream_Read n s))" using strm.read_inv by (simp add: stream_kept_def)
qed

lemma app_call_kept: "stream_kept s (fst (snd (app_call wr op (s, c))))"
  by (cases op) (simp_all add: stream_ops_kept SetExternalID_def)

section \<open>Receiving\<close>

lemma stream_handleData_open:
  assumes "RecvData (sstate s) = Ok ()" and "closed (sreader s) = False" and "length (blocks (sreader s)) < chanCap"
  shows "\<exists>s'. stream_handleData wr d (s, c) = (Ok (), s', c) \<and> stream_chunks s' = stream_chunks s @ filter (\<lambda>c. c \<noteq> []) [dataPayload d] \<and>
    sstate s' = (if EndStream d then streamState_CloseRemote (sstate s) else sstate s) \<and> \<not> closed (sreader s') \<and>
    length (blocks (sreader s')) \<le> Suc (length (blocks (sreader s))) \<and> strID s' = strID s"
proof -
  have "serr (sstate s) = None" using assms(1) by (simp add: duplex_of_checks permits_Ok_iff duplex_of_def)
  then show ?thesis using assms
    by (auto simp: stream_handleData_def Enqueue_def stream_chunks_def streamState_CloseRemote_def
        split: option.splits streamStateCode.splits)
qed

lemma stream_handleData_refused:
  "RecvData (sstate s) \<noteq> Ok () \<Longrightarrow>
     stream_handleData wr d (s, c) = ignoreErr (stream_reset wr ErrorCodeStreamClosed (s, c))"
  by (simp add: stream_handleData_def)

text \<open>A list of data frames, delivered one after the other.\<close>

primrec stream_deliver :: "'c writer \<Rightarrow> dataFrame list \<Rightarrow> stream \<times> 'c \<Rightarrow> unit outcome \<times> stream \<times> 'c" where
  "stream_deliver wr [] sc = (Ok (), sc)"
| "stream_deliver wr (d # ds) sc = bindR (stream_handleData wr d sc) (\<lambda>_. stream_deliver wr ds)"

lemma stream_deliver_open:
  assumes "\<forall>d\<in>set ds. \<not> EndStream d" and "RecvData (sstate s) = Ok ()" and "\<not> closed (sreader s)"
    and "length (blocks (sreader s)) + length ds \<le> chanCap"
  shows "\<exists>s'. stream_deliver wr ds (s, c) = (Ok (), s', c) \<and> sstate s' = sstate s \<and>
    concat (stream_chunks s') = concat (stream_chunks s) @ concat (map dataPayload ds)"
  using assms
proof (induction ds arbitrary: s)
  case (Cons d ds)
  then obtain s1 where s1: "stream_handleData wr d (s, c) = (Ok (), s1, c)" "sstate s1 = sstate s" "\<not> closed (sreader s1)"
    "length (blocks (sreader s1)) \<le> Suc (length (blocks (sreader s)))"
    "stream_chunks s1 = stream_chunks s @ filter (\<lambda>c. c \<noteq> []) [dataPayload d]"
    using stream_handleData_open [of s wr d c] by auto
  with Cons.IH [of s1] Cons.prems obtain s' where "stream_deliver wr ds (s1, c) = (Ok (), s', c)" "sstate s' = sstate s"
    "concat (stream_chunks s') = concat (stream_chunks s1) @ concat (map dataPayload ds)" by auto
  with s1 show ?case by auto
qed simp

end
