(* ===== verification/Wire_Conn.thy ===== *)
theory Wire_Conn
  imports Wire_Stream
begin

text \<open>
  The server's side of a connection (\<^verbatim>\<open>src/wire/conn.go\<close>) and the table of connections
  (\<^verbatim>\<open>src/wire/server.go\<close>). \<^verbatim>\<open>Write\<close> hands a frame to the writing goroutine and waits for its answer, so
  it is modelled as one step that runs the body of \<open>serviceWrites\<close> for that frame. Frame pointers, which the
  code compares, are fresh numbers. The order in which Go iterates over the map of streams is the argument
  \<open>ord\<close>.
\<close>

section \<open>The network connection\<close>

text \<open>
  The \<^verbatim>\<open>io.ReadWriteCloser\<close> below: \<open>outp\<close> is what it has sent, \<open>writes\<close> counts the writes, and \<open>fault k\<close>
  says whether write number \<open>k\<close> fails: then it sends some bytes and returns an error. The bytes it receives are
  the \<open>reader\<close> of the frame reader.
\<close>

record netio =
  outp :: bytes
  writes :: nat
  fault :: "nat \<Rightarrow> (nat \<times> goerr) option"
  ioclosed :: bool

definition io_Write :: "bytes \<Rightarrow> netio \<Rightarrow> unit outcome \<times> netio" where
  "io_Write d io =
     (if ioclosed io then (Fail (IOError ''use of closed network connection''), io)
      else case fault io (writes io) of
        None \<Rightarrow> (Ok (), io\<lparr>outp := outp io @ d, writes := Suc (writes io)\<rparr>)
      | Some (k, e) \<Rightarrow> (Fail e, io\<lparr>outp := outp io @ take k d, writes := Suc (writes io)\<rparr>))"

text \<open>No write fails.\<close>

definition faultless :: "netio \<Rightarrow> bool" where
  "faultless io \<longleftrightarrow> (\<forall>k. fault io k = None)"

definition io_Close :: "netio \<Rightarrow> netio" where
  "io_Close io = io\<lparr>ioclosed := True\<rparr>"

lemma faultless_update [simp]:
  "faultless (io\<lparr>outp := b\<rparr>) = faultless io" "faultless (io\<lparr>writes := n\<rparr>) = faultless io"
  "faultless (io\<lparr>ioclosed := x\<rparr>) = faultless io"
  by (simp_all add: faultless_def)

section \<open>Connections\<close>

text \<open>What the connection tells its server.\<close>

datatype parentCall = ConnectionClosed int | ServiceStream u32

record Conn =
  cio :: netio
  connID :: int
  compression :: compressionMethod
  cerr :: "goerr option"
  streams :: "(u32 \<times> stream) list"
  lastStreamID :: u32
  toWriteClosed :: bool
  dropClosed :: bool
  maxConcurrentStreams :: u32
  running :: bool
  configured :: bool
  terminateAfter :: "nat option"
  parent :: bool
  calls :: "parentCall list"
  nextPtr :: nat

definition NewConn :: "bool \<Rightarrow> int \<Rightarrow> netio \<Rightarrow> Conn" where
  "NewConn hasParent i io =
     \<lparr>cio = io, connID = i, compression = CompressionMethodNone, cerr = None, streams = [], lastStreamID = 0,
      toWriteClosed = False, dropClosed = False, maxConcurrentStreams = 0, running = True, configured = False,
      terminateAfter = None, parent = hasParent, calls = [], nextPtr = 0\<rparr>"

definition terminate :: "Conn \<Rightarrow> Conn" where
  "terminate c =
     (if \<not> running c then c
      else c\<lparr>running := False, dropClosed := True, cio := io_Close (cio c), toWriteClosed := True,
             calls := calls c @ (if parent c then [ConnectionClosed (connID c)] else [])\<rparr>)"

text \<open>The body of the loop of \<^verbatim>\<open>serviceWrites\<close> for one frame, and what it answers.\<close>

definition serviceWrite :: "flate \<Rightarrow> nat \<Rightarrow> frame \<Rightarrow> Conn \<Rightarrow> unit outcome \<times> Conn" where
  "serviceWrite z ptr fr c =
     (case cerr c of
        Some e \<Rightarrow> (Fail e, c)
      | None \<Rightarrow>
          bindR (fst (Bytes z (compression c) fr), c) (\<lambda>d c.
          let (out, io) = io_Write d (cio c) in
          bindR (out, c\<lparr>cio := io\<rparr>) (\<lambda>_ c.
            (Ok (), if terminateAfter c = Some ptr then terminate c else c))))"

definition Conn_WritePtr :: "flate \<Rightarrow> nat \<Rightarrow> frame \<Rightarrow> Conn \<Rightarrow> unit outcome \<times> Conn" where
  "Conn_WritePtr z ptr fr c =
     (if toWriteClosed c then (Panic ''send on closed channel'', c) else serviceWrite z ptr fr c)"

definition Conn_Write :: "flate \<Rightarrow> frame \<Rightarrow> Conn \<Rightarrow> unit outcome \<times> Conn" where
  "Conn_Write z fr c = Conn_WritePtr z (nextPtr c) fr (c\<lparr>nextPtr := Suc (nextPtr c)\<rparr>)"

definition goAway :: "flate \<Rightarrow> errorCode \<Rightarrow> bytes \<Rightarrow> bool \<Rightarrow> Conn \<Rightarrow> unit outcome \<times> Conn" where
  "goAway z ec extraData term c =
     (let fr = GoAway_IntoFrame \<lparr>LastStreamID = lastStreamID c, goAwayErrorCode = ec, AdditionalData = extraData\<rparr>;
          ptr = nextPtr c;
          c = c\<lparr>nextPtr := Suc ptr\<rparr>;
          c = (if term then c\<lparr>terminateAfter := Some ptr\<rparr> else c)
      in ignoreErr (Conn_WritePtr z ptr fr c))"

definition protocolError :: "flate \<Rightarrow> Conn \<Rightarrow> unit outcome \<times> Conn" where
  "protocolError z c = goAway z ErrorCodeProtocolError [] True c"

definition handleHello :: "flate \<Rightarrow> helloFrame \<Rightarrow> Conn \<Rightarrow> unit outcome \<times> Conn" where
  "handleHello z conf c =
     (if configured c then protocolError z c
      else
        let c = (if CompressionGZip conf then c\<lparr>compression := CompressionMethodGzip\<rparr> else c);
            c = c\<lparr>configured := True\<rparr>
        in case Conn_Write z (Hello_IntoFrame
               \<lparr>helloAck = True, CompressionGZip = CompressionGZip conf, MaxConcurrentStreams = 0\<rparr>) c of
             (Fail e, c) \<Rightarrow> (Ok (), terminate c)
           | (out, c) \<Rightarrow> (out, c))"

definition handlePing :: "flate \<Rightarrow> pingFrame \<Rightarrow> Conn \<Rightarrow> unit outcome \<times> Conn" where
  "handlePing z ping c =
     (if \<not> configured c then protocolError z c
      else if pingAck ping then (Ok (), c)
      else case Conn_Write z (Ping_IntoFrame \<lparr>pingAck = True, pingPayload = pingPayload ping\<rparr>) c of
             (Fail e, c) \<Rightarrow> (Ok (), terminate (c\<lparr>cerr := Some e\<rparr>))
           | (out, c) \<Rightarrow> (out, c))"

text \<open>Calling a method of a stream of the table: the stream is changed in place.\<close>

definition on_stream :: "(stream \<times> Conn \<Rightarrow> 'a outcome \<times> stream \<times> Conn) \<Rightarrow> u32 \<Rightarrow> stream \<Rightarrow> Conn \<Rightarrow> 'a outcome \<times> Conn" where
  "on_stream op i s c = (let (out, s, c) = op (s, c) in (out, c\<lparr>streams := AList.update i s (streams c)\<rparr>))"

definition fetchStream :: "u32 \<Rightarrow> Conn \<Rightarrow> stream option" where
  "fetchStream i c = map_of (streams c) i"

type_synonym mapOrder = "u32 list \<Rightarrow> u32 list"

primrec cancelStreams_loop :: "flate \<Rightarrow> errorCode \<Rightarrow> u32 list \<Rightarrow> Conn \<Rightarrow> unit outcome \<times> Conn" where
  "cancelStreams_loop z ec [] c = (Ok (), c)"
| "cancelStreams_loop z ec (i # is) c =
     (case fetchStream i c of
        None \<Rightarrow> cancelStreams_loop z ec is c
      | Some s \<Rightarrow> bindR (ignoreErr (on_stream (stream_Reset (Conn_Write z) ec) i s c)) (\<lambda>_. cancelStreams_loop z ec is))"

definition cancelStreams :: "flate \<Rightarrow> mapOrder \<Rightarrow> errorCode \<Rightarrow> Conn \<Rightarrow> unit outcome \<times> Conn" where
  "cancelStreams z ord ec c = cancelStreams_loop z ec (ord (map fst (streams c))) c"

definition handleGoAway :: "flate \<Rightarrow> mapOrder \<Rightarrow> goAwayFrame \<Rightarrow> Conn \<Rightarrow> unit outcome \<times> Conn" where
  "handleGoAway z ord msg c =
     (if \<not> configured c then protocolError z c
      else bindR (cancelStreams z ord (goAwayErrorCode msg) c) (\<lambda>_ c. (Ok (), terminate c)))"

definition resetStream :: "flate \<Rightarrow> u32 \<Rightarrow> errorCode \<Rightarrow> Conn \<Rightarrow> unit outcome \<times> Conn" where
  "resetStream z i ec c =
     ignoreErr (Conn_Write z (ResetStream_IntoFrame \<lparr>resetStreamID = i, resetErrorCode = ec\<rparr>) c)"

definition handleMakeStream :: "flate \<Rightarrow> makeStreamFrame \<Rightarrow> Conn \<Rightarrow> unit outcome \<times> Conn" where
  "handleMakeStream z req c =
     (if \<not> configured c then protocolError z c
      else
        let i = makeStreamID req in
        case fetchStream i c of
          Some _ \<Rightarrow> protocolError z c
        | None \<Rightarrow>
            (Ok (), c\<lparr>streams := AList.update i (NewStream i) (streams c),
                      calls := calls c @ (if parent c then [ServiceStream i] else [])\<rparr>))"

definition handleResetFrame :: "flate \<Rightarrow> resetStreamFrame \<Rightarrow> Conn \<Rightarrow> unit outcome \<times> Conn" where
  "handleResetFrame z rs c =
     (if \<not> configured c then protocolError z c
      else case fetchStream (resetStreamID rs) c of
          None \<Rightarrow> resetStream z (resetStreamID rs) ErrorCodeProtocolError c
        | Some s \<Rightarrow> on_stream (stream_handleResetStream (Conn_Write z) rs) (resetStreamID rs) s c)"

definition handleData :: "flate \<Rightarrow> dataFrame \<Rightarrow> Conn \<Rightarrow> unit outcome \<times> Conn" where
  "handleData z d c =
     (if \<not> configured c then protocolError z c
      else case fetchStream (dataStreamID d) c of
          None \<Rightarrow> resetStream z (dataStreamID d) ErrorCodeProtocolError c
        | Some s \<Rightarrow> on_stream (stream_handleData (Conn_Write z) d) (dataStreamID d) s c)"

text \<open>\<^verbatim>\<open>x := &T{}; if err := x.FromFrame(fr); err != nil { c.goAway(...); return }; c.handle(x)\<close>\<close>

definition handleWith ::
  "('m \<Rightarrow> frame \<Rightarrow> unit outcome \<times> 'm) \<Rightarrow> 'm \<Rightarrow> ('m \<Rightarrow> Conn \<Rightarrow> unit outcome \<times> Conn) \<Rightarrow> flate \<Rightarrow> frame \<Rightarrow> Conn \<Rightarrow> unit outcome \<times> Conn" where
  "handleWith FromFrame zero handle z fr c =
     (case FromFrame zero fr of
        (Ok _, m) \<Rightarrow> handle m c
      | (Fail e, m) \<Rightarrow> protocolError z c
      | (Panic x, m) \<Rightarrow> (Panic x, c)
      | (Blocks, m) \<Rightarrow> (Blocks, c))"

definition dispatchFrame :: "flate \<Rightarrow> mapOrder \<Rightarrow> frame \<Rightarrow> Conn \<Rightarrow> unit outcome \<times> Conn" where
  "dispatchFrame z ord fr c =
     (let k = FrameKind fr in
      if k = FrameKindHello then
        handleWith Hello_FromFrame \<lparr>helloAck = False, CompressionGZip = False, MaxConcurrentStreams = 0\<rparr> (handleHello z) z fr c
      else if k = FrameKindPing then
        handleWith Ping_FromFrame \<lparr>pingAck = False, pingPayload = []\<rparr> (handlePing z) z fr c
      else if k = FrameKindGoAway then
        handleWith GoAway_FromFrame \<lparr>LastStreamID = 0, goAwayErrorCode = 0, AdditionalData = []\<rparr> (handleGoAway z ord) z fr c
      else if k = FrameKindMakeStream then
        handleWith MakeStream_FromFrame \<lparr>makeStreamID = 0\<rparr> (handleMakeStream z) z fr c
      else if k = FrameKindResetStream then
        handleWith ResetStream_FromFrame \<lparr>resetStreamID = 0, resetErrorCode = 0\<rparr> (handleResetFrame z) z fr c
      else if k = FrameKindData then
        handleWith Data_FromFrame \<lparr>dataStreamID = 0, EndData = False, EndStream = False, dataPayload = []\<rparr> (handleData z) z fr c
      else protocolError z c)"

lemma FrameReader_Read_shrinks: "FrameReader_Read r = (Ok f, r') \<Longrightarrow> rsize r' < rsize r"
  by (fastforce simp: FrameReader_Read_def FrameReader_decode_def bindR_eq_Ok_iff Let_def readSize_def
      dest: ReadFull_Ok_rsize split: if_splits option.splits)

text \<open>The reading goroutine: it ends when the connection is terminated or a read fails, and waits when no frame is
  there.\<close>

function serviceReads :: "flate \<Rightarrow> mapOrder \<Rightarrow> reader \<Rightarrow> Conn \<Rightarrow> unit outcome \<times> reader \<times> Conn" where
  "serviceReads z ord r c =
     (if \<not> running c then (Ok (), r, c)
      else case FrameReader_Read r of
        (Fail e, r) \<Rightarrow> (Ok (), r, terminate (c\<lparr>cerr := Some e\<rparr>))
      | (Ok fr, r') \<Rightarrow>
          (case dispatchFrame z ord fr c of
             (Ok _, c) \<Rightarrow> serviceReads z ord r' c
           | (out, c) \<Rightarrow> (out, r', c))
      | (out, r) \<Rightarrow> (bindO out (\<lambda>_. Ok ()), r, c))"
  by pat_completeness auto
termination
  by (relation "measure (\<lambda>(z, ord, r, c). rsize r)") (auto dest: FrameReader_Read_shrinks [OF sym])

declare serviceReads.simps [simp del]

section \<open>Invariant\<close>

text \<open>A sequence of well-formed frames, one after the other.\<close>

definition wire_ok :: "bytes \<Rightarrow> bool" where
  "wire_ok bs \<longleftrightarrow> (\<exists>fs. bs = concat (map frame_bytes fs) \<and> (\<forall>f\<in>set fs. frame_ok f))"

lemma wire_ok_Nil: "wire_ok []"
  unfolding wire_ok_def by (rule exI [of _ "[]"]) simp

lemma wire_ok_snoc:
  assumes "wire_ok bs" and "frame_ok f"
  shows "wire_ok (bs @ frame_bytes f)"
proof -
  from assms(1) obtain fs where "bs = concat (map frame_bytes fs)" "\<forall>f\<in>set fs. frame_ok f" by (auto simp: wire_ok_def)
  with assms(2) have "bs @ frame_bytes f = concat (map frame_bytes (fs @ [f])) \<and> (\<forall>f\<in>set (fs @ [f]). frame_ok f)" by simp
  then show ?thesis unfolding wire_ok_def by blast
qed

definition shut_flags :: "Conn \<Rightarrow> bool" where
  "shut_flags c \<longleftrightarrow> toWriteClosed c = (\<not> running c) \<and> dropClosed c = (\<not> running c) \<and> ioclosed (cio c) = (\<not> running c)"

definition table_ok :: "(u32 \<times> stream) list \<Rightarrow> bool" where
  "table_ok ss \<longleftrightarrow> distinct (map fst ss) \<and> (\<forall>(i, s)\<in>set ss. strID s = i \<and> i \<noteq> 0 \<and> stream_inv s)"

definition closedCalls :: "parentCall list \<Rightarrow> int list" where
  "closedCalls cs = List.map_filter (\<lambda>x. case x of ConnectionClosed i \<Rightarrow> Some i | ServiceStream i \<Rightarrow> None) cs"

definition serviceCalls :: "parentCall list \<Rightarrow> u32 list" where
  "serviceCalls cs = List.map_filter (\<lambda>x. case x of ConnectionClosed i \<Rightarrow> None | ServiceStream i \<Rightarrow> Some i) cs"

lemma calls_simps [simp]:
  "closedCalls [] = []" "serviceCalls [] = []"
  "closedCalls (xs @ ys) = closedCalls xs @ closedCalls ys" "serviceCalls (xs @ ys) = serviceCalls xs @ serviceCalls ys"
  "closedCalls [ConnectionClosed i] = [i]" "closedCalls [ServiceStream j] = []"
  "serviceCalls [ConnectionClosed i] = []" "serviceCalls [ServiceStream j] = [j]"
  by (simp_all add: closedCalls_def serviceCalls_def map_filter_def)

text \<open>The server is told exactly once that the connection closed, and of every stream when it is made.\<close>

definition calls_ok :: "Conn \<Rightarrow> bool" where
  "calls_ok c \<longleftrightarrow> closedCalls (calls c) = (if parent c \<and> \<not> running c then [connID c] else []) \<and>
     serviceCalls (calls c) = (if parent c then map fst (streams c) else [])"

definition setup_ok :: "Conn \<Rightarrow> bool" where
  "setup_ok c \<longleftrightarrow> compression c \<in> {CompressionMethodNone, CompressionMethodGzip} \<and>
     (\<not> configured c \<longrightarrow> streams c = [] \<and> compression c = CompressionMethodNone)"

definition output_ok :: "Conn \<Rightarrow> bool" where
  "output_ok c \<longleftrightarrow> (faultless (cio c) \<longrightarrow> compression c = CompressionMethodNone \<longrightarrow> wire_ok (outp (cio c)))"

text \<open>The frame to terminate after has been allocated.\<close>

definition ptr_ok :: "Conn \<Rightarrow> bool" where
  "ptr_ok c \<longleftrightarrow> (\<forall>p. terminateAfter c = Some p \<longrightarrow> p < nextPtr c)"

definition conn_inv :: "Conn \<Rightarrow> bool" where
  "conn_inv c \<longleftrightarrow> ptr_ok c \<and> shut_flags c \<and> table_ok (streams c) \<and> calls_ok c \<and> setup_ok c \<and> output_ok c"

lemmas conn_inv_defs = conn_inv_def ptr_ok_def shut_flags_def calls_ok_def setup_ok_def output_ok_def

lemma NewConn_inv: "\<not> ioclosed io \<Longrightarrow> outp io = [] \<Longrightarrow> conn_inv (NewConn p i io)"
  by (simp add: conn_inv_defs NewConn_def table_ok_def wire_ok_Nil)

lemma terminate_inv: "conn_inv c \<Longrightarrow> conn_inv (terminate c)"
  by (auto simp: conn_inv_defs terminate_def io_Close_def)

lemma terminate_sel [simp]:
  "streams (terminate c) = streams c" "configured (terminate c) = configured c" "compression (terminate c) = compression c"
  "\<not> running (terminate c)" "outp (cio (terminate c)) = outp (cio c)" "cerr (terminate c) = cerr c"
  by (simp_all add: terminate_def io_Close_def)

lemma neutral_updates_inv:
  "conn_inv c \<Longrightarrow> conn_inv (c\<lparr>nextPtr := Suc (nextPtr c)\<rparr>)"
  "conn_inv c \<Longrightarrow> conn_inv (c\<lparr>nextPtr := Suc (nextPtr c), terminateAfter := Some (nextPtr c)\<rparr>)"
  "conn_inv (c\<lparr>cerr := e\<rparr>) = conn_inv c"
  by (auto simp: conn_inv_defs less_Suc_eq)

text \<open>What a write leaves alone.\<close>

definition write_frame :: "Conn \<Rightarrow> Conn \<Rightarrow> bool" where
  "write_frame c c' \<longleftrightarrow> streams c' = streams c \<and> configured c' = configured c \<and> compression c' = compression c"

lemma io_Write_Ok:
  "io_Write d io = (Ok (), io') \<Longrightarrow> outp io' = outp io @ d \<and> ioclosed io' = ioclosed io \<and> faultless io' = faultless io"
  by (auto simp: io_Write_def split: if_splits option.splits)

lemma io_Write_Fail:
  assumes "io_Write d io = (Fail e, io')" and "\<not> ioclosed io"
  shows "\<not> faultless io" and "\<not> faultless io'" and "ioclosed io' = ioclosed io"
proof -
  from assms obtain k where k: "fault io (writes io) = Some (k, e)" "io' = io\<lparr>outp := outp io @ take k d, writes := Suc (writes io)\<rparr>"
    by (auto simp: io_Write_def split: option.splits)
  then have "\<exists>j. fault io j \<noteq> None" by blast
  then show "\<not> faultless io" by (simp add: faultless_def)
  with k show "\<not> faultless io'" and "ioclosed io' = ioclosed io" by simp_all
qed

lemma io_Write_cases:
  obtains io' where "io_Write d io = (Ok (), io')" | e io' where "io_Write d io = (Fail e, io')"
  by (cases "ioclosed io"; cases "fault io (writes io)") (auto simp: io_Write_def)

lemma io_Write_grows: "prefix (outp io) (outp (snd (io_Write d io)))"
  by (auto simp: io_Write_def split: option.splits)

lemma serviceWrite_cases:
  assumes "conn_inv c"
  obtains (Err) e where "cerr c = Some e" "serviceWrite z p fr c = (Fail e, c)"
    | (Sent) d io where "cerr c = None" "fst (Bytes z (compression c) fr) = Ok d" "io_Write d (cio c) = (Ok (), io)"
        "serviceWrite z p fr c = (Ok (), if terminateAfter c = Some p then terminate (c\<lparr>cio := io\<rparr>) else c\<lparr>cio := io\<rparr>)"
    | (Fault) d e io where "cerr c = None" "io_Write d (cio c) = (Fail e, io)"
        "serviceWrite z p fr c = (Fail e, c\<lparr>cio := io\<rparr>)"
proof (cases "cerr c")
  case (Some e)
  then show ?thesis using that(1) by (simp add: serviceWrite_def)
next
  case None
  have "\<exists>d. fst (Bytes z (compression c) fr) = Ok d"
    using assms by (auto simp: conn_inv_defs Bytes_def Compress_def Let_def)
  then obtain d where d: "fst (Bytes z (compression c) fr) = Ok d" by blast
  show ?thesis
  proof (cases rule: io_Write_cases [of d "cio c"])
    case (1 io')
    then show ?thesis using that(2) None d by (simp add: serviceWrite_def)
  next
    case (2 e io')
    then show ?thesis using that(3) None d by (simp add: serviceWrite_def)
  qed
qed

lemma Sent_inv:
  assumes "conn_inv c" and "running c" and "frame_ok fr" and "fst (Bytes z (compression c) fr) = Ok d" and "io_Write d (cio c) = (Ok (), io)"
  shows "conn_inv (c\<lparr>cio := io\<rparr>)"
proof -
  have "compression c = CompressionMethodNone \<Longrightarrow> d = frame_bytes fr"
    using assms(3,4) Bytes_frame_bytes [of fr z] by (simp add: frame_ok_def)
  then show ?thesis using assms io_Write_Ok [OF assms(5)] wire_ok_snoc by (auto simp: conn_inv_defs)
qed

lemma serviceWrite_keeps:
  assumes "conn_inv c" and "running c" and "frame_ok fr" and "serviceWrite z p fr c = (out, c')"
  shows "conn_inv c' \<and> write_frame c c'" and "returns out"
proof -
  from assms(1) have "conn_inv c' \<and> write_frame c c' \<and> returns out"
  proof (cases rule: serviceWrite_cases [of c z p fr])
    case (Sent d io)
    from Sent_inv [OF assms(1-3) Sent(2,3)] Sent(4) assms(4) show ?thesis
      by (auto simp: write_frame_def terminate_inv)
  next
    case (Fault d e io)
    have "\<not> ioclosed (cio c)" using assms(1,2) by (simp add: conn_inv_defs)
    from io_Write_Fail [OF Fault(2) this] Fault(3) assms(1,4) show ?thesis
      by (auto simp: conn_inv_defs write_frame_def)
  qed (use assms in \<open>auto simp: write_frame_def\<close>)
  then show "conn_inv c' \<and> write_frame c c'" and "returns out" by simp_all
qed

lemma Conn_WritePtr_keeps:
  assumes "conn_inv c" and "frame_ok fr"
  shows "conn_inv (snd (Conn_WritePtr z p fr c)) \<and> write_frame c (snd (Conn_WritePtr z p fr c))"
  using assms serviceWrite_keeps(1) [OF assms(1) _ assms(2), of z p]
  by (cases "serviceWrite z p fr c") (auto simp: Conn_WritePtr_def conn_inv_def shut_flags_def write_frame_def)

lemma Conn_Write_keeps:
  "conn_inv c \<Longrightarrow> frame_ok fr \<Longrightarrow> conn_inv (snd (Conn_Write z fr c)) \<and> write_frame c (snd (Conn_Write z fr c))"
  using Conn_WritePtr_keeps [of "c\<lparr>nextPtr := Suc (nextPtr c)\<rparr>" fr z "nextPtr c"]
  by (simp add: Conn_Write_def neutral_updates_inv write_frame_def)

text \<open>While the connection runs, a write returns; after that it panics.\<close>

lemma Conn_Write_returns:
  "conn_inv c \<Longrightarrow> running c \<Longrightarrow> frame_ok fr \<Longrightarrow> returns (fst (Conn_Write z fr c))"
  using serviceWrite_keeps(2) [OF neutral_updates_inv(1), of c fr z "nextPtr c"]
  by (cases "serviceWrite z (nextPtr c) fr (c\<lparr>nextPtr := Suc (nextPtr c)\<rparr>)")
    (auto simp: Conn_Write_def Conn_WritePtr_def conn_inv_def shut_flags_def)

lemma Conn_Write_terminated:
  "conn_inv c \<Longrightarrow> \<not> running c \<Longrightarrow> fst (Conn_Write z fr c) = Panic ''send on closed channel''"
  by (simp add: Conn_Write_def Conn_WritePtr_def conn_inv_defs)

text \<open>A frame that is not the last one does not terminate the connection.\<close>

lemma Conn_Write_running:
  assumes "conn_inv c" and "running c" and "frame_ok fr"
  shows "running (snd (Conn_Write z fr c))"
proof -
  let ?c = "c\<lparr>nextPtr := Suc (nextPtr c)\<rparr>"
  have inv: "conn_inv ?c" using assms(1) by (rule neutral_updates_inv)
  have "terminateAfter ?c \<noteq> Some (nextPtr c)" using assms(1) by (auto simp: conn_inv_def ptr_ok_def)
  with inv assms(2) have "running (snd (serviceWrite z (nextPtr c) fr ?c))"
    by (cases rule: serviceWrite_cases [of ?c z "nextPtr c" fr]) auto
  then show ?thesis using assms(2) by (simp add: Conn_Write_def Conn_WritePtr_def)
qed

interpretation cw: write_keeps "Conn_Write z" "\<lambda>c. conn_inv c \<and> write_frame c0 c" for z c0
  by unfold_locales (use Conn_Write_keeps in \<open>fastforce simp: write_frame_def\<close>)

interpretation cwr: write_returns "Conn_Write z" "\<lambda>c. conn_inv c \<and> running c" for z
  by unfold_locales (use Conn_Write_keeps Conn_Write_running Conn_Write_returns in blast)+

text \<open>The connection as the interface streams use.\<close>

definition Conn_out :: "Conn \<Rightarrow> bytes" where
  "Conn_out c = outp (cio c)"

definition Conn_ser :: "flate \<Rightarrow> Conn \<Rightarrow> frame \<Rightarrow> bytes" where
  "Conn_ser z c f = (case fst (Bytes z (compression c) f) of Ok d \<Rightarrow> d | _ \<Rightarrow> [])"

lemma Conn_Write_split:
  assumes "cerr c = None" and "\<not> toWriteClosed c" and "fst (Bytes z (compression c) f) = Ok d" and "io_Write d (cio c) = (out, io)"
  shows "Conn_Write z f c = bindR (out, c\<lparr>nextPtr := Suc (nextPtr c), cio := io\<rparr>) (\<lambda>_ c'.
    (Ok (), if terminateAfter c = Some (nextPtr c) then terminate c' else c'))"
  using assms by (cases out) (simp_all add: Conn_Write_def Conn_WritePtr_def serviceWrite_def)

lemma Conn_Write_nothing:
  "toWriteClosed c \<or> cerr c \<noteq> None \<or> \<not> is_Ok (fst (Bytes z (compression c) f)) \<Longrightarrow>
     \<not> is_Ok (fst (Conn_Write z f c)) \<and> cio (snd (Conn_Write z f c)) = cio c"
  by (cases "fst (Bytes z (compression c) f)"; cases "cerr c") (auto simp: Conn_Write_def Conn_WritePtr_def serviceWrite_def)

interpretation cc: conn "Conn_Write z" Conn_out "Conn_ser z" for z
proof
  fix f c c'
  assume w: "Conn_Write z f c = (Ok (), c')"
  have "\<not> (toWriteClosed c \<or> cerr c \<noteq> None \<or> \<not> is_Ok (fst (Bytes z (compression c) f)))"
  proof
    assume "toWriteClosed c \<or> cerr c \<noteq> None \<or> \<not> is_Ok (fst (Bytes z (compression c) f))"
    from Conn_Write_nothing [OF this] w show False by simp
  qed
  then have err: "cerr c = None" and opn: "\<not> toWriteClosed c" and "is_Ok (fst (Bytes z (compression c) f))" by simp_all
  then obtain d where d: "fst (Bytes z (compression c) f) = Ok d" by (cases "fst (Bytes z (compression c) f)") auto
  obtain out io where io: "io_Write d (cio c) = (out, io)" by fastforce
  from w have "bindR (out, c\<lparr>nextPtr := Suc (nextPtr c), cio := io\<rparr>) (\<lambda>_ c'.
    (Ok (), if terminateAfter c = Some (nextPtr c) then terminate c' else c')) = (Ok (), c')"
    unfolding Conn_Write_split [OF err opn d io] .
  then have "out = Ok ()" "outp (cio c') = outp io" "compression c' = compression c"
    by (auto simp: bindR_eq_Ok_iff)
  with io_Write_Ok [of d "cio c" io] io d show "Conn_out c' = Conn_out c @ Conn_ser z c f \<and> Conn_ser z c' = Conn_ser z c"
    by (auto simp: Conn_out_def Conn_ser_def)
next
  fix f c
  show "prefix (Conn_out c) (Conn_out (snd (Conn_Write z f c)))"
  proof (cases "toWriteClosed c \<or> cerr c \<noteq> None \<or> \<not> is_Ok (fst (Bytes z (compression c) f))")
    case True
    then show ?thesis using Conn_Write_nothing [OF True] by (simp add: Conn_out_def)
  next
    case False
    then obtain d where d: "fst (Bytes z (compression c) f) = Ok d" by (cases "fst (Bytes z (compression c) f)") auto
    obtain out io where io: "io_Write d (cio c) = (out, io)" by fastforce
    have "Conn_out (snd (Conn_Write z f c)) = outp io"
      using Conn_Write_split [OF _ _ d io] False by (cases out) (simp_all add: Conn_out_def)
    then show ?thesis using io_Write_grows [of "cio c" d] io by (simp add: Conn_out_def)
  qed
qed

section \<open>Every operation keeps the invariant\<close>

lemma goAway_frame_ok: "length d + 8 < 65536 \<Longrightarrow> frame_ok (GoAway_IntoFrame \<lparr>LastStreamID = i, goAwayErrorCode = ec, AdditionalData = d\<rparr>)"
  using goaway.into_sized goaway.into_known by (simp add: frame_ok_def GoAway_valid_def)

lemma goAway_inv: "conn_inv c \<Longrightarrow> length d + 8 < 65536 \<Longrightarrow> conn_inv (snd (goAway z ec d t c))"
  by (simp add: goAway_def Let_def Conn_WritePtr_keeps goAway_frame_ok neutral_updates_inv)

lemma protocolError_inv: "conn_inv c \<Longrightarrow> conn_inv (snd (protocolError z c))"
  by (simp add: protocolError_def goAway_inv)

lemma hello_frame_ok: "frame_ok (Hello_IntoFrame h)"
  using hello.into_known by (simp add: frame_ok_def frame_sized_def Hello_IntoFrame_def)

lemma ping_frame_ok: "length (pingPayload p) < 65536 \<Longrightarrow> frame_ok (Ping_IntoFrame p)"
  using ping.into_known by (simp add: frame_ok_def frame_sized_def Ping_IntoFrame_def unat_of_nat_small)

lemma hello_setup_inv:
  "conn_inv c \<Longrightarrow> \<not> configured c \<Longrightarrow> conn_inv ((if gz then c\<lparr>compression := CompressionMethodGzip\<rparr> else c)\<lparr>configured := True\<rparr>)"
  by (auto simp: conn_inv_defs)

lemma handleHello_inv:
  assumes "conn_inv c"
  shows "conn_inv (snd (handleHello z h c))"
proof (cases "configured c")
  case True
  then show ?thesis using assms by (simp add: handleHello_def protocolError_inv)
next
  case False
  let ?c = "(if CompressionGZip h then c\<lparr>compression := CompressionMethodGzip\<rparr> else c)\<lparr>configured := True\<rparr>"
  let ?w = "Conn_Write z (Hello_IntoFrame \<lparr>helloAck = True, CompressionGZip = CompressionGZip h, MaxConcurrentStreams = 0\<rparr>) ?c"
  have "conn_inv (snd ?w)" using Conn_Write_keeps [OF hello_setup_inv [OF assms False] hello_frame_ok] by blast
  with False show ?thesis
    by (cases ?w rule: outcome_pair_cases) (simp_all add: handleHello_def Let_def terminate_inv)
qed

lemma handlePing_inv:
  assumes "conn_inv c" and "length (pingPayload p) < 65536"
  shows "conn_inv (snd (handlePing z p c))"
proof -
  let ?w = "Conn_Write z (Ping_IntoFrame \<lparr>pingAck = True, pingPayload = pingPayload p\<rparr>) c"
  have "conn_inv (snd ?w)" using Conn_Write_keeps [OF assms(1) ping_frame_ok] assms(2) by simp
  then show ?thesis using assms(1)
    by (cases ?w rule: outcome_pair_cases)
      (simp_all add: handlePing_def protocolError_inv terminate_inv neutral_updates_inv)
qed

lemma table_ok_lookup: "table_ok ss \<Longrightarrow> map_of ss i = Some s \<Longrightarrow> strID s = i \<and> i \<noteq> 0 \<and> stream_inv s"
  by (auto simp: table_ok_def dest: map_of_SomeD)

lemma table_ok_update:
  assumes "table_ok ss" and "strID s = i" and "i \<noteq> 0" and "stream_inv s"
  shows "table_ok (AList.update i s ss)"
  using assms set_update_subset [of i s ss] by (auto simp: table_ok_def distinct_update)

lemma on_stream_inv:
  assumes inv: "conn_inv c" and get: "fetchStream i c = Some s"
    and keeps: "conn_inv (snd (snd (op (s, c)))) \<and> write_frame c (snd (snd (op (s, c))))"
    and kept: "stream_kept s (fst (snd (op (s, c))))"
  shows "conn_inv (snd (on_stream op i s c))"
proof -
  obtain out s' c' where op: "op (s, c) = (out, s', c')" by (metis prod_cases3)
  with keeps have inv': "conn_inv c'" and same: "streams c' = streams c" "configured c' = configured c"
    by (simp_all add: write_frame_def)
  from get inv have s: "strID s = i" "i \<noteq> 0" "stream_inv s" and mem: "i \<in> fst ` set (streams c)"
    using table_ok_lookup [of "streams c" i s] by (auto simp: conn_inv_def fetchStream_def intro: rev_image_eqI dest: map_of_SomeD)
  from kept op s have s': "strID s' = i" "stream_inv s'" by (simp_all add: stream_kept_def)
  from mem have "streams c \<noteq> []" by auto
  then have conf: "configured c'" using inv same by (auto simp: conn_inv_def setup_ok_def)
  have "table_ok (AList.update i s' (streams c'))"
    using inv' s s' table_ok_update by (simp add: conn_inv_def)
  moreover have "map fst (AList.update i s' (streams c')) = map fst (streams c')"
    using mem same by (simp add: keys_update)
  ultimately show ?thesis using inv' conf
    by (simp add: on_stream_def op conn_inv_defs)
qed

lemma write_frame_refl [simp]: "write_frame c c"
  by (simp add: write_frame_def)

lemma cancelStreams_loop_inv: "conn_inv c \<Longrightarrow> conn_inv (snd (cancelStreams_loop z ec is c))"
proof (induction "is" arbitrary: c)
  case (Cons i "is")
  show ?case
  proof (cases "fetchStream i c")
    case None
    with Cons show ?thesis by simp
  next
    case (Some s)
    have "conn_inv (snd (on_stream (stream_Reset (Conn_Write z) ec) i s c))"
      by (rule on_stream_inv [OF Cons.prems Some]) (use Cons.prems cw.stream_Reset_keeps [of _ c] stream_ops_kept in simp_all)
    then have "conn_inv (snd (ignoreErr (on_stream (stream_Reset (Conn_Write z) ec) i s c)))" by simp
    then have "conn_inv (snd (bindR (ignoreErr (on_stream (stream_Reset (Conn_Write z) ec) i s c)) (\<lambda>_. cancelStreams_loop z ec is)))"
      by (rule bindR_keeps) (rule Cons.IH)
    with Some show ?thesis by simp
  qed
qed simp

lemma handleGoAway_inv: "conn_inv c \<Longrightarrow> conn_inv (snd (handleGoAway z ord m c))"
  using cancelStreams_loop_inv [of c z "goAwayErrorCode m" "ord (map fst (streams c))"]
  by (cases "cancelStreams z ord (goAwayErrorCode m) c" rule: outcome_pair_cases)
    (simp_all add: handleGoAway_def protocolError_inv terminate_inv cancelStreams_def)

lemma resetStream_inv: "conn_inv c \<Longrightarrow> conn_inv (snd (resetStream z i ec c))"
  using Conn_Write_keeps cw.reset_frame_ok by (simp add: resetStream_def)

lemma handleMakeStream_inv:
  assumes inv: "conn_inv c" and id: "makeStreamID m \<noteq> 0"
  shows "conn_inv (snd (handleMakeStream z m c))"
proof (cases "configured c \<and> fetchStream (makeStreamID m) c = None")
  case True
  let ?i = "makeStreamID m"
  from True have new: "?i \<notin> fst ` set (streams c)" by (simp add: fetchStream_def map_of_eq_None_iff)
  have "table_ok (AList.update ?i (NewStream ?i) (streams c))"
    using inv id by (intro table_ok_update) (simp_all add: conn_inv_def NewStream_def stream_inv_def)
  with inv True new show ?thesis
    by (auto simp: handleMakeStream_def Let_def conn_inv_defs keys_update)
next
  case False
  with inv show ?thesis by (auto simp: handleMakeStream_def Let_def protocolError_inv)
qed

lemma handleResetFrame_inv:
  assumes "conn_inv c"
  shows "conn_inv (snd (handleResetFrame z rs c))"
proof (cases "fetchStream (resetStreamID rs) c")
  case (Some s)
  have "conn_inv (snd (on_stream (stream_handleResetStream (Conn_Write z) rs) (resetStreamID rs) s c))"
    by (rule on_stream_inv [OF assms Some]) (use assms cw.stream_handleResetStream_keeps [of _ c] stream_ops_kept in simp_all)
  with Some assms show ?thesis by (simp add: handleResetFrame_def protocolError_inv)
qed (use assms in \<open>simp add: handleResetFrame_def protocolError_inv resetStream_inv\<close>)

lemma handleData_inv:
  assumes "conn_inv c"
  shows "conn_inv (snd (handleData z d c))"
proof (cases "fetchStream (dataStreamID d) c")
  case (Some s)
  have "conn_inv (snd (on_stream (stream_handleData (Conn_Write z) d) (dataStreamID d) s c))"
    by (rule on_stream_inv [OF assms Some]) (use assms cw.stream_handleData_keeps [of _ c] stream_ops_kept in simp_all)
  with Some assms show ?thesis by (simp add: handleData_def protocolError_inv)
qed (use assms in \<open>simp add: handleData_def protocolError_inv resetStream_inv\<close>)

lemma handleWith_inv:
  assumes "conn_inv c" and "\<And>m. FromFrame zero fr = (Ok (), m) \<Longrightarrow> conn_inv (snd (handle m c))"
  shows "conn_inv (snd (handleWith FromFrame zero handle z fr c))"
  using assms by (cases "FromFrame zero fr" rule: outcome_pair_cases) (simp_all add: handleWith_def protocolError_inv)

lemma Ping_FromFrame_payload: "Ping_FromFrame p f = (Ok (), m) \<Longrightarrow> frame_sized f \<Longrightarrow> length (pingPayload m) = 8"
  by (auto simp: Ping_FromFrame_def bindR_eq_Ok_iff ValidateSize_def frame_sized_def split: if_splits)

lemma MakeStream_FromFrame_id: "MakeStream_FromFrame p f = (Ok (), m) \<Longrightarrow> makeStreamID m \<noteq> 0"
  by (auto simp: MakeStream_FromFrame_def bindR_eq_Ok_iff ValidateKind_def split: if_splits)

lemma dispatchFrame_inv:
  assumes "conn_inv c" and "frame_sized fr"
  shows "conn_inv (snd (dispatchFrame z ord fr c))"
  unfolding dispatchFrame_def Let_def
  by (auto intro!: handleWith_inv protocolError_inv handleHello_inv handlePing_inv handleGoAway_inv handleMakeStream_inv
      handleResetFrame_inv handleData_inv assms dest: Ping_FromFrame_payload [OF _ assms(2)] MakeStream_FromFrame_id)

text \<open>A Write to a stream of the connection that succeeds was allowed by the state of the stream, has sent exactly the DATA frames of
  the buffer, and has closed the local direction if the end was asked for.\<close>

lemma stream_Write_sends:
  assumes "stream_Write (Conn_Write z) d e (s, c) = (Ok (), s', c')"
  shows "localOpen (duplex_of (sstate s)) \<and> failure (duplex_of (sstate s)) = None \<and>
    Conn_out c' = Conn_out c @ concat (map (Conn_ser z c) (map Data_IntoFrame (DataFramesFromBuffer (strID s) e d))) \<and>
    s' = (if e then s\<lparr>sstate := streamState_CloseLocal (sstate s)\<rparr> else s)"
  using cc.stream_Write_Ok [OF assms] by blast

end
