(* ===== verification/Wire_Server.thy ===== *)
theory Wire_Server
  imports Wire_Conn
begin

text \<open>
  Sessions of a server connection: whatever the peer sends, a handler that runs undisturbed does not panic, and a
  reading goroutine that runs undisturbed ends when the input ends unless a full queue holds it (the theory \<open>Wire_Reading\<close> has the goroutine
  among the others, where it can panic); in every interleaving of received frames with
  the application's calls the invariant holds, so the peer can parse everything that is sent. The last section
  models the table of connections (\<^verbatim>\<open>src/wire/server.go\<close>).
\<close>

section \<open>No panic\<close>

lemma Conn_WritePtr_returns:
  "conn_inv c \<Longrightarrow> running c \<Longrightarrow> frame_ok fr \<Longrightarrow> returns (fst (Conn_WritePtr z p fr c))"
  using serviceWrite_keeps(2) [of c fr z p]
  by (cases "serviceWrite z p fr c") (auto simp: Conn_WritePtr_def conn_inv_def shut_flags_def)

lemma protocolError_Ok: "conn_inv c \<Longrightarrow> running c \<Longrightarrow> fst (protocolError z c) = Ok ()"
  by (simp add: ignoreErr_Ok protocolError_def goAway_def Let_def Conn_WritePtr_returns goAway_frame_ok neutral_updates_inv)

lemma resetStream_Ok: "conn_inv c \<Longrightarrow> running c \<Longrightarrow> fst (resetStream z i ec c) = Ok ()"
  by (simp add: ignoreErr_Ok resetStream_def Conn_Write_returns cw.reset_frame_ok)

lemma fst_on_stream [simp]: "fst (on_stream op i s c) = fst (op (s, c))"
  by (simp add: on_stream_def split: prod.splits)

lemma running_on_stream [simp]: "running (snd (on_stream op i s c)) = running (snd (snd (op (s, c))))"
  by (simp add: on_stream_def split: prod.splits)

lemma cancelStreams_loop_Ok:
  "conn_inv c \<Longrightarrow> running c \<Longrightarrow> fst (cancelStreams_loop z ec is c) = Ok () \<and> running (snd (cancelStreams_loop z ec is c))"
proof (induction "is" arbitrary: c)
  case (Cons i "is")
  show ?case
  proof (cases "fetchStream i c")
    case None
    with Cons show ?thesis by simp
  next
    case (Some s)
    let ?m = "on_stream (stream_Reset (Conn_Write z) ec) i s c"
    have ret: "returns (fst ?m)" and run: "running (snd ?m)"
      using cwr.stream_Reset_returns [of c z ec s] cwr.stream_Reset_keeps [of c z ec s] Cons.prems by simp_all
    have inv: "conn_inv (snd ?m)"
      by (rule on_stream_inv [OF Cons.prems(1) Some]) (use Cons.prems cw.stream_Reset_keeps [of _ c] stream_ops_kept in simp_all)
    from Cons.IH [OF inv run] ret run Some show ?thesis
      by (cases ?m rule: outcome_pair_cases) simp_all
  qed
qed simp

lemma handlers_Ok:
  assumes "conn_inv c" and "running c"
  shows "fst (handleHello z h c) = Ok ()" and "length (pingPayload p) < 65536 \<Longrightarrow> fst (handlePing z p c) = Ok ()"
    and "fst (handleGoAway z ord g c) = Ok ()" and "fst (handleMakeStream z m c) = Ok ()"
    and "fst (handleResetFrame z rs c) = Ok ()"
proof -
  note perr = protocolError_Ok [OF assms]
  show "fst (handleHello z h c) = Ok ()"
  proof (cases "configured c")
    case False
    let ?c = "(if CompressionGZip h then c\<lparr>compression := CompressionMethodGzip\<rparr> else c)\<lparr>configured := True\<rparr>"
    let ?w = "Conn_Write z (Hello_IntoFrame \<lparr>helloAck = True, CompressionGZip = CompressionGZip h, MaxConcurrentStreams = 0\<rparr>) ?c"
    have "returns (fst ?w)" using Conn_Write_returns [OF hello_setup_inv [OF assms(1) False] _ hello_frame_ok] assms(2) by simp
    with False show ?thesis by (cases ?w rule: outcome_pair_cases) (simp_all add: handleHello_def Let_def)
  qed (use perr in \<open>simp add: handleHello_def\<close>)
  show "fst (handlePing z p c) = Ok ()" if "length (pingPayload p) < 65536"
  proof -
    let ?w = "Conn_Write z (Ping_IntoFrame \<lparr>pingAck = True, pingPayload = pingPayload p\<rparr>) c"
    have "returns (fst ?w)" using Conn_Write_returns [OF assms ping_frame_ok] that by simp
    then show ?thesis using perr by (cases ?w rule: outcome_pair_cases) (simp_all add: handlePing_def)
  qed
  show "fst (handleGoAway z ord g c) = Ok ()"
    using perr cancelStreams_loop_Ok [OF assms] by (simp add: handleGoAway_def cancelStreams_def bindR_fst_Ok)
  show "fst (handleMakeStream z m c) = Ok ()"
    using perr by (simp add: handleMakeStream_def Let_def split: option.splits)
  show "fst (handleResetFrame z rs c) = Ok ()"
    using perr resetStream_Ok [OF assms] cwr.stream_handleResetStream_Ok [of c z rs] assms
    by (simp add: handleResetFrame_def split: option.splits)
qed

text \<open>A handler returns, or waits because the queue of a stream is full.\<close>

definition queue_full :: "Conn \<Rightarrow> bool" where
  "queue_full c \<longleftrightarrow> (\<exists>(i, s)\<in>set (streams c). \<not> length (blocks (sreader s)) < chanCap)"

definition answered :: "unit outcome \<times> Conn \<Rightarrow> bool" where
  "answered m \<longleftrightarrow> fst m = Ok () \<or> fst m = Blocks \<and> queue_full (snd m)"

lemma answered_Ok: "fst m = Ok () \<Longrightarrow> answered m"
  by (simp add: answered_def)

lemma answered_safe: "answered m \<Longrightarrow> safe (fst m)"
  by (auto simp: answered_def)

lemma handleData_answered:
  assumes "conn_inv c" and "running c"
  shows "answered (handleData z d c)"
proof (cases "configured c \<and> fetchStream (dataStreamID d) c \<noteq> None")
  case True
  then obtain s where s: "fetchStream (dataStreamID d) c = Some s" by auto
  have eq: "handleData z d c = on_stream (stream_handleData (Conn_Write z) d) (dataStreamID d) s c"
    using True s by (simp add: handleData_def)
  show ?thesis
  proof (cases "RecvData (sstate s) = Ok () \<and> fst (Enqueue (dataPayload d) (sreader s)) = Blocks")
    case True
    then have full: "\<not> length (blocks (sreader s)) < chanCap" and enq: "Enqueue (dataPayload d) (sreader s) = (Blocks, sreader s)"
      by (auto simp: Enqueue_def split: if_splits)
    from True enq have "stream_handleData (Conn_Write z) d (s, c) = (Blocks, s, c)" by (simp add: stream_handleData_def)
    then have "handleData z d c = (Blocks, c\<lparr>streams := AList.update (dataStreamID d) s (streams c)\<rparr>)"
      by (simp add: eq on_stream_def)
    with full in_update show ?thesis by (fastforce simp: answered_def queue_full_def)
  next
    case False
    then have "fst (stream_handleData (Conn_Write z) d (s, c)) = Ok ()"
      using cwr.stream_reset_returns [of "(s, c)" z] assms
      by (auto simp: stream_handleData_def Enqueue_def ignoreErr_Ok split: if_splits)
    then show ?thesis by (simp add: eq answered_Ok)
  qed
next
  case False
  then show ?thesis using protocolError_Ok [OF assms] resetStream_Ok [OF assms]
    by (auto simp: handleData_def answered_Ok split: option.splits)
qed

lemma handleWith_answered:
  assumes "conn_inv c" and "running c" and "returns (fst (FromFrame zero fr))"
    and "\<And>m. FromFrame zero fr = (Ok (), m) \<Longrightarrow> answered (handle m c)"
  shows "answered (handleWith FromFrame zero handle z fr c)"
  using assms protocolError_Ok [OF assms(1,2)]
  by (cases "FromFrame zero fr" rule: outcome_pair_cases) (simp_all add: handleWith_def answered_Ok)

lemma dispatchFrame_answered:
  assumes "conn_inv c" and "running c" and "frame_sized fr"
  shows "answered (dispatchFrame z ord fr c)"
proof -
  note h = handlers_Ok [OF assms(1,2), THEN answered_Ok]
  note t = hello.from_total ping.from_total goaway.from_total makestream.from_total resetstream.from_total data.from_total
  show ?thesis
    unfolding dispatchFrame_def Let_def
    by (auto intro!: handleWith_answered [OF assms(1,2)] h handleData_answered assms t [OF assms(3)]
        answered_Ok [OF protocolError_Ok] dest: Ping_FromFrame_payload [OF _ assms(3)])
qed

section \<open>The reading goroutine\<close>

text \<open>On a connection whose end is reported, whatever the bytes: the goroutine, undisturbed, ends with the connection terminated, or
  it waits for ever on a full queue.\<close>

lemma serviceReads_ends:
  assumes "conn_inv c" and "ends r" and "serviceReads z ord r c = (out, r', c')"
  shows "conn_inv c' \<and> (out = Ok () \<and> \<not> running c' \<or> out = Blocks \<and> queue_full c')"
  using assms
proof (induction z ord r c rule: serviceReads.induct)
  case (1 z ord r c)
  show ?case
  proof (cases "running c")
    case False
    with 1 show ?thesis by (simp add: serviceReads.simps)
  next
    case run: True
    note step = serviceReads.simps [of z ord r c]
    show ?thesis
    proof (cases "FrameReader_Read r" rule: outcome_pair_cases)
      case (Ok fr r1)
      have fr: "frame_sized fr" using FrameReader_Read_ok [OF Ok] by (simp add: frame_ok_def)
      have e1: "ends r1" using FrameReader_Read_ends [OF "1.prems"(2)] Ok by simp
      have inv: "conn_inv (snd (dispatchFrame z ord fr c))" using "1.prems"(1) fr by (rule dispatchFrame_inv)
      have ans: "answered (dispatchFrame z ord fr c)" using "1.prems"(1) run fr by (rule dispatchFrame_answered)
      show ?thesis
      proof (cases "dispatchFrame z ord fr c" rule: outcome_pair_cases)
        case d: (Ok u c1)
        with "1.IH" [OF _ Ok [symmetric] refl d [symmetric] refl] "1.prems"(3) inv e1 run Ok show ?thesis by (simp add: step)
      qed (use ans inv "1.prems"(3) run Ok in \<open>auto simp: step answered_def\<close>)
    qed (use "1.prems" run FrameReader_Read_ends [OF "1.prems"(2)] in
        \<open>auto simp: step terminate_inv neutral_updates_inv\<close>)
  qed
qed

section \<open>Sessions\<close>

text \<open>
  The steps of a session: bytes arrive, the reading
  goroutine handles a frame or meets the end, the application calls a stream, the server shuts down. Each handler and
  each call runs without interruption; their order is arbitrary.
\<close>

inductive session_step :: "flate \<Rightarrow> mapOrder \<Rightarrow> reader \<times> Conn \<Rightarrow> reader \<times> Conn \<Rightarrow> bool" for z ord where
  arrive: "session_step z ord (Base cs t, c) (Base (cs @ [d]) t, c)"
| recv: "running c \<Longrightarrow> FrameReader_Read r = (Ok fr, r') \<Longrightarrow> dispatchFrame z ord fr c = (Ok (), c') \<Longrightarrow>
     session_step z ord (r, c) (r', c')"
| recv_end: "running c \<Longrightarrow> FrameReader_Read r = (Fail e, r') \<Longrightarrow>
     session_step z ord (r, c) (r', terminate (c\<lparr>cerr := Some e\<rparr>))"
| app: "fetchStream i c = Some s \<Longrightarrow> on_stream (app_call (Conn_Write z) op) i s c = (out, c') \<Longrightarrow> returns out \<Longrightarrow>
     session_step z ord (r, c) (r, c')"
| shutdown: "goAway z ErrorCodeNoError [] True c = (Ok (), c') \<Longrightarrow> session_step z ord (r, c) (r, c')"

inductive session :: "flate \<Rightarrow> mapOrder \<Rightarrow> netio \<Rightarrow> reader \<times> Conn \<Rightarrow> bool" for z ord io where
  session_start: "session z ord io (Base [] t, NewConn hasParent i io)"
| session_next: "session z ord io rc \<Longrightarrow> session_step z ord rc rc' \<Longrightarrow> session z ord io rc'"

lemma session_step_inv: "session_step z ord rc rc' \<Longrightarrow> conn_inv (snd rc) \<Longrightarrow> conn_inv (snd rc')"
proof (induction rule: session_step.induct)
  case (recv c r fr r' c')
  then show ?case using dispatchFrame_inv [of c fr z ord] FrameReader_Read_ok [of r fr r'] by (simp add: frame_ok_def)
next
  case (recv_end c r e r')
  then show ?case by (simp add: terminate_inv neutral_updates_inv)
next
  case (app i c s op out c' r)
  have inv: "conn_inv c" using app.prems by simp
  from on_stream_inv [of c i s "app_call (Conn_Write z) op", OF inv app.hyps(1) cw.app_call_keeps app_call_kept] inv app.hyps(2)
  show ?case by simp
next
  case (shutdown c c' r)
  then show ?case using goAway_inv [of c "[]" z ErrorCodeNoError True] by simp
qed simp

lemma session_inv: "session z ord io rc \<Longrightarrow> \<not> ioclosed io \<Longrightarrow> outp io = [] \<Longrightarrow> conn_inv (snd rc)"
  by (induction rule: session.induct) (auto simp: NewConn_inv session_step_inv)

section \<open>The table of connections\<close>

text \<open>
  Connections are numbered in the order they are accepted; \<open>heap\<close> holds them by that number, \<open>connections\<close> is the
  map of the code from identifiers to connections.
\<close>

record Server =
  connections :: "(int \<times> nat) list"
  nextConnID :: int
  heap :: "Conn list"
  listening :: bool

definition NewServer :: Server where
  "NewServer = \<lparr>connections = [], nextConnID = 0, heap = [], listening = True\<rparr>"

definition connectionClosed :: "int \<Rightarrow> Server \<Rightarrow> Server" where
  "connectionClosed i s = s\<lparr>connections := AList.delete i (connections s)\<rparr>"

text \<open>The body of the loop of \<^verbatim>\<open>Serve\<close> once a connection is accepted.\<close>

definition Serve_accept :: "netio \<Rightarrow> Server \<Rightarrow> Server" where
  "Serve_accept io s =
     (let c = NewConn True (nextConnID s) io;
          s = s\<lparr>heap := heap s @ [c], nextConnID := nextConnID s + 1\<rparr>
      in s\<lparr>connections := AList.update (nextConnID s) (length (heap s) - 1) (connections s)\<rparr>)"

text \<open>The loop: the argument is what the calls of \<^verbatim>\<open>Accept\<close> return; when there is nothing more, \<^verbatim>\<open>Accept\<close> waits.\<close>

primrec Serve :: "netio outcome list \<Rightarrow> Server \<Rightarrow> unit outcome \<times> Server" where
  "Serve [] s = (Blocks, s)"
| "Serve (a # accepts) s =
     (case a of
        Ok io \<Rightarrow> Serve accepts (Serve_accept io s)
      | Fail e \<Rightarrow> (Fail e, s)
      | Panic m \<Rightarrow> (Panic m, s)
      | Blocks \<Rightarrow> (Blocks, s))"

text \<open>A connection of the table terminates and calls back.\<close>

definition Server_terminated :: "nat \<Rightarrow> Server \<Rightarrow> Server" where
  "Server_terminated p s =
     connectionClosed (connID (heap s ! p)) (s\<lparr>heap := (heap s)[p := terminate (heap s ! p)]\<rparr>)"

primrec Shutdown_loop :: "flate \<Rightarrow> nat list \<Rightarrow> Server \<Rightarrow> unit outcome \<times> Server" where
  "Shutdown_loop z [] s = (Ok (), s)"
| "Shutdown_loop z (p # ps) s =
     (let (out, c) = goAway z ErrorCodeNoError [] True (heap s ! p) in
      bindR (out, s\<lparr>heap := (heap s)[p := c]\<rparr>) (\<lambda>_. Shutdown_loop z ps))"

text \<open>\<open>ord\<close> is the order of Go's iteration over the map.\<close>

definition Shutdown :: "flate \<Rightarrow> (nat list \<Rightarrow> nat list) \<Rightarrow> Server \<Rightarrow> unit outcome \<times> Server" where
  "Shutdown z ord s = Shutdown_loop z (ord (map snd (connections s))) (s\<lparr>listening := False\<rparr>)"

text \<open>Every connection is stored under the identifier after its own.\<close>

definition server_inv :: "Server \<Rightarrow> bool" where
  "server_inv s \<longleftrightarrow> nextConnID s = int (length (heap s)) \<and> distinct (map fst (connections s)) \<and>
     (\<forall>p<length (heap s). connID (heap s ! p) = int p) \<and> (\<forall>(k, p)\<in>set (connections s). k = int p + 1 \<and> p < length (heap s))"

lemma NewServer_inv: "server_inv NewServer"
  by (simp add: server_inv_def NewServer_def)

lemma Serve_accept_inv:
  assumes "server_inv s"
  shows "server_inv (Serve_accept io s)" and "(int (length (heap s)) + 1, length (heap s)) \<in> set (connections (Serve_accept io s))"
  using assms in_update [of "nextConnID s + 1" "length (heap s)" "connections s"]
  by (auto simp: server_inv_def Serve_accept_def Let_def NewConn_def distinct_update nth_append less_Suc_eq dest!: in_updateD)

text \<open>Until the listener fails, every accepted connection is started and put into the table.\<close>

lemma Serve_accepts:
  assumes "server_inv s"
  shows "\<exists>s'. Serve (map Ok ios @ [Fail e]) s = (Fail e, s') \<and> server_inv s' \<and>
    heap s' = heap s @ map (\<lambda>(i, io). NewConn True (int i) io) (enumerate (length (heap s)) ios) \<and>
    (\<forall>p. length (heap s) \<le> p \<longrightarrow> p < length (heap s') \<longrightarrow> (int p + 1, p) \<in> set (connections s')) \<and>
    set (connections s) \<subseteq> set (connections s')"
  using assms
proof (induction ios arbitrary: s)
  case (Cons io ios)
  let ?s = "Serve_accept io s"
  note acc = Serve_accept_inv [OF Cons.prems, of io]
  have heap: "heap ?s = heap s @ [NewConn True (int (length (heap s))) io]"
    using Cons.prems by (simp add: Serve_accept_def Let_def server_inv_def)
  have "int (length (heap s)) + 1 \<notin> fst ` set (connections s)" using Cons.prems by (force simp: server_inv_def)
  then have keep: "set (connections s) \<subseteq> set (connections ?s)"
    using Cons.prems by (simp add: Serve_accept_def Let_def server_inv_def update_new map_of_eq_None_iff subset_insertI)
  from Cons.IH [OF acc(1)] obtain s' where s': "Serve (map Ok ios @ [Fail e]) ?s = (Fail e, s')" "server_inv s'"
    "heap s' = heap ?s @ map (\<lambda>(i, io). NewConn True (int i) io) (enumerate (length (heap ?s)) ios)"
    "\<forall>p. length (heap ?s) \<le> p \<longrightarrow> p < length (heap s') \<longrightarrow> (int p + 1, p) \<in> set (connections s')"
    "set (connections ?s) \<subseteq> set (connections s')" by blast
  have "(int p + 1, p) \<in> set (connections s')" if "length (heap s) \<le> p" "p < length (heap s')" for p
    using that s'(4,5) acc(2) heap by (cases "p = length (heap s)") auto
  with s' keep heap show ?case by auto
qed simp

text \<open>So a connection that closes does not remove itself.\<close>

lemma Server_terminated_keeps:
  assumes "server_inv s" and "(k, p) \<in> set (connections s)"
  shows "(k, p) \<in> set (connections (Server_terminated p s))"
  using assms by (auto simp: server_inv_def Server_terminated_def connectionClosed_def in_delete)

text \<open>The server stores a connection under the identifier after its own, so a connection that terminates leaves its entry behind.\<close>

lemma server_table_leaks:
  assumes "server_inv s"
  shows "server_inv (Serve_accept io s) \<and>
    (\<exists>k. (k, length (heap s)) \<in> set (connections (Server_terminated (length (heap s)) (Serve_accept io s))))"
  using Serve_accept_inv [OF assms] Server_terminated_keeps by blast

end
