(* ===== verification/Wire_Client.thy ===== *)
theory Wire_Client
  imports Wire_Conn
begin

text \<open>
  The client's side of a connection (\<^verbatim>\<open>src/wire/client.go\<close>). As on the server, \<^verbatim>\<open>Write\<close> runs the body of
  the writing goroutine for its frame and waits for the answer; pings are answered on the connection directly. The
  state is the one after \<^verbatim>\<open>service\<close> has started its goroutines.
\<close>

section \<open>Error texts\<close>

definition errorToString :: "(errorCode \<times> string) list" where
  "errorToString =
    [(ErrorCodeNoError, ''No error''), (ErrorCodeProtocolError, ''Protocol error''),
     (ErrorCodeInternalError, ''Internal error''), (ErrorCodeStreamClosed, ''Stream closed''),
     (ErrorCodeFrameSizeError, ''Frame size error''), (ErrorCodeRefusedStream, ''Refused stream''),
     (ErrorCodeCancel, ''Cancel''), (ErrorCodeCompressionError, ''Compression error''),
     (ErrorCodeEnhanceYourCalm, ''Enhance your calm''), (ErrorCodeInadequateSecurity, ''Inadequate security'')]"

text \<open>\<^verbatim>\<open>%02x\<close>\<close>

fun hexdigits :: "nat \<Rightarrow> string" where
  "hexdigits n = (if n < 16 then [''0123456789abcdef'' ! n] else hexdigits (n div 16) @ [''0123456789abcdef'' ! (n mod 16)])"

declare hexdigits.simps [simp del]

definition hex02 :: "nat \<Rightarrow> string" where
  "hex02 n = (if n < 16 then CHR ''0'' # hexdigits n else hexdigits n)"

definition ErrorCode_String :: "errorCode \<Rightarrow> string" where
  "ErrorCode_String e =
     (case map_of errorToString e of Some s \<Rightarrow> s | None \<Rightarrow> ''unknown error 0x'' @ hex02 (unat e))"

section \<open>State and operations\<close>

record client =
  clio :: netio
  clToWriteClosed :: bool
  clDropClosed :: bool
  helloOK :: bool
  clCompression :: compressionMethod
  clErr :: "goerr option"
  clStreams :: "(u32 \<times> stream) list"
  clLastStreamID :: u32
  clRunning :: bool
  clSetup :: bool
  clMaxConcurrentStreams :: u32

definition NewClient :: "netio \<Rightarrow> client" where
  "NewClient io =
     \<lparr>clio = io, clToWriteClosed = False, clDropClosed = False, helloOK = False, clCompression = CompressionMethodNone,
      clErr = None, clStreams = [], clLastStreamID = 0, clRunning = True, clSetup = False, clMaxConcurrentStreams = 0\<rparr>"

definition client_serviceWrite :: "flate \<Rightarrow> frame \<Rightarrow> client \<Rightarrow> unit outcome \<times> client" where
  "client_serviceWrite z fr c =
     bindR (fst (Bytes z (clCompression c) fr), c) (\<lambda>d c.
       let (out, io) = io_Write d (clio c); c = c\<lparr>clio := io\<rparr> in
       case out of
         Fail e \<Rightarrow>
           (case clErr c of
              Some e' \<Rightarrow> (Fail e', c)
            | None \<Rightarrow> if \<not> clRunning c then (Blocks, c) else (Fail e, c))
       | out \<Rightarrow> (out, c))"

definition client_Write :: "flate \<Rightarrow> frame \<Rightarrow> client \<Rightarrow> unit outcome \<times> client" where
  "client_Write z fr c =
     (case clErr c of
        Some e \<Rightarrow> (Fail e, c)
      | None \<Rightarrow> if clToWriteClosed c then (Panic ''send on closed channel'', c) else client_serviceWrite z fr c)"

definition waitForHello :: "client \<Rightarrow> unit outcome" where
  "waitForHello c = (if helloOK c then Ok () else Blocks)"

text \<open>\<^verbatim>\<open>Configure\<close> sends a HELLO frame and then waits; the two halves are separate steps of a session.\<close>

definition Configure_send :: "flate \<Rightarrow> compressionMethod \<Rightarrow> client \<Rightarrow> unit outcome \<times> client" where
  "Configure_send z m c =
     client_Write z (Hello_IntoFrame \<lparr>helloAck = False, CompressionGZip = (m = CompressionMethodGzip), MaxConcurrentStreams = 0\<rparr>) c"

definition Configure :: "flate \<Rightarrow> compressionMethod \<Rightarrow> client \<Rightarrow> unit outcome \<times> client" where
  "Configure z m c = bindR (Configure_send z m c) (\<lambda>_ c. (waitForHello c, c))"

definition client_Close :: "client \<Rightarrow> unit outcome \<times> client" where
  "client_Close c = (Ok (), c\<lparr>clio := io_Close (clio c), helloOK := True\<rparr>)"

definition client_NewStream :: "flate \<Rightarrow> client \<Rightarrow> u32 outcome \<times> client" where
  "client_NewStream z c =
     (case clErr c of
        Some e \<Rightarrow> (Fail e, c)
      | None \<Rightarrow>
          let i = clLastStreamID c + 1; c = c\<lparr>clLastStreamID := clLastStreamID c + 1\<rparr> in
          bindR (client_Write z (MakeStream_IntoFrame \<lparr>makeStreamID = i\<rparr>) c) (\<lambda>_ c.
            (Ok i, c\<lparr>clStreams := AList.update i (NewStream i) (clStreams c)\<rparr>)))"

definition client_Terminate :: "flate \<Rightarrow> errorCode \<Rightarrow> client \<Rightarrow> unit outcome \<times> client" where
  "client_Terminate z reason c =
     (case clErr c of
        Some e \<Rightarrow> (Fail e, c)
      | None \<Rightarrow> client_Write z (GoAway_IntoFrame
          \<lparr>LastStreamID = clLastStreamID c, goAwayErrorCode = reason, AdditionalData = []\<rparr>) c)"

definition client_terminate :: "client \<Rightarrow> client" where
  "client_terminate c =
     (if \<not> clRunning c then c else c\<lparr>clRunning := False, clToWriteClosed := True, clDropClosed := True\<rparr>)"

text \<open>The two ends of \<^verbatim>\<open>service\<close>, and what \<^verbatim>\<open>NewClient\<close> does with its result.\<close>

definition client_service_end :: "goerr \<Rightarrow> client \<Rightarrow> client" where
  "client_service_end err c =
     (let c = client_terminate c; result = (if \<not> clRunning c then None else Some err) in
      if clErr c = None then c\<lparr>clErr := result\<rparr> else c)"

text \<open>The code sets the error and then returns because it is set.\<close>

definition client_reset :: "flate \<Rightarrow> errorCode \<Rightarrow> string \<Rightarrow> client \<Rightarrow> unit outcome \<times> client" where
  "client_reset z reason details c =
     (let c = c\<lparr>clErr := Some (ConnectionResetError reason details)\<rparr> in
      if clErr c \<noteq> None then (Ok (), c)
      else
        bindR (fst (Bytes z (clCompression c) (GoAway_IntoFrame
            \<lparr>LastStreamID = clLastStreamID c, goAwayErrorCode = reason, AdditionalData = []\<rparr>)), c) (\<lambda>d c.
          let (out, io) = io_Write d (clio c) in ignoreErr (out, c\<lparr>clio := io\<rparr>)))"

definition client_handlePing :: "flate \<Rightarrow> pingFrame \<Rightarrow> client \<Rightarrow> unit outcome \<times> client" where
  "client_handlePing z p c =
     (if pingAck p then (Ok (), c)
      else
        bindR (fst (Bytes z (clCompression c) (Ping_IntoFrame \<lparr>pingAck = True, pingPayload = pingPayload p\<rparr>)), c) (\<lambda>d c.
          let (out, io) = io_Write d (clio c) in (out, c\<lparr>clio := io\<rparr>)))"

definition client_handleGoAway :: "goAwayFrame \<Rightarrow> client \<Rightarrow> unit outcome \<times> client" where
  "client_handleGoAway g c =
     (if \<not> clRunning c then (Ok (), c)
      else
        let c = c\<lparr>clRunning := False,
                  clErr := Some (ConnectionResetError (goAwayErrorCode g)
                    (''Server closed connection with status '' @ ErrorCode_String (goAwayErrorCode g)))\<rparr>
        in (Ok (), client_terminate c))"

definition client_handleHello :: "flate \<Rightarrow> helloFrame \<Rightarrow> client \<Rightarrow> unit outcome \<times> client" where
  "client_handleHello z h c =
     bindR (if \<not> helloAck h then client_reset z ErrorCodeProtocolError ''Server emitted a non-ack HELLO frame'' c
            else (Ok (), c)) (\<lambda>_ c.
     let c = (if CompressionGZip h then c\<lparr>clCompression := CompressionMethodGzip\<rparr> else c) in
     (Ok (), c\<lparr>clMaxConcurrentStreams := MaxConcurrentStreams h, clSetup := True, helloOK := True\<rparr>))"

definition client_resetStream :: "flate \<Rightarrow> u32 \<Rightarrow> errorCode \<Rightarrow> client \<Rightarrow> unit outcome \<times> client" where
  "client_resetStream z i reason c = client_Write z (ResetStream_IntoFrame \<lparr>resetStreamID = i, resetErrorCode = reason\<rparr>) c"

definition client_fetchStream :: "u32 \<Rightarrow> client \<Rightarrow> stream option" where
  "client_fetchStream i c = map_of (clStreams c) i"

definition client_on_stream :: "(stream \<times> client \<Rightarrow> 'a outcome \<times> stream \<times> client) \<Rightarrow> u32 \<Rightarrow> stream \<Rightarrow> client \<Rightarrow> 'a outcome \<times> client" where
  "client_on_stream op i s c = (let (out, s, c) = op (s, c) in (out, c\<lparr>clStreams := AList.update i s (clStreams c)\<rparr>))"

definition client_handleData :: "flate \<Rightarrow> dataFrame \<Rightarrow> client \<Rightarrow> unit outcome \<times> client" where
  "client_handleData z d c =
     (case client_fetchStream (dataStreamID d) c of
        None \<Rightarrow> client_resetStream z (dataStreamID d) ErrorCodeProtocolError c
      | Some s \<Rightarrow> client_on_stream (stream_handleData (client_Write z) d) (dataStreamID d) s c)"

definition client_handleResetStream :: "flate \<Rightarrow> resetStreamFrame \<Rightarrow> client \<Rightarrow> unit outcome \<times> client" where
  "client_handleResetStream z rs c =
     (case client_fetchStream (resetStreamID rs) c of
        None \<Rightarrow> client_resetStream z (resetStreamID rs) ErrorCodeProtocolError c
      | Some s \<Rightarrow> client_on_stream (stream_handleResetStream (client_Write z) rs) (resetStreamID rs) s c)"

text \<open>\<^verbatim>\<open>x := &T{}; if err = x.FromFrame(fr); err != nil { break }; err = c.handle(x)\<close>, then \<^verbatim>\<open>return err\<close>.\<close>

definition client_handleWith ::
  "('m \<Rightarrow> frame \<Rightarrow> unit outcome \<times> 'm) \<Rightarrow> 'm \<Rightarrow> ('m \<Rightarrow> client \<Rightarrow> unit outcome \<times> client) \<Rightarrow> frame \<Rightarrow> client \<Rightarrow> unit outcome \<times> client" where
  "client_handleWith FromFrame zero handle fr c =
     (let (out, m) = FromFrame zero fr in bindR (out, c) (\<lambda>_. handle m))"

definition dispatch :: "flate \<Rightarrow> frame \<Rightarrow> client \<Rightarrow> unit outcome \<times> client" where
  "dispatch z fr c =
     (let k = FrameKind fr in
      if k \<noteq> FrameKindHello \<and> k \<noteq> FrameKindPing \<and> k \<noteq> FrameKindResetStream \<and> k \<noteq> FrameKindGoAway \<and> \<not> clSetup c then
        client_reset z ErrorCodeProtocolError (''Expected a HELLO frame, received '' @ FrameKind_String k @ '' instead'') c
      else if k = FrameKindData then
        client_handleWith Data_FromFrame \<lparr>dataStreamID = 0, EndData = False, EndStream = False, dataPayload = []\<rparr> (client_handleData z) fr c
      else if k = FrameKindResetStream then
        client_handleWith ResetStream_FromFrame \<lparr>resetStreamID = 0, resetErrorCode = 0\<rparr> (client_handleResetStream z) fr c
      else if k = FrameKindPing then
        client_handleWith Ping_FromFrame \<lparr>pingAck = False, pingPayload = []\<rparr> (client_handlePing z) fr c
      else if k = FrameKindGoAway then
        client_handleWith GoAway_FromFrame \<lparr>LastStreamID = 0, goAwayErrorCode = 0, AdditionalData = []\<rparr> client_handleGoAway fr c
      else if k = FrameKindHello then
        client_handleWith Hello_FromFrame \<lparr>helloAck = False, CompressionGZip = False, MaxConcurrentStreams = 0\<rparr> (client_handleHello z) fr c
      else (Ok (), client_terminate c))"

text \<open>The reading goroutine; when it reports an error, \<^verbatim>\<open>service\<close> ends with it.\<close>

function client_serviceReads :: "flate \<Rightarrow> reader \<Rightarrow> client \<Rightarrow> unit outcome \<times> reader \<times> client" where
  "client_serviceReads z r c =
     (case FrameReader_Read r of
        (Fail e, r) \<Rightarrow> (Ok (), r, if \<not> clRunning c then c else client_service_end e c)
      | (Ok fr, r') \<Rightarrow>
          (case dispatch z fr c of
             (Ok _, c) \<Rightarrow> client_serviceReads z r' c
           | (Fail e, c) \<Rightarrow> (Ok (), r', if \<not> clRunning c then c else client_service_end e c)
           | (out, c) \<Rightarrow> (out, r', c))
      | (out, r) \<Rightarrow> (bindO out (\<lambda>_. Ok ()), r, c))"
  by pat_completeness auto
termination
  by (relation "measure (\<lambda>(z, r, c). rsize r)") (auto dest: FrameReader_Read_shrinks [OF sym])

declare client_serviceReads.simps [simp del]

section \<open>Invariant\<close>

text \<open>Streams are numbered from 1 up to the last one made.\<close>

definition client_table_ok :: "client \<Rightarrow> bool" where
  "client_table_ok c \<longleftrightarrow> table_ok (clStreams c) \<and> (\<forall>i\<in>fst ` set (clStreams c). unat i \<le> unat (clLastStreamID c))"

definition client_output_ok :: "client \<Rightarrow> bool" where
  "client_output_ok c \<longleftrightarrow> (faultless (clio c) \<longrightarrow> clCompression c = CompressionMethodNone \<longrightarrow> wire_ok (outp (clio c)))"

definition client_inv :: "client \<Rightarrow> bool" where
  "client_inv c \<longleftrightarrow> client_table_ok c \<and> client_output_ok c \<and> (clToWriteClosed c \<longrightarrow> \<not> clRunning c) \<and>
     clDropClosed c = clToWriteClosed c \<and> clCompression c \<in> {CompressionMethodNone, CompressionMethodGzip}"

lemmas client_inv_defs = client_inv_def client_table_ok_def client_output_ok_def

lemma NewClient_inv: "outp io = [] \<Longrightarrow> client_inv (NewClient io)"
  by (simp add: client_inv_defs NewClient_def table_ok_def wire_ok_Nil)

text \<open>Writing a frame to the connection, on either path.\<close>

lemma client_io_Write_inv:
  assumes "client_inv c" and "frame_ok fr" and "fst (Bytes z (clCompression c) fr) = Ok d"
  shows "client_inv (c\<lparr>clio := snd (io_Write d (clio c))\<rparr>)"
proof (cases rule: io_Write_cases [of d "clio c"])
  case (1 io')
  have "clCompression c = CompressionMethodNone \<Longrightarrow> d = frame_bytes fr"
    using assms(2,3) Bytes_frame_bytes [of fr z] by (simp add: frame_ok_def)
  then show ?thesis using assms(1,2) 1 io_Write_Ok [OF 1] wire_ok_snoc by (auto simp: client_inv_defs)
next
  case (2 e io')
  show ?thesis
  proof (cases "ioclosed (clio c)")
    case True
    with assms(1) show ?thesis by (simp add: io_Write_def)
  next
    case False
    from io_Write_Fail [OF 2 False] 2 assms(1) show ?thesis by (simp add: client_inv_defs)
  qed
qed

lemma client_Bytes_Ok: "client_inv c \<Longrightarrow> \<exists>d. fst (Bytes z (clCompression c) fr) = Ok d"
  by (auto simp: client_inv_def Bytes_def Compress_def Let_def)

definition client_write_frame :: "client \<Rightarrow> client \<Rightarrow> bool" where
  "client_write_frame c c' \<longleftrightarrow> (\<exists>io. c' = c\<lparr>clio := io\<rparr>)"

lemma client_serviceWrite_state:
  assumes "fst (Bytes z (clCompression c) fr) = Ok d"
  shows "snd (client_serviceWrite z fr c) = c\<lparr>clio := snd (io_Write d (clio c))\<rparr>"
  by (cases rule: io_Write_cases [of d "clio c"])
    (simp_all add: client_serviceWrite_def assms Let_def split: option.splits)

lemma client_Write_keeps:
  assumes "client_inv c" and "frame_ok fr"
  shows "client_inv (snd (client_Write z fr c)) \<and> client_write_frame c (snd (client_Write z fr c))"
proof -
  obtain d where d: "fst (Bytes z (clCompression c) fr) = Ok d" using client_Bytes_Ok [OF assms(1)] by blast
  have "\<exists>io. c = c\<lparr>clio := io\<rparr>" by (rule exI [of _ "clio c"]) simp
  with client_io_Write_inv [OF assms d] client_serviceWrite_state [OF d] assms(1) show ?thesis
    by (auto simp: client_Write_def client_write_frame_def split: option.splits)
qed

interpretation clw: write_keeps "client_Write z" "\<lambda>c. client_inv c \<and> client_write_frame c0 c" for z c0
proof
  fix c f
  assume c: "client_inv c \<and> client_write_frame c0 c" and f: "frame_ok f"
  from client_Write_keeps [of c f z] c f
  show "client_inv (snd (client_Write z f c)) \<and> client_write_frame c0 (snd (client_Write z f c))"
    by (auto simp: client_write_frame_def)
qed

definition client_out :: "client \<Rightarrow> bytes" where
  "client_out c = outp (clio c)"

definition client_ser :: "flate \<Rightarrow> client \<Rightarrow> frame \<Rightarrow> bytes" where
  "client_ser z c f = (case fst (Bytes z (clCompression c) f) of Ok d \<Rightarrow> d | _ \<Rightarrow> [])"

lemma client_serviceWrite_Ok:
  assumes "client_serviceWrite z f c = (Ok (), c')"
  shows "\<exists>d io. fst (Bytes z (clCompression c) f) = Ok d \<and> io_Write d (clio c) = (Ok (), io) \<and> c' = c\<lparr>clio := io\<rparr>"
proof -
  from assms obtain d where d: "fst (Bytes z (clCompression c) f) = Ok d" by (auto simp: client_serviceWrite_def bindR_eq_Ok_iff)
  show ?thesis
  proof (cases rule: io_Write_cases [of d "clio c"])
    case (1 io)
    with assms d show ?thesis by (simp add: client_serviceWrite_def)
  next
    case (2 e io)
    with assms d show ?thesis by (simp add: client_serviceWrite_def Let_def split: option.splits if_splits)
  qed
qed

interpretation clc: conn "client_Write z" client_out "client_ser z" for z
proof
  fix f c c'
  assume "client_Write z f c = (Ok (), c')"
  then have "client_serviceWrite z f c = (Ok (), c')" by (auto simp: client_Write_def split: option.splits if_splits)
  then obtain d io where "fst (Bytes z (clCompression c) f) = Ok d" "io_Write d (clio c) = (Ok (), io)" "c' = c\<lparr>clio := io\<rparr>"
    using client_serviceWrite_Ok by blast
  with io_Write_Ok [of d "clio c" io] show "client_out c' = client_out c @ client_ser z c f \<and> client_ser z c' = client_ser z c"
    by (auto simp: client_out_def client_ser_def)
next
  fix f c
  have "prefix (outp (clio c)) (outp (clio (snd (client_serviceWrite z f c))))"
  proof (cases "fst (Bytes z (clCompression c) f)")
    case (Ok d)
    then show ?thesis by (simp add: client_serviceWrite_state io_Write_grows)
  qed (simp_all add: client_serviceWrite_def)
  then show "prefix (client_out c) (client_out (snd (client_Write z f c)))"
    by (simp add: client_Write_def client_out_def split: option.splits)
qed

section \<open>Every operation keeps the invariant\<close>

lemma client_neutral_inv:
  "client_inv (c\<lparr>clErr := e\<rparr>) = client_inv c" "client_inv (c\<lparr>helloOK := h\<rparr>) = client_inv c"
  "client_inv (c\<lparr>clSetup := u\<rparr>) = client_inv c" "client_inv (c\<lparr>clMaxConcurrentStreams := n\<rparr>) = client_inv c"
  "client_inv c \<Longrightarrow> client_inv (c\<lparr>clRunning := False\<rparr>)"
  "client_inv c \<Longrightarrow> client_inv (c\<lparr>clCompression := CompressionMethodGzip\<rparr>)"
  "client_inv c \<Longrightarrow> client_inv (client_terminate c)"
  by (auto simp: client_inv_defs client_terminate_def)

lemma client_on_stream_inv:
  assumes inv: "client_inv c" and get: "client_fetchStream i c = Some s"
    and keeps: "client_inv (snd (snd (op (s, c)))) \<and> client_write_frame c (snd (snd (op (s, c))))"
    and kept: "stream_kept s (fst (snd (op (s, c))))"
  shows "client_inv (snd (client_on_stream op i s c))"
proof -
  obtain out s' c' where op: "op (s, c) = (out, s', c')" by (metis prod_cases3)
  with keeps have inv': "client_inv c'" and same: "clStreams c' = clStreams c" "clLastStreamID c' = clLastStreamID c"
    by (auto simp: client_write_frame_def)
  from get inv have s: "strID s = i" "i \<noteq> 0" "stream_inv s" and mem: "i \<in> fst ` set (clStreams c)"
    using table_ok_lookup [of "clStreams c" i s]
    by (auto simp: client_inv_defs client_fetchStream_def intro: rev_image_eqI dest: map_of_SomeD)
  from kept op s have s': "strID s' = i" "stream_inv s'" by (simp_all add: stream_kept_def)
  have tab: "table_ok (AList.update i s' (clStreams c'))"
    using inv' s s' table_ok_update by (simp add: client_inv_defs)
  have "fst ` set (AList.update i s' (clStreams c')) = fst ` set (clStreams c')"
    using mem same keys_update [of i s' "clStreams c'"] by (simp flip: set_map)
  with tab inv' show ?thesis by (simp add: client_on_stream_def op client_inv_defs)
qed

lemma client_reset_inv: "client_inv c \<Longrightarrow> client_inv (snd (client_reset z ec d c))"
  by (simp add: client_reset_def client_neutral_inv)

lemma client_handlePing_inv:
  assumes "client_inv c" and "length (pingPayload p) < 65536"
  shows "client_inv (snd (client_handlePing z p c))"
proof -
  let ?f = "Ping_IntoFrame \<lparr>pingAck = True, pingPayload = pingPayload p\<rparr>"
  obtain d where d: "fst (Bytes z (clCompression c) ?f) = Ok d" using client_Bytes_Ok [OF assms(1)] by blast
  have "frame_ok ?f" using assms(2) by (simp add: ping_frame_ok)
  from client_io_Write_inv [OF assms(1) this d] assms(1) show ?thesis
    by (cases "io_Write d (clio c)") (simp add: client_handlePing_def d)
qed

lemma client_handleHello_inv:
  assumes "client_inv c"
  shows "client_inv (snd (client_handleHello z h c))"
proof -
  have "client_inv (snd (if \<not> helloAck h then client_reset z ErrorCodeProtocolError ''Server emitted a non-ack HELLO frame'' c
      else (Ok (), c)))" using assms by (simp add: client_reset_inv)
  then show ?thesis unfolding client_handleHello_def
    by (rule bindR_keeps) (simp add: Let_def client_neutral_inv)
qed

lemma client_resetStream_inv: "client_inv c \<Longrightarrow> client_inv (snd (client_resetStream z i ec c))"
  using client_Write_keeps clw.reset_frame_ok by (simp add: client_resetStream_def)

lemma client_write_frame_refl [simp]: "client_write_frame c c"
  unfolding client_write_frame_def by (rule exI [of _ "clio c"]) simp

lemma client_handleData_inv:
  assumes "client_inv c"
  shows "client_inv (snd (client_handleData z d c))"
proof (cases "client_fetchStream (dataStreamID d) c")
  case (Some s)
  have "client_inv (snd (client_on_stream (stream_handleData (client_Write z) d) (dataStreamID d) s c))"
    by (rule client_on_stream_inv [OF assms Some]) (use assms clw.stream_handleData_keeps [of _ c] stream_ops_kept in simp_all)
  with Some show ?thesis by (simp add: client_handleData_def)
qed (use assms in \<open>simp add: client_handleData_def client_resetStream_inv\<close>)

lemma client_handleResetStream_inv:
  assumes "client_inv c"
  shows "client_inv (snd (client_handleResetStream z rs c))"
proof (cases "client_fetchStream (resetStreamID rs) c")
  case (Some s)
  have "client_inv (snd (client_on_stream (stream_handleResetStream (client_Write z) rs) (resetStreamID rs) s c))"
    by (rule client_on_stream_inv [OF assms Some]) (use assms clw.stream_handleResetStream_keeps [of _ c] stream_ops_kept in simp_all)
  with Some show ?thesis by (simp add: client_handleResetStream_def)
qed (use assms in \<open>simp add: client_handleResetStream_def client_resetStream_inv\<close>)

lemma client_handleWith_inv:
  assumes "client_inv c" and "\<And>m. FromFrame zero fr = (Ok (), m) \<Longrightarrow> client_inv (snd (handle m c))"
  shows "client_inv (snd (client_handleWith FromFrame zero handle fr c))"
  using assms by (cases "FromFrame zero fr" rule: outcome_pair_cases) (simp_all add: client_handleWith_def)

lemma dispatch_inv:
  assumes "client_inv c" and "frame_sized fr"
  shows "client_inv (snd (dispatch z fr c))"
  unfolding dispatch_def Let_def
  by (auto intro!: client_handleWith_inv client_reset_inv client_handleHello_inv client_handlePing_inv
      client_handleResetStream_inv client_handleData_inv client_neutral_inv(7) assms
      simp: client_handleGoAway_def Let_def client_neutral_inv(1,5,7) assms(1)
      dest: Ping_FromFrame_payload [OF _ assms(2)])

text \<open>Making a stream sends its MAKE_STREAM frame and gives it the next number, which is not in use as long as the
  32-bit counter has not wrapped.\<close>

lemma client_NewStream_inv:
  assumes inv: "client_inv c" and last: "clLastStreamID c \<noteq> - 1"
  shows "client_inv (snd (client_NewStream z c))"
    and "client_fetchStream (clLastStreamID c + 1) c = None" and "clLastStreamID c + 1 \<noteq> 0"
proof -
  let ?i = "clLastStreamID c + 1"
  show nz: "?i \<noteq> 0" using last by (metis add.inverse_unique add.commute)
  then have up: "unat ?i = Suc (unat (clLastStreamID c))" using unatSuc [of "clLastStreamID c"] by (simp add: add.commute)
  from inv up show "client_fetchStream ?i c = None"
    by (force simp: client_inv_defs client_fetchStream_def map_of_eq_None_iff)
  let ?c = "c\<lparr>clLastStreamID := ?i\<rparr>"
  have inv1: "client_inv ?c" using inv up by (force simp: client_inv_defs)
  have "frame_ok (MakeStream_IntoFrame \<lparr>makeStreamID = ?i\<rparr>)"
    using makestream.into_sized makestream.into_known nz by (simp add: frame_ok_def MakeStream_valid_def)
  note w = client_Write_keeps [OF inv1 this, of z]
  let ?w = "client_Write z (MakeStream_IntoFrame \<lparr>makeStreamID = ?i\<rparr>) ?c"
  have "client_inv (c2\<lparr>clStreams := AList.update ?i (NewStream ?i) (clStreams c2)\<rparr>)" if "?w = (Ok (), c2)" for c2
  proof -
    from w that have "client_inv c2" and "clLastStreamID c2 = ?i" by (auto simp: client_write_frame_def)
    moreover then have "table_ok (AList.update ?i (NewStream ?i) (clStreams c2))"
      using nz by (intro table_ok_update) (simp_all add: client_inv_defs NewStream_def stream_inv_def)
    ultimately show ?thesis by (auto simp: client_inv_defs dest!: in_updateD)
  qed
  with w inv show "client_inv (snd (client_NewStream z c))"
    by (cases ?w rule: outcome_pair_cases) (simp_all add: client_NewStream_def Let_def split: option.splits)
qed

section \<open>Sessions\<close>

text \<open>
  The steps of a client's session: bytes arrive, the reading goroutine handles a frame or ends, the application
  configures the connection, makes streams (fewer than 2 to the 32), uses them, says goodbye or closes. The steps after
  the reading goroutine has ended include further frames, which the code does not read.
\<close>

inductive client_step :: "flate \<Rightarrow> reader \<times> client \<Rightarrow> reader \<times> client \<Rightarrow> bool" for z where
  client_arrive: "client_step z (Base cs t, c) (Base (cs @ [d]) t, c)"
| client_recv: "FrameReader_Read r = (Ok fr, r') \<Longrightarrow> dispatch z fr c = (Ok (), c') \<Longrightarrow> client_step z (r, c) (r', c')"
| client_recv_error: "FrameReader_Read r = (Ok fr, r') \<Longrightarrow> dispatch z fr c = (Fail e, c') \<Longrightarrow>
     client_step z (r, c) (r', if \<not> clRunning c' then c' else client_service_end e c')"
| client_recv_end: "FrameReader_Read r = (Fail e, r') \<Longrightarrow>
     client_step z (r, c) (r', if \<not> clRunning c then c else client_service_end e c)"
| client_configure: "Configure_send z m c = (out, c') \<Longrightarrow> returns out \<Longrightarrow> client_step z (r, c) (r, c')"
| client_open: "clLastStreamID c \<noteq> - 1 \<Longrightarrow> client_NewStream z c = (out, c') \<Longrightarrow> returns out \<Longrightarrow> client_step z (r, c) (r, c')"
| client_goodbye: "client_Terminate z reason c = (out, c') \<Longrightarrow> returns out \<Longrightarrow> client_step z (r, c) (r, c')"
| client_close: "client_Close c = (out, c') \<Longrightarrow> client_step z (r, c) (r, c')"
| client_app: "client_fetchStream i c = Some s \<Longrightarrow> client_on_stream (app_call (client_Write z) op) i s c = (out, c') \<Longrightarrow>
     returns out \<Longrightarrow> client_step z (r, c) (r, c')"

inductive client_session :: "flate \<Rightarrow> netio \<Rightarrow> reader \<times> client \<Rightarrow> bool" for z io where
  client_session_start: "client_session z io (Base [] t, NewClient io)"
| client_session_next: "client_session z io rc \<Longrightarrow> client_step z rc rc' \<Longrightarrow> client_session z io rc'"

lemma client_service_end_inv: "client_inv c \<Longrightarrow> client_inv (client_service_end e c)"
  by (simp add: client_service_end_def Let_def client_neutral_inv)

lemma client_calls_inv:
  assumes "client_inv c"
  shows "client_inv (snd (Configure_send z m c))" and "client_inv (snd (client_Terminate z reason c))"
    and "client_inv (snd (client_Close c))"
proof -
  show "client_inv (snd (Configure_send z m c))"
    using client_Write_keeps [OF assms hello_frame_ok] by (simp add: Configure_send_def)
  show "client_inv (snd (client_Terminate z reason c))"
    using client_Write_keeps [OF assms goAway_frame_ok] assms by (simp add: client_Terminate_def split: option.split)
  show "client_inv (snd (client_Close c))"
    using assms by (simp add: client_Close_def client_inv_defs io_Close_def)
qed

lemma client_step_inv: "client_step z rc rc' \<Longrightarrow> client_inv (snd rc) \<Longrightarrow> client_inv (snd rc')"
proof (induction rule: client_step.induct)
  case (client_recv r fr r' c c')
  then show ?case using dispatch_inv [of c fr z] FrameReader_Read_ok [of r fr r'] by (simp add: frame_ok_def)
next
  case (client_recv_error r fr r' c e c')
  then have "client_inv c'" using dispatch_inv [of c fr z] FrameReader_Read_ok [of r fr r'] by (simp add: frame_ok_def)
  then show ?case by (simp add: client_service_end_inv)
next
  case (client_recv_end r e r' c)
  then show ?case by (simp add: client_service_end_inv)
next
  case (client_configure m c out c' r)
  then show ?case using client_calls_inv(1) [of c z m] by simp
next
  case (client_open c out c' r)
  then show ?case using client_NewStream_inv(1) [of c z] by simp
next
  case (client_goodbye reason c out c' r)
  then show ?case using client_calls_inv(2) [of c z reason] by simp
next
  case (client_close c out c' r)
  then show ?case using client_calls_inv(3) [of c] by simp
next
  case (client_app i c s op out c' r)
  have inv: "client_inv c" using client_app.prems by simp
  from client_on_stream_inv [of c i s "app_call (client_Write z) op", OF inv client_app.hyps(1) clw.app_call_keeps app_call_kept]
    inv client_app.hyps(2) show ?case by simp
qed simp

lemma client_session_inv: "client_session z io rc \<Longrightarrow> outp io = [] \<Longrightarrow> client_inv (snd rc)"
  by (induction rule: client_session.induct) (auto simp: NewClient_inv intro: client_step_inv)

text \<open>When the connection of a client ends, the error is lost, and the next write panics on the closed channel.\<close>

lemma client_read_error_lost:
  assumes "clRunning c" and "clErr c = None" and "FrameReader_Read r = (Fail e, r')"
  shows "\<exists>c'. client_serviceReads z r c = (Ok (), r', c') \<and> clErr c' = None \<and>
    fst (client_Write z fr c') = Panic ''send on closed channel''"
  using assms by (subst client_serviceReads.simps)
    (simp add: client_service_end_def client_terminate_def Let_def client_Write_def)

end
