(* ===== verification/Wire_Session.thy ===== *)
theory Wire_Session
  imports Wire_Server Wire_Client
begin

text \<open>
  The two sides together: the bytes a client sends, read by a server connection, and back. The handshake sets up
  both sides when no compression is asked for, and fails when it is; the data written to a stream arrives at the
  peer's stream in order, except that a buffer of more than one frame that also ends the stream is cut.
\<close>

section \<open>Handling a list of frames\<close>

primrec dispatchAll :: "flate \<Rightarrow> mapOrder \<Rightarrow> frame list \<Rightarrow> Conn \<Rightarrow> unit outcome \<times> Conn" where
  "dispatchAll z ord [] c = (Ok (), c)"
| "dispatchAll z ord (f # fs) c =
     (if \<not> running c then (Ok (), c) else bindR (dispatchFrame z ord f c) (\<lambda>_. dispatchAll z ord fs))"

lemma dispatchAll_stopped: "\<not> running c \<Longrightarrow> dispatchAll z ord fs c = (Ok (), c)"
  by (cases fs) simp_all

lemma dispatchAll_append:
  "dispatchAll z ord (fs @ gs) c = bindR (dispatchAll z ord fs c) (\<lambda>_. dispatchAll z ord gs)"
proof (induction fs arbitrary: c)
  case (Cons f fs)
  show ?case
    by (cases "dispatchFrame z ord f c" rule: outcome_pair_cases) (simp_all add: Cons dispatchAll_stopped)
qed simp

text \<open>The reading goroutine handles the frames one by one, whatever the chunks they come in.\<close>

lemma serviceReads_frames:
  assumes "rflat r = concat (map frame_bytes fs) @ ys" and "\<forall>f\<in>set fs. frame_ok f"
    and "dispatchAll z ord fs c = (Ok (), c')" and "running c'"
  shows "\<exists>r'. rflat r' = ys \<and> serviceReads z ord r c = serviceReads z ord r' c'"
  using assms
proof (induction fs arbitrary: r c)
  case Nil
  then show ?case by auto
next
  case (Cons f fs)
  have run: "running c" using Cons.prems(3,4) by (cases "running c") auto
  with Cons.prems(3) obtain c1 where d: "dispatchFrame z ord f c = (Ok (), c1)" and rest: "dispatchAll z ord fs c1 = (Ok (), c')"
    by (auto simp: bindR_eq_Ok_iff)
  from Cons.prems(1,2) framerd.dec_flat [of f r "concat (map frame_bytes fs) @ ys"] obtain r1
    where rd: "FrameReader_Read r = (Ok f, r1)" and r1: "rflat r1 = concat (map frame_bytes fs) @ ys" by auto
  from Cons.IH [OF r1 _ rest Cons.prems(4)] Cons.prems(2) run rd d show ?case
    by (simp add: serviceReads.simps [of z ord r c])
qed

section \<open>Data\<close>

text \<open>A stream of the connection that accepts data: the connection is set up, the stream is in the table, the peer's
  direction is open and the queue has room for \<open>n\<close> more blocks.\<close>

definition accepts :: "nat \<Rightarrow> u32 \<Rightarrow> stream \<Rightarrow> Conn \<Rightarrow> bool" where
  "accepts n i s c \<longleftrightarrow> running c \<and> configured c \<and> fetchStream i c = Some s \<and> i \<noteq> 0 \<and>
     RecvData (sstate s) = Ok () \<and> \<not> closed (sreader s) \<and> length (blocks (sreader s)) + n \<le> chanCap"

lemma dispatch_data:
  assumes "accepts (Suc n) i s c" and "Data_valid d" and "dataStreamID d = i"
  shows "\<exists>s' c'. dispatchFrame z ord (Data_IntoFrame d) c = (Ok (), c') \<and> running c' \<and>
    c' = c\<lparr>streams := AList.update i s' (streams c)\<rparr> \<and> fetchStream i c' = Some s' \<and>
    stream_chunks s' = stream_chunks s @ filter (\<lambda>c. c \<noteq> []) [dataPayload d] \<and>
    sstate s' = (if EndStream d then streamState_CloseRemote (sstate s) else sstate s) \<and>
    (\<not> EndStream d \<longrightarrow> accepts n i s' c') \<and> strID s' = strID s"
proof -
  from assms obtain s' where s': "stream_handleData (Conn_Write z) d (s, c) = (Ok (), s', c)"
    "stream_chunks s' = stream_chunks s @ filter (\<lambda>c. c \<noteq> []) [dataPayload d]"
    "sstate s' = (if EndStream d then streamState_CloseRemote (sstate s) else sstate s)" "\<not> closed (sreader s')"
    "length (blocks (sreader s')) \<le> Suc (length (blocks (sreader s)))" "strID s' = strID s"
    using stream_handleData_open [of s "Conn_Write z" d c] by (auto simp: accepts_def)
  let ?c = "c\<lparr>streams := AList.update i s' (streams c)\<rparr>"
  have "handleData z d c = (Ok (), ?c)"
    using assms s'(1) by (simp add: handleData_def accepts_def on_stream_def)
  then have "dispatchFrame z ord (Data_IntoFrame d) c = (Ok (), ?c)"
    using data.from_into [OF assms(2)] by (simp add: dispatchFrame_def data.into_kind handleWith_def)
  moreover have "fetchStream i ?c = Some s'" by (simp add: fetchStream_def update_conv')
  moreover have "\<not> EndStream d \<Longrightarrow> accepts n i s' ?c" and "running ?c"
    using assms(1) s'(3-5) by (auto simp: accepts_def fetchStream_def update_conv')
  ultimately show ?thesis using s'(2,3,6) by blast
qed

lemma dispatchAll_data:
  assumes "accepts (length ds + n) i s c" and "\<forall>d\<in>set ds. Data_valid d \<and> dataStreamID d = i \<and> \<not> EndStream d"
  shows "\<exists>s' c'. dispatchAll z ord (map Data_IntoFrame ds) c = (Ok (), c') \<and> running c' \<and> fetchStream i c' = Some s' \<and>
    accepts n i s' c' \<and> stream_chunks s' = stream_chunks s @ filter (\<lambda>c. c \<noteq> []) (map dataPayload ds)"
  using assms
proof (induction ds arbitrary: s c)
  case Nil
  then show ?case by (auto simp: accepts_def)
next
  case (Cons d ds)
  then have acc: "accepts (Suc (length ds + n)) i s c" and d: "Data_valid d" "dataStreamID d = i" "\<not> EndStream d" by simp_all
  from dispatch_data [OF acc d(1,2), of z ord] d(3) obtain s1 c1
    where s1: "dispatchFrame z ord (Data_IntoFrame d) c = (Ok (), c1)" "accepts (length ds + n) i s1 c1"
      "stream_chunks s1 = stream_chunks s @ filter (\<lambda>c. c \<noteq> []) [dataPayload d]" by auto
  from Cons.IH [OF s1(2)] Cons.prems(2) obtain s' c' where "dispatchAll z ord (map Data_IntoFrame ds) c1 = (Ok (), c')" "running c'"
    "fetchStream i c' = Some s'" "accepts n i s' c'"
    "stream_chunks s' = stream_chunks s1 @ filter (\<lambda>c. c \<noteq> []) (map dataPayload ds)" by auto
  moreover have "running c" using acc by (simp add: accepts_def)
  ultimately show ?case using s1(1,3) by auto
qed

text \<open>What a client stream writes without ending the stream arrives at the server's stream, in order and complete.\<close>

lemma client_data_arrives:
  assumes w: "stream_Write (client_Write z) d False (s, cl) = (Ok (), s', cl')" and comp: "clCompression cl = CompressionMethodNone"
    and acc: "accepts (length (DataFramesFromBuffer (strID s) False d)) (strID s) t c"
    and r: "rflat r = drop (length (client_out cl)) (client_out cl')"
  shows "\<exists>t' c' r'. serviceReads z ord r c = serviceReads z ord r' c' \<and> rflat r' = [] \<and> fetchStream (strID s) c' = Some t' \<and>
    concat (stream_chunks t') = concat (stream_chunks t) @ d"
proof -
  let ?ds = "DataFramesFromBuffer (strID s) False d"
  have nz: "strID s \<noteq> 0" using acc by (simp add: accepts_def)
  have valid: "\<forall>d\<in>set ?ds. Data_valid d \<and> dataStreamID d = strID s \<and> \<not> EndStream d"
    using DataFrames_valid [OF nz] DataFrames_frames by blast
  have ok: "\<forall>f\<in>set (map Data_IntoFrame ?ds). frame_ok f"
    using valid data.into_sized data.into_known by (auto simp: frame_ok_def)
  have ser: "client_ser z cl f = frame_bytes f" if "f \<in> set (map Data_IntoFrame ?ds)" for f
    using ok that Bytes_frame_bytes [of f z] by (auto simp: client_ser_def comp frame_ok_def)
  have "client_out cl' = client_out cl @ concat (map (client_ser z cl) (map Data_IntoFrame ?ds))"
    using clc.stream_Write_Ok(2) [OF w] .
  also have "map (client_ser z cl) (map Data_IntoFrame ?ds) = map frame_bytes (map Data_IntoFrame ?ds)"
    using ser by (simp only: map_eq_conv) blast
  finally have "rflat r = concat (map frame_bytes (map Data_IntoFrame ?ds)) @ []" using r by simp
  moreover obtain t' c' where t': "dispatchAll z ord (map Data_IntoFrame ?ds) c = (Ok (), c')" "running c'"
    "fetchStream (strID s) c' = Some t'" "stream_chunks t' = stream_chunks t @ filter (\<lambda>c. c \<noteq> []) (map dataPayload ?ds)"
    using dispatchAll_data [where n = 0 and ds = ?ds, of "strID s" t c z ord] acc valid by auto
  ultimately obtain r' where "rflat r' = []" "serviceReads z ord r c = serviceReads z ord r' c'"
    using serviceReads_frames [OF _ ok t'(1,2)] by blast
  moreover have "concat (stream_chunks t') = concat (stream_chunks t) @ d"
    using t'(4) by (simp add: concat_nonempty DataFrames_payload)
  ultimately show ?thesis using t'(3) by blast
qed

text \<open>A stream whose peer has ended it: further data frames change nothing and are answered by a reset.\<close>

definition refuses :: "u32 \<Rightarrow> stream \<Rightarrow> Conn \<Rightarrow> bool" where
  "refuses i s c \<longleftrightarrow> conn_inv c \<and> running c \<and> configured c \<and> fetchStream i c = Some s \<and> RecvData (sstate s) \<noteq> Ok ()"

lemma dispatch_refused:
  assumes ref: "refuses i s c" and d: "Data_valid d" "dataStreamID d = i"
  shows "\<exists>c'. dispatchFrame z ord (Data_IntoFrame d) c = (Ok (), c') \<and> refuses i s c'"
proof -
  have inv: "conn_inv c" and run: "running c" and get: "fetchStream i c = Some s" using ref by (simp_all add: refuses_def)
  let ?m = "stream_handleData (Conn_Write z) d (s, c)"
  have m: "?m = ignoreErr (stream_reset (Conn_Write z) ErrorCodeStreamClosed (s, c))"
    using ref by (simp add: refuses_def stream_handleData_refused)
  then have ok: "fst ?m = Ok ()" using cwr.stream_reset_returns [of "(s, c)" z] inv run by (simp add: ignoreErr_Ok)
  have same: "fst (snd ?m) = s" by (simp add: m stream_reset_def stream_write_kept)
  have run': "running (snd (snd ?m))" using m cwr.stream_reset_keeps [of "(s, c)" z] inv run by simp
  have keeps: "conn_inv (snd (snd ?m)) \<and> write_frame c (snd (snd ?m))"
    using m cw.stream_reset_keeps [of "(s, c)" c z] inv by simp
  let ?c = "snd (on_stream (stream_handleData (Conn_Write z) d) i s c)"
  have c': "?c = (snd (snd ?m))\<lparr>streams := AList.update i s (streams (snd (snd ?m)))\<rparr>"
    using same by (cases ?m) (auto simp: on_stream_def)
  have "conn_inv ?c" by (rule on_stream_inv [OF inv get]) (use keeps stream_ops_kept(2) in simp_all)
  moreover have "running ?c" "configured ?c" "fetchStream i ?c = Some s"
    using run' keeps ref by (simp_all add: c' write_frame_def refuses_def fetchStream_def update_conv')
  ultimately have "refuses i s ?c" using ref by (simp add: refuses_def)
  moreover have "handleData z d c = (Ok (), ?c)"
    using ok ref d by (simp add: handleData_def refuses_def prod_eq_iff)
  then have "dispatchFrame z ord (Data_IntoFrame d) c = (Ok (), ?c)"
    using data.from_into [OF d(1)] by (simp add: dispatchFrame_def data.into_kind handleWith_def)
  ultimately show ?thesis by blast
qed

lemma dispatchAll_refused:
  "refuses i s c \<Longrightarrow> \<forall>d\<in>set ds. Data_valid d \<and> dataStreamID d = i \<Longrightarrow>
     \<exists>c'. dispatchAll z ord (map Data_IntoFrame ds) c = (Ok (), c') \<and> refuses i s c'"
proof (induction ds arbitrary: c)
  case (Cons d ds)
  from dispatch_refused [OF Cons.prems(1)] Cons.prems(2) obtain c1
    where c1: "dispatchFrame z ord (Data_IntoFrame d) c = (Ok (), c1)" "refuses i s c1" by (metis list.set_intros(1))
  from Cons.IH [OF c1(2)] Cons.prems c1(1) show ?case by (auto simp: refuses_def)
qed auto

text \<open>A buffer of more than one frame, sent with the end of the stream: only its first frame arrives.\<close>

lemma data_with_end_is_cut:
  assumes inv: "conn_inv c" and acc: "accepts 1 i s c" and big: "length d > maxPayload"
  shows "\<exists>s' c'. dispatchAll z ord (map Data_IntoFrame (DataFramesFromBuffer i True d)) c = (Ok (), c') \<and>
    fetchStream i c' = Some s' \<and> concat (stream_chunks s') = concat (stream_chunks s) @ take maxPayload d"
proof -
  have nz: "i \<noteq> 0" using acc by (simp add: accepts_def)
  obtain ds where ds: "DataFramesFromBuffer i True d = mkDataFrame i False True (take maxPayload d) # ds"
    using big by (simp add: DataFramesFromBuffer_def)
  let ?d = "mkDataFrame i False True (take maxPayload d)"
  have valid: "\<forall>d\<in>set (?d # ds). Data_valid d \<and> dataStreamID d = i"
    using DataFrames_valid [OF nz] DataFrames_frames ds by metis
  from dispatch_data [of 0 i s c ?d z ord] acc valid obtain s' c1 where c1: "dispatchFrame z ord (Data_IntoFrame ?d) c = (Ok (), c1)"
    "running c1" "c1 = c\<lparr>streams := AList.update i s' (streams c)\<rparr>" "fetchStream i c1 = Some s'"
    "concat (stream_chunks s') = concat (stream_chunks s) @ take maxPayload d"
    "sstate s' = streamState_CloseRemote (sstate s)" by (auto split: if_splits)
  have "conn_inv c1" using dispatchFrame_inv [OF inv, of "Data_IntoFrame ?d" z ord] c1(1) valid data.into_sized by simp
  moreover have "configured c1" using c1(3) acc by (simp add: accepts_def)
  moreover have "RecvData (sstate s') \<noteq> Ok ()" by (simp add: c1(6) duplex_of_checks duplex_of_updates permits_Ok_iff)
  ultimately have "refuses i s' c1" using c1(2,4) by (simp add: refuses_def)
  from dispatchAll_refused [OF this, of ds z ord] valid obtain c' where
    "dispatchAll z ord (map Data_IntoFrame ds) c1 = (Ok (), c')" "fetchStream i c' = Some s'" by (auto simp: refuses_def)
  moreover have "running c" using acc by (simp add: accepts_def)
  ultimately show ?thesis using ds c1(1,5) by auto
qed

section \<open>The handshake\<close>

text \<open>What the peer of a side reads: the bytes it sent, in any chunks.\<close>

definition reads_frame :: "bytes \<Rightarrow> frame \<Rightarrow> bool" where
  "reads_frame bs f \<longleftrightarrow> (\<forall>r. rflat r = bs \<longrightarrow> (\<exists>r'. FrameReader_Read r = (Ok f, r') \<and> rflat r' = []))"

lemma reads_frame_bytes: "frame_ok f \<Longrightarrow> reads_frame (frame_bytes f) f"
  using framerd.dec_flat [of f _ "[]"] by (simp add: reads_frame_def)

definition fresh_io :: "netio \<Rightarrow> bool" where
  "fresh_io io \<longleftrightarrow> outp io = [] \<and> \<not> ioclosed io \<and> fault io (writes io) = None"

definition hello_frame :: "bool \<Rightarrow> bool \<Rightarrow> frame" where
  "hello_frame ack gz = Hello_IntoFrame \<lparr>helloAck = ack, CompressionGZip = gz, MaxConcurrentStreams = 0\<rparr>"

lemma Configure_send_fresh:
  assumes "fresh_io io"
  shows "\<exists>c. Configure_send z m (NewClient io) = (Ok (), c) \<and>
    client_out c = frame_bytes (hello_frame False (m = CompressionMethodGzip)) \<and>
    c = (NewClient io)\<lparr>clio := clio c\<rparr>"
  using assms hello_frame_ok
  by (simp add: Configure_send_def client_Write_def NewClient_def client_serviceWrite_def Bytes_frame_bytes frame_ok_def
      io_Write_def fresh_io_def client_out_def hello_frame_def)

text \<open>The server's answer to the first HELLO: it is already compressed with the method it announces.\<close>

lemma dispatch_hello_fresh:
  assumes io: "fresh_io io"
  shows "\<exists>c'. dispatchFrame z ord (hello_frame False gz) (NewConn p i io) = (Ok (), c') \<and> configured c' \<and> running c' \<and>
    compression c' = (if gz then CompressionMethodGzip else CompressionMethodNone) \<and>
    Conn_out c' = (case fst (Bytes z (compression c') (hello_frame True gz)) of Ok d \<Rightarrow> d | _ \<Rightarrow> [])"
proof -
  let ?h = "\<lparr>helloAck = False, CompressionGZip = gz, MaxConcurrentStreams = 0\<rparr>"
  let ?c = "(if gz then (NewConn p i io)\<lparr>compression := CompressionMethodGzip\<rparr> else NewConn p i io)\<lparr>configured := True\<rparr>"
  have disp: "dispatchFrame z ord (hello_frame False gz) (NewConn p i io) = handleHello z ?h (NewConn p i io)"
    using hello.from_into [of ?h] by (simp add: dispatchFrame_def hello_frame_def hello.into_kind handleWith_def Hello_valid_def)
  obtain d where d: "fst (Bytes z (compression ?c) (hello_frame True gz)) = Ok d"
    by (cases gz) (auto simp: Bytes_def Compress_def NewConn_def Let_def)
  have "io_Write d (cio ?c) = (Ok (), io\<lparr>outp := d, writes := Suc (writes io)\<rparr>)"
    using io by (simp add: NewConn_def io_Write_def fresh_io_def)
  from Conn_Write_split [OF _ _ d this] have w: "Conn_Write z (hello_frame True gz) ?c =
      (Ok (), ?c\<lparr>nextPtr := Suc 0, cio := io\<lparr>outp := d, writes := Suc (writes io)\<rparr>\<rparr>)"
    by (simp add: NewConn_def)
  have "handleHello z ?h (NewConn p i io) = (Ok (), ?c\<lparr>nextPtr := Suc 0, cio := io\<lparr>outp := d, writes := Suc (writes io)\<rparr>\<rparr>)"
    using w by (cases gz) (simp_all add: handleHello_def hello_frame_def Let_def NewConn_def)
  then show ?thesis using disp d by (auto simp: Conn_out_def NewConn_def)
qed

text \<open>The client on the acknowledgement.\<close>

lemma dispatch_hello_ack:
  "dispatch z (hello_frame True gz) c =
     (Ok (), (if gz then c\<lparr>clCompression := CompressionMethodGzip\<rparr> else c)\<lparr>clMaxConcurrentStreams := 0, clSetup := True, helloOK := True\<rparr>)"
proof -
  let ?h = "\<lparr>helloAck = True, CompressionGZip = gz, MaxConcurrentStreams = 0\<rparr>"
  show ?thesis using hello.from_into [of ?h]
    by (simp add: dispatch_def hello_frame_def hello.into_kind client_handleWith_def Hello_valid_def client_handleHello_def Let_def)
qed

text \<open>An acknowledgement whose payload has been compressed to another length than 4 is refused: the client never
  decompresses.\<close>

lemma dispatch_hello_compressed:
  assumes "FrameKind f = FrameKindHello" and "StreamID f = 0" and "Length f \<noteq> 0" and "Length f \<noteq> 4"
  shows "\<exists>e. dispatch z f c = (Fail (InvalidFrameLengthError e), c)"
  using assms by (simp add: dispatch_def client_handleWith_def Hello_FromFrame_def ValidateKind_def Let_def)

section \<open>Making streams\<close>

definition makestream_frame :: "u32 \<Rightarrow> frame" where
  "makestream_frame i = MakeStream_IntoFrame \<lparr>makeStreamID = i\<rparr>"

lemma client_NewStream_out:
  assumes "client_NewStream z c = (Ok i, c')"
  shows "i = clLastStreamID c + 1" and "client_out c' = client_out c @ client_ser z c (makestream_frame i)"
    and "client_ser z c' = client_ser z c" and "clCompression c' = clCompression c"
    and "client_fetchStream i c' = Some (NewStream i)"
proof -
  let ?c = "c\<lparr>clLastStreamID := clLastStreamID c + 1\<rparr>"
  from assms obtain c2 where i: "i = clLastStreamID c + 1" and w: "client_Write z (makestream_frame i) ?c = (Ok (), c2)"
    and c': "c' = c2\<lparr>clStreams := AList.update i (NewStream i) (clStreams c2)\<rparr>"
    by (auto simp: client_NewStream_def Let_def makestream_frame_def bindR_eq_Ok_iff split: option.splits)
  have "clCompression c2 = clCompression c"
    using w client_serviceWrite_Ok [of z "makestream_frame i" ?c c2]
    by (auto simp: client_Write_def split: option.splits if_splits)
  then show "clCompression c' = clCompression c" "client_ser z c' = client_ser z c"
    by (simp_all add: c' client_ser_def fun_eq_iff)
  show "i = clLastStreamID c + 1" by (fact i)
  show "client_out c' = client_out c @ client_ser z c (makestream_frame i)"
    using clc.Write_Ok [OF w] by (simp add: c' client_out_def client_ser_def)
  show "client_fetchStream i c' = Some (NewStream i)" by (simp add: c' client_fetchStream_def update_conv')
qed

lemma makestream_frame_ok: "i \<noteq> 0 \<Longrightarrow> frame_ok (makestream_frame i)"
  using makestream.into_sized [of "\<lparr>makeStreamID = i\<rparr>"] makestream.into_known
  by (simp add: frame_ok_def MakeStream_valid_def makestream_frame_def)

text \<open>The server makes the stream and hands it to the service.\<close>

lemma dispatch_makestream:
  assumes "running c" and "configured c" and "fetchStream i c = None" and "i \<noteq> 0"
  shows "\<exists>c'. dispatchFrame z ord (makestream_frame i) c = (Ok (), c') \<and> accepts chanCap i (NewStream i) c' \<and>
    c' = c\<lparr>streams := AList.update i (NewStream i) (streams c), calls := calls c @ (if parent c then [ServiceStream i] else [])\<rparr>"
proof -
  let ?c = "c\<lparr>streams := AList.update i (NewStream i) (streams c), calls := calls c @ (if parent c then [ServiceStream i] else [])\<rparr>"
  have "dispatchFrame z ord (makestream_frame i) c = (Ok (), ?c)"
    using assms makestream.from_into [of "\<lparr>makeStreamID = i\<rparr>"]
    by (simp add: dispatchFrame_def makestream_frame_def makestream.into_kind handleWith_def MakeStream_valid_def handleMakeStream_def Let_def)
  moreover have "accepts chanCap i (NewStream i) ?c"
    using assms by (simp add: accepts_def fetchStream_def update_conv' NewStream_def NewBlockReader_def RecvData_def streamState_zero_def)
  ultimately show ?thesis by fastforce
qed

end
