(* ===== verification/Arf_Client.thy ===== *)
theory Arf_Client
  imports Arf_Context Wire_Session
begin

text \<open>
  The client of package \<^verbatim>\<open>arf\<close> (\<^verbatim>\<open>src/client.go\<close>) and the typed streams (\<^verbatim>\<open>src/streamer.go\<close>): a call sends its request
  on a new stream and reads the response. The contexts of calls write to streams of a wire client or of a wire
  connection; the locale \<open>stream_writer\<close> is interpreted for both.
\<close>

section \<open>Calls\<close>

datatype callOption = WithStream | WithMetadata metadata | WithParams "goval list" | WithOutputMetadata bool

text \<open>An option changes the request, or says where the response's metadata goes (a nil target is ignored).\<close>

fun applyOption :: "callOption \<Rightarrow> request \<times> bool \<Rightarrow> request \<times> bool" where
  "applyOption WithStream (r, o') = (r\<lparr>reqStreaming := True\<rparr>, o')"
| "applyOption (WithMetadata m) (r, o') = (r\<lparr>reqMetadata := m\<rparr>, o')"
| "applyOption (WithParams ps) (r, o') = (r\<lparr>reqParams := ps\<rparr>, o')"
| "applyOption (WithOutputMetadata nonNil) (r, o') = (r, if nonNil then True else o')"

record 'w clientOps =
  co_NewStream :: "'w \<Rightarrow> unit outcome \<times> 'w"
  co_Write :: "'w streamWrite"
  co_Reset :: "u32 \<Rightarrow> 'w \<Rightarrow> unit outcome \<times> 'w"
  co_CloseLocal :: "'w \<Rightarrow> unit outcome \<times> 'w"

text \<open>\<^verbatim>\<open>cancelErr\<close>: the stream is reset and the given error, possibly nil, is returned.\<close>

definition cancelErr :: "'w clientOps \<Rightarrow> goerr option \<Rightarrow> 'w \<Rightarrow> 'a option outcome \<times> 'w" where
  "cancelErr ops err w =
     bindR (ignoreErr (co_Reset ops 0x06 w)) (\<lambda>_ w. (case err of Some e \<Rightarrow> Fail e | None \<Rightarrow> Ok None, w))"

definition callCtx :: "request \<Rightarrow> response \<Rightarrow> ctx" where
  "callCtx req resp =
     \<lparr>cxErr = None, hasRecvStream = respStreaming resp, recvStreamError = None, recvStreamStarted = False,
      hasSendStream = reqStreaming req, sendStreamStarted = False, sendStreamError = None, cxResp = Some resp,
      cxReq = Some req, hasSentResponse = False\<rparr>"

text \<open>
  The first half of \<^verbatim>\<open>Call\<close>, up to the wait for the response: \<open>Ok None\<close> is the pair \<^verbatim>\<open>(nil, nil)\<close>, \<open>Ok (Some req)\<close> means that the
  request has been sent. \<open>cancelled\<close> is whether the caller's context has ended when it is looked at.
\<close>

definition Call_send ::
  "tyenv \<Rightarrow> 'w clientOps \<Rightarrow> bool \<Rightarrow> bytes \<Rightarrow> bytes \<Rightarrow> callOption list \<Rightarrow> 'w \<Rightarrow> (request \<times> bool) option outcome \<times> 'w" where
  "Call_send \<Gamma> ops cancelled serviceIdentifier serviceMethod opts w =
     bindR (co_NewStream ops w) (\<lambda>_ w.
     let (req, target) = fold applyOption opts
           (\<lparr>Service = serviceIdentifier, Method = serviceMethod, reqStreaming = False, reqMetadata = [], reqParams = []\<rparr>, False) in
     case wrapMessage \<Gamma> (Request req) of
       Fail e \<Rightarrow> cancelErr ops (Some e) w
     | Panic x \<Rightarrow> (Panic x, w)
     | Blocks \<Rightarrow> (Blocks, w)
     | Ok encoded \<Rightarrow>
         (case co_Write ops encoded (\<not> reqStreaming req) w of
            (Fail e, w) \<Rightarrow> bindR (ignoreErr (co_CloseLocal ops w)) (\<lambda>_ w. (Fail e, w))
          | (Panic x, w) \<Rightarrow> (Panic x, w)
          | (Blocks, w) \<Rightarrow> (Blocks, w)
          | (Ok _, w) \<Rightarrow>
              if cancelled then cancelErr ops None w
              else if reqStreaming req then
                (case wrapMessage \<Gamma> StartStream of
                   Ok d \<Rightarrow>
                     (case co_Write ops d False w of
                        (Ok _, w) \<Rightarrow> (Ok (Some (req, target)), w)
                      | (Fail e, w) \<Rightarrow> cancelErr ops (Some e) w
                      | (Panic x, w) \<Rightarrow> (Panic x, w)
                      | (Blocks, w) \<Rightarrow> (Blocks, w))
                 | Fail e \<Rightarrow> cancelErr ops (Some e) w
                 | Panic x \<Rightarrow> (Panic x, w)
                 | Blocks \<Rightarrow> (Blocks, w))
              else (Ok (Some (req, target)), w)))"

text \<open>The whole call, with what the stream will deliver. The result is the context and, where a target was given, the
  metadata stored there.\<close>

definition Call ::
  "tyenv \<Rightarrow> instantiate \<Rightarrow> 'w clientOps \<Rightarrow> bool \<Rightarrow> bytes \<Rightarrow> bytes \<Rightarrow> callOption list \<Rightarrow> reader \<times> 'w \<Rightarrow>
     (ctx \<times> metadata option) option outcome \<times> reader \<times> 'w" where
  "Call \<Gamma> inst ops cancelled serviceIdentifier serviceMethod opts rw =
     (let (r, w) = rw; (out, w) = Call_send \<Gamma> ops cancelled serviceIdentifier serviceMethod opts w in
      bindR (out, r, w) (\<lambda>sent (r, w).
        case sent of
          None \<Rightarrow> (Ok None, r, w)
        | Some (req, target) \<Rightarrow>
            (case MessageTFromReader inst MessageKindResponse r of
               (Ok (Response resp), r) \<Rightarrow> (Ok (Some (callCtx req resp, if target then Some (respMetadata resp) else None)), r, w)
             | (Ok _, r) \<Rightarrow> (Panic ''unreachable'', r, w)
             | (Fail e, r) \<Rightarrow> let (out, w) = cancelErr ops (Some e) w in (out, r, w)
             | (Panic x, r) \<Rightarrow> (Panic x, r, w)
             | (Blocks, r) \<Rightarrow> (Blocks, r, w))))"

section \<open>Typed streams\<close>

text \<open>A typed stream holds a reference to a context; the two halves of a bidirectional one share it.\<close>

record 'c inStream =
  inC :: 'c

record 'c outStream =
  outC :: 'c

record 'c inOutStream =
  inHalf :: "'c inStream"
  outHalf :: "'c outStream"

definition MakeInStream :: "'c \<Rightarrow> 'c inStream" where
  "MakeInStream c = \<lparr>inC = c\<rparr>"

definition MakeOutStream :: "'c \<Rightarrow> 'c outStream" where
  "MakeOutStream c = \<lparr>outC = c\<rparr>"

definition MakeInOutStream :: "'c \<Rightarrow> 'c inOutStream" where
  "MakeInOutStream c = \<lparr>inHalf = MakeInStream c, outHalf = MakeOutStream c\<rparr>"

text \<open>\<^verbatim>\<open>val.(I)\<close>: the assertion panics when the received value is not of the type; \<open>is_I\<close> tells.\<close>

definition inStream_Recv :: "(goval \<Rightarrow> bool) \<Rightarrow> instantiate \<Rightarrow> ctx \<Rightarrow> reader \<Rightarrow> goval outcome \<times> ctx \<times> reader" where
  "inStream_Recv is_I inst c r =
     bindR (Recv inst c r) (\<lambda>val cr. if is_I val then (Ok val, cr) else (Panic ''interface conversion'', cr))"

definition outStream_Send :: "tyenv \<Rightarrow> 'w streamWrite \<Rightarrow> goval \<Rightarrow> ctx \<times> 'w \<Rightarrow> unit outcome \<times> ctx \<times> 'w" where
  "outStream_Send \<Gamma> wr t cw = Send \<Gamma> wr t cw"

definition outStream_Close :: "tyenv \<Rightarrow> 'w streamWrite \<Rightarrow> ctx \<times> 'w \<Rightarrow> unit outcome \<times> ctx \<times> 'w" where
  "outStream_Close \<Gamma> wr cw = EndSend \<Gamma> wr cw"

section \<open>Contexts over real streams\<close>

definition client_emit :: "flate \<Rightarrow> stream \<times> client \<Rightarrow> bytes \<Rightarrow> bool \<Rightarrow> bytes" where
  "client_emit z sc d e = concat (map (client_ser z (snd sc)) (map Data_IntoFrame (DataFramesFromBuffer (strID (fst sc)) e d)))"

interpretation clsw: stream_writer "stream_Write (client_Write z)" "\<lambda>sc. client_out (snd sc)" "client_emit z" for z
proof
  fix d e and w w' :: "stream \<times> client"
  assume "stream_Write (client_Write z) d e w = (Ok (), w')"
  then have w: "stream_Write (client_Write z) d e (fst w, snd w) = (Ok (), fst w', snd w')" by simp
  note eqs = clc.stream_Write_Ok [OF w]
  have "strID (fst w') = strID (fst w)" using eqs(3) by simp
  with eqs(2,4) show "client_out (snd w') = client_out (snd w) @ client_emit z w d e \<and> client_emit z w' = client_emit z w"
    by (intro conjI ext) (simp_all add: client_emit_def)
qed

definition Conn_emit :: "flate \<Rightarrow> stream \<times> Conn \<Rightarrow> bytes \<Rightarrow> bool \<Rightarrow> bytes" where
  "Conn_emit z sc d e = concat (map (Conn_ser z (snd sc)) (map Data_IntoFrame (DataFramesFromBuffer (strID (fst sc)) e d)))"

interpretation cnsw: stream_writer "stream_Write (Conn_Write z)" "\<lambda>sc. Conn_out (snd sc)" "Conn_emit z" for z
proof
  fix d e and w w' :: "stream \<times> Conn"
  assume "stream_Write (Conn_Write z) d e w = (Ok (), w')"
  then have w: "stream_Write (Conn_Write z) d e (fst w, snd w) = (Ok (), fst w', snd w')" by simp
  note eqs = cc.stream_Write_Ok [OF w]
  have "strID (fst w') = strID (fst w)" using eqs(3) by simp
  with eqs(2,4) show "Conn_out (snd w') = Conn_out (snd w) @ Conn_emit z w d e \<and> Conn_emit z w' = Conn_emit z w"
    by (intro conjI ext) (simp_all add: Conn_emit_def)
qed

section \<open>From one context to the other\<close>

lemma client_emit_small:
  assumes "clCompression cl = CompressionMethodNone" and "length d \<le> maxPayload"
  shows "client_emit z (s, cl) d e = frame_bytes (Data_IntoFrame (mkDataFrame (strID s) True e d))"
proof -
  have "frame_sized (Data_IntoFrame (mkDataFrame (strID s) True e d))"
    using assms(2) by (simp add: frame_sized_def Data_IntoFrame_def unat_of_nat_small maxPayload_def)
  with assms show ?thesis
    by (simp add: client_emit_def DataFramesFromBuffer_def client_ser_def Bytes_frame_bytes)
qed

lemma small_data_frame:
  assumes "i \<noteq> 0" and "length d \<le> maxPayload"
  shows "Data_valid (mkDataFrame i True e d)" and "frame_ok (Data_IntoFrame (mkDataFrame i True e d))"
  using assms clw.data_frame_ok [of "mkDataFrame i True e d"] by (simp_all add: Data_valid_def maxPayload_def)

text \<open>Messages written to a client stream, the last one with the end of the stream, arrive as one chunk each.\<close>

lemma messages_arrive:
  assumes acc: "accepts (Suc (length ms)) i t c" and small: "\<forall>m\<in>set (ms @ [l]). m \<noteq> [] \<and> length m \<le> maxPayload"
    and r: "rflat r = concat (map (\<lambda>m. frame_bytes (Data_IntoFrame (mkDataFrame i True False m))) ms)
      @ frame_bytes (Data_IntoFrame (mkDataFrame i True True l))"
  shows "\<exists>t' c' r'. serviceReads z ord r c = serviceReads z ord r' c' \<and> rflat r' = [] \<and> fetchStream i c' = Some t' \<and>
    stream_chunks t' = stream_chunks t @ ms @ [l]"
proof -
  have nz: "i \<noteq> 0" using acc by (simp add: accepts_def)
  let ?ds = "map (mkDataFrame i True False) ms" and ?d = "mkDataFrame i True True l"
  have valid: "\<forall>d\<in>set ?ds. Data_valid d \<and> dataStreamID d = i \<and> \<not> EndStream d" and last: "Data_valid ?d"
    using small small_data_frame [OF nz] by auto
  obtain t1 c1 where t1: "dispatchAll z ord (map Data_IntoFrame ?ds) c = (Ok (), c1)" "running c1" "accepts 1 i t1 c1"
    "stream_chunks t1 = stream_chunks t @ filter (\<lambda>c. c \<noteq> []) (map dataPayload ?ds)"
    using dispatchAll_data [where n = 1 and ds = ?ds, of i t c z ord] acc valid by auto
  obtain t' c' where t': "dispatchFrame z ord (Data_IntoFrame ?d) c1 = (Ok (), c')" "running c'" "fetchStream i c' = Some t'"
    "stream_chunks t' = stream_chunks t1 @ filter (\<lambda>c. c \<noteq> []) [l]"
    using dispatch_data [of 0 i t1 c1 ?d z ord] t1(3) last by auto
  let ?fs = "map Data_IntoFrame (?ds @ [?d])"
  have "dispatchAll z ord ?fs c = (Ok (), c')" using t1(1,2) t'(1) by (simp add: dispatchAll_append)
  moreover have "\<forall>f\<in>set ?fs. frame_ok f" using small small_data_frame [OF nz] by auto
  moreover have "rflat r = concat (map frame_bytes ?fs) @ []" using r by (simp add: o_def)
  ultimately obtain r' where "rflat r' = []" "serviceReads z ord r c = serviceReads z ord r' c'"
    using serviceReads_frames t'(2) by blast
  moreover have "filter (\<lambda>c. c \<noteq> []) (map dataPayload ?ds) = ms" "filter (\<lambda>c. c \<noteq> []) [l] = [l]"
    using small by (auto simp: o_def filter_id_conv)
  ultimately show ?thesis using t'(3,4) t1(4) by auto
qed

lemma client_stream_to_server:
  assumes send: "Sends \<Gamma> (stream_Write (client_Write z)) vs (cc, s, cl) = (Ok (), cc1, s1, cl1)"
    and fin: "EndSend \<Gamma> (stream_Write (client_Write z)) (cc1, s1, cl1) = (Ok (), cc2, s2, cl2)"
    and ctx: "vs \<noteq> []" "\<not> sendStreamStarted cc" and comp: "clCompression cl = CompressionMethodNone"
    and items: "list_all2 (\<lambda>v (bs, w). item_bytes \<Gamma> inst v bs w) vs bws" and small: "\<forall>bs\<in>fst ` set bws. length bs \<le> maxPayload"
    and acc: "accepts (length vs + 2) (strID s) t c" "stream_chunks t = []"
    and r: "rflat r = drop (length (client_out cl)) (client_out cl2)"
  shows "\<exists>t' c' r'. serviceReads z ord r c = serviceReads z ord r' c' \<and> rflat r' = [] \<and> fetchStream (strID s) c' = Some t' \<and>
    (\<forall>rr cx. stream_as rr t' \<longrightarrow> can_recv False cx \<longrightarrow>
      (\<exists>cx' rr'. Recvs inst (length vs) cx rr = (Ok (map snd bws), cx', rr') \<and> fst (Recv inst cx' rr') = Fail StreamEndError))"
proof -
  let ?w = "(s, cl)" and ?bss = "map fst bws"
  obtain bss where enc: "map (\<lambda>v. wrapMessage \<Gamma> (StreamItem v)) vs = map Ok bss"
    and out1: "client_out cl1 = client_out cl @ client_emit z ?w [MessageKindStartStream] False @ concat (map (\<lambda>bs. client_emit z ?w bs False) bss)"
    and emit1: "client_emit z (s1, cl1) = client_emit z ?w"
    using clsw.Sends_Ok [OF send ctx] by auto
  have "map (\<lambda>v. wrapMessage \<Gamma> (StreamItem v)) vs = map Ok ?bss"
    using items by (induction rule: list_all2_induct) (auto simp: item_bytes_def)
  with enc have bss: "bss = ?bss" by (metis inj_map_eq_map injI outcome.inject(1))
  have out2: "client_out cl2 = client_out cl1 @ client_emit z ?w [MessageKindEndStream] True"
    using clsw.EndSend_Ok [OF fin] emit1 by simp
  have len: "length bws = length vs" using items by (simp add: list_all2_lengthD)
  have ne: "\<forall>bs\<in>set ?bss. bs \<noteq> []"
    using items by (induction rule: list_all2_induct) (auto simp: item_bytes_def wrapMessage_def bindO_eq_Ok_iff)
  note e = client_emit_small [OF comp, of _ z s]
  have sm: "length [b] \<le> maxPayload" for b :: u8 by (simp add: maxPayload_def)
  have cong: "map (\<lambda>bs. client_emit z ?w bs False) ?bss = map (\<lambda>m. frame_bytes (Data_IntoFrame (mkDataFrame (strID s) True False m))) ?bss"
    using small e by auto
  have "client_out cl2 = client_out cl @ client_emit z ?w [MessageKindStartStream] False
      @ concat (map (\<lambda>bs. client_emit z ?w bs False) ?bss) @ client_emit z ?w [MessageKindEndStream] True"
    unfolding out2 out1 bss by simp
  then have flat: "rflat r = concat (map (\<lambda>m. frame_bytes (Data_IntoFrame (mkDataFrame (strID s) True False m))) ([MessageKindStartStream] # ?bss))
      @ frame_bytes (Data_IntoFrame (mkDataFrame (strID s) True True [MessageKindEndStream]))"
    unfolding cong r by (simp add: e [OF sm] del: map_map)
  have acc': "accepts (Suc (length ([MessageKindStartStream] # ?bss))) (strID s) t c" using acc(1) len by simp
  obtain t' c' r' where t': "serviceReads z ord r c = serviceReads z ord r' c'" "rflat r' = []" "fetchStream (strID s) c' = Some t'"
    "stream_chunks t' = [MessageKindStartStream] # ?bss @ [[MessageKindEndStream]]"
    using messages_arrive [OF acc' _ flat, of z ord] small ne sm acc(2) by auto
  have "\<exists>cx' rr'. Recvs inst (length vs) cx rr = (Ok (map snd bws), cx', rr') \<and> fst (Recv inst cx' rr') = Fail StreamEndError"
    if "stream_as rr t'" "can_recv False cx" for rr cx
    using that t'(4) by (intro Recvs_stream [OF items ctx(1)]) (auto simp: stream_as_def offers_def)
  with t'(1-3) show ?thesis by blast
qed

section \<open>Calls over a wire client\<close>

text \<open>The operations a call uses, on a client and the stream it made.\<close>

definition client_ops :: "flate \<Rightarrow> (stream \<times> client) clientOps" where
  "client_ops z =
     \<lparr>co_NewStream = (\<lambda>(s, c). let (out, c) = client_NewStream z c in
        case out of Ok i \<Rightarrow> (Ok (), NewStream i, c) | Fail e \<Rightarrow> (Fail e, s, c) | Panic x \<Rightarrow> (Panic x, s, c) | Blocks \<Rightarrow> (Blocks, s, c)),
      co_Write = stream_Write (client_Write z), co_Reset = stream_Reset (client_Write z),
      co_CloseLocal = stream_CloseLocal (client_Write z)\<rparr>"

context stream_writer
begin

text \<open>A call that gets to the point of waiting has sent the request on a new stream, ending the stream unless it is to go
  on; then also the start of the stream.\<close>

lemma Call_send_Ok:
  assumes "Call_send \<Gamma> ops cancelled svc meth opts w = (Ok (Some (req, target)), w')" and "co_Write ops = wr"
  shows "\<exists>w0 enc. co_NewStream ops w = (Ok (), w0) \<and> wrapMessage \<Gamma> (Request req) = Ok enc \<and>
    (req, target) = fold applyOption opts (\<lparr>Service = svc, Method = meth, reqStreaming = False, reqMetadata = [], reqParams = []\<rparr>, False) \<and>
    out w' = out w0 @ emit w0 enc (\<not> reqStreaming req) @ (if reqStreaming req then emit w0 [MessageKindStartStream] False else []) \<and>
    emit w' = emit w0 \<and> (\<not> reqStreaming req \<longrightarrow> wr enc True w0 = (Ok (), w'))"
proof -
  define req0 where "req0 = fold applyOption opts (\<lparr>Service = svc, Method = meth, reqStreaming = False, reqMetadata = [], reqParams = []\<rparr>, False)"
  obtain w0 where w0: "co_NewStream ops w = (Ok (), w0)"
    using assms(1) by (auto simp: Call_send_def bindR_eq_Ok_iff)
  obtain q t where q: "req0 = (q, t)" by fastforce
  have never: "cancelErr ops e x \<noteq> (Ok (Some v), y)" for e x y and v :: "request \<times> bool"
    by (auto simp: cancelErr_def bindR_eq_Ok_iff split: option.splits)
  from assms(1) w0 q obtain enc w1 where enc: "wrapMessage \<Gamma> (Request q) = Ok enc" and w1: "wr enc (\<not> reqStreaming q) w0 = (Ok (), w1)"
    and rest: "if reqStreaming q then wr [MessageKindStartStream] False w1 = (Ok (), w') \<and> (req, target) = (q, t)
       else w' = w1 \<and> (req, target) = (q, t)"
    by (auto simp: Call_send_def assms(2) req0_def [symmetric] never wrapMessage_def [of \<Gamma> StartStream] bindR_eq_Ok_iff
        split: outcome.splits prod.splits if_splits)
  from wr_Ok [OF w1] w1 enc rest w0 q show ?thesis
    by (cases "reqStreaming q") (auto simp: req0_def dest!: wr_Ok)
qed

end

lemma client_ops_sel [simp]:
  "co_Write (client_ops z) = stream_Write (client_Write z)" "co_Reset (client_ops z) = stream_Reset (client_Write z)"
  "co_CloseLocal (client_ops z) = stream_CloseLocal (client_Write z)"
  by (simp_all add: client_ops_def)

lemma client_ops_NewStream:
  assumes "co_NewStream (client_ops z) (s, c) = (Ok (), s', c')"
  shows "\<exists>i. s' = NewStream i \<and> client_NewStream z c = (Ok i, c')"
  using assms by (auto simp: client_ops_def Let_def split: prod.splits outcome.splits)

end
