(* ===== verification/Arf_Server.thy ===== *)
theory Arf_Server
  imports Arf_Context
begin

text \<open>
  The server of package \<^verbatim>\<open>arf\<close> (\<^verbatim>\<open>src/server.go\<close>, \<^verbatim>\<open>src/service.go\<close>): services and their methods, interceptors,
  and the handling of one stream from its request to its response. The application's methods and interceptors are
  arbitrary functions on the state of the call: its context, what the stream will deliver and the state behind the
  stream's operations.
\<close>

section \<open>Services\<close>

type_synonym 'w callState = "ctx \<times> reader \<times> 'w"
type_synonym 'w handler = "'w callState \<Rightarrow> unit outcome \<times> 'w callState"
type_synonym 'w interceptor = "'w handler \<Rightarrow> 'w handler"

record 'w serviceAdapter =
  Methods :: "(bytes \<times> 'w handler) list"
  ServiceID :: bytes

definition ArfServiceID :: "'w serviceAdapter \<Rightarrow> bytes" where
  "ArfServiceID s = ServiceID s"

definition RespondsTo :: "bytes \<Rightarrow> 'w serviceAdapter \<Rightarrow> bool" where
  "RespondsTo name s \<longleftrightarrow> map_of (Methods s) name \<noteq> None"

definition InvokeMethod :: "bytes \<Rightarrow> 'w serviceAdapter \<Rightarrow> 'w handler" where
  "InvokeMethod name s st =
     (case map_of (Methods s) name of
        None \<Rightarrow> (Panic ''nil pointer dereference'', st)
      | Some f \<Rightarrow> f st)"

text \<open>The operations of \<^verbatim>\<open>wire.Stream\<close> that the server calls.\<close>

record 'w streamOps =
  op_Write :: "'w streamWrite"
  op_Reset :: "u32 \<Rightarrow> 'w \<Rightarrow> unit outcome \<times> 'w"
  op_SetExternalID :: "bytes \<Rightarrow> 'w \<Rightarrow> 'w"

record 'w srv =
  services :: "(bytes \<times> 'w serviceAdapter) list"
  srvStreams :: "bytes list"
  streamContext :: "(bytes \<times> goerr option) list"
  interceptors :: "'w interceptor list"
  logger :: bool

text \<open>\<^verbatim>\<open>NewServer\<close> keeps the logger of the options, whether it is nil or not.\<close>

definition arf_NewServer :: "bool \<Rightarrow> 'w srv" where
  "arf_NewServer hasLogger = \<lparr>services = [], srvStreams = [], streamContext = [], interceptors = [], logger = hasLogger\<rparr>"

definition RegisterService :: "'w serviceAdapter \<Rightarrow> 'w srv \<Rightarrow> unit outcome \<times> 'w srv" where
  "RegisterService svc s =
     (let i = ArfServiceID svc in
      if map_of (services s) i \<noteq> None then (Fail (Errorf ''service already registered''), s)
      else (Ok (), s\<lparr>services := AList.update i svc (services s)\<rparr>))"

definition MustRegisterService :: "'w serviceAdapter \<Rightarrow> 'w srv \<Rightarrow> unit outcome \<times> 'w srv" where
  "MustRegisterService svc s =
     (case RegisterService svc s of (Fail e, s) \<Rightarrow> (Panic ''service already registered'', s) | x \<Rightarrow> x)"

definition RegisterInterceptor :: "'w interceptor list \<Rightarrow> 'w srv \<Rightarrow> 'w srv" where
  "RegisterInterceptor is s = s\<lparr>interceptors := interceptors s @ is\<rparr>"

text \<open>The loop \<^verbatim>\<open>for i := len(interceptors) - 1; i >= 0; i--\<close>: the interceptor at \<open>i\<close> calls what has been built so far.\<close>

fun chain_loop :: "nat \<Rightarrow> 'w interceptor list \<Rightarrow> 'w handler \<Rightarrow> 'w handler" where
  "chain_loop 0 is built = built"
| "chain_loop (Suc i) is built = chain_loop i is ((is ! i) built)"

definition chainInterceptors :: "'w handler \<Rightarrow> 'w interceptor list \<Rightarrow> 'w handler" where
  "chainInterceptors finalHandler is = chain_loop (length is) is finalHandler"

section \<open>One stream\<close>

definition description :: "bytes \<Rightarrow> metadata outcome" where
  "description msg = MetadataFromStringPairs [ascii ''arf-status-description'', msg]"

text \<open>\<^verbatim>\<open>err = str.Write(enc, true); if err != nil { _ = str.Reset(ErrorCodeInternalError) }\<close>\<close>

definition write_or_reset :: "'w streamOps \<Rightarrow> bytes \<Rightarrow> 'w \<Rightarrow> unit outcome \<times> 'w" where
  "write_or_reset ops enc w =
     (case op_Write ops enc True w of
        (Fail e, w) \<Rightarrow> ignoreErr (op_Reset ops 0x02 w)
      | x \<Rightarrow> x)"

definition rejectInvalidStreamMsg :: "tyenv \<Rightarrow> 'w streamOps \<Rightarrow> int \<Rightarrow> bytes \<Rightarrow> 'w \<Rightarrow> unit outcome \<times> 'w" where
  "rejectInvalidStreamMsg \<Gamma> ops st msg w =
     bindR (description msg, w) (\<lambda>meta w.
       case wrapMessage \<Gamma> (Response
           \<lparr>respStatus = word_of_int st, respStreaming = False, respMetadata = meta, respParams = []\<rparr>) of
         Ok enc \<Rightarrow> write_or_reset ops enc w
       | Fail e \<Rightarrow> bindR (ignoreErr (op_Reset ops 0x02 w)) (\<lambda>_ w. write_or_reset ops [] w)
       | Panic x \<Rightarrow> (Panic x, w)
       | Blocks \<Rightarrow> (Blocks, w))"

definition rejectInvalidStream :: "tyenv \<Rightarrow> 'w streamOps \<Rightarrow> int \<Rightarrow> 'w \<Rightarrow> unit outcome \<times> 'w" where
  "rejectInvalidStream \<Gamma> ops st w = rejectInvalidStreamMsg \<Gamma> ops st (ascii (Status_Error st)) w"

definition emitError :: "tyenv \<Rightarrow> 'w streamOps \<Rightarrow> int \<Rightarrow> bytes \<Rightarrow> ctx \<Rightarrow> 'w \<Rightarrow> unit outcome \<times> 'w" where
  "emitError \<Gamma> ops st msg c w =
     bindR (description msg, w) (\<lambda>meta w.
       case (if sendStreamStarted c
             then wrapMessage \<Gamma> (StreamErrorM \<lparr>seStatus = word_of_int st, seMetadata = meta\<rparr>)
             else wrapMessage \<Gamma> (Response
               \<lparr>respStatus = word_of_int st, respStreaming = False, respMetadata = meta, respParams = []\<rparr>)) of
         Ok enc \<Rightarrow> write_or_reset ops enc w
       | Fail e \<Rightarrow> ignoreErr (op_Reset ops 0x02 w)
       | Panic x \<Rightarrow> (Panic x, w)
       | Blocks \<Rightarrow> (Blocks, w))"

text \<open>The deferred function of \<^verbatim>\<open>guardInvoke\<close> sends the default response when the method returned no error; it also runs
  when the method panics, and the panic goes on. The state of a call holds one context, the \<^verbatim>\<open>reqCtx\<close> of the call: \<^verbatim>\<open>guardInvoke\<close> uses it whatever
  context an interceptor hands on, and what interceptors and methods do to it is the change they make to the state.\<close>

definition guardInvoke :: "tyenv \<Rightarrow> 'w streamOps \<Rightarrow> request \<Rightarrow> 'w serviceAdapter \<Rightarrow> 'w handler" where
  "guardInvoke \<Gamma> ops req svc st =
     (case InvokeMethod (Method req) svc st of
        (Ok _, c, r, w) \<Rightarrow>
          if hasSentResponse c then (Ok (), c, r, w)
          else let (out, c, w) = SendResponse \<Gamma> (op_Write ops) 0 [] False [] (c, w) in (out, c, r, w)
      | (Panic x, c, r, w) \<Rightarrow>
          if hasSentResponse c then (Panic x, c, r, w)
          else let (out, c, w) = SendResponse \<Gamma> (op_Write ops) 0 [] False [] (c, w) in (Panic x, c, r, w)
      | x \<Rightarrow> x)"

text \<open>What \<^verbatim>\<open>errors.As\<close> finds: a \<^verbatim>\<open>*BadStatus\<close>, a \<^verbatim>\<open>*Status\<close>, or neither. \<open>etext\<close> is the text of an error.\<close>

definition errorStatus :: "(goerr \<Rightarrow> bytes) \<Rightarrow> goerr \<Rightarrow> int \<times> bytes" where
  "errorStatus etext e =
     (case e of
        BadStatus st msg \<Rightarrow> (st, msg)
      | StatusPtr st \<Rightarrow> (st, ascii (Status_Error st))
      | _ \<Rightarrow> (13, etext e))"

definition newCtx :: "request \<Rightarrow> ctx" where
  "newCtx req =
     \<lparr>cxErr = None, hasRecvStream = reqStreaming req, recvStreamError = None, recvStreamStarted = False,
      hasSendStream = False, sendStreamStarted = False, sendStreamError = None, cxResp = None, cxReq = Some req,
      hasSentResponse = False\<rparr>"

text \<open>\<^verbatim>\<open>ServiceStream\<close>: \<open>ident\<close> is the result of the generator of identifiers. The result is the state of the call when the
  method was reached.\<close>

definition ServiceStream_run ::
  "tyenv \<Rightarrow> instantiate \<Rightarrow> (goerr \<Rightarrow> bytes) \<Rightarrow> 'w streamOps \<Rightarrow> 'w srv \<Rightarrow> request \<Rightarrow> 'w serviceAdapter \<Rightarrow> reader \<Rightarrow> 'w \<Rightarrow> unit outcome \<times> 'w callState" where
  "ServiceStream_run \<Gamma> inst etext ops s req svc r w =
     (case chainInterceptors (guardInvoke \<Gamma> ops req svc) (interceptors s) (newCtx req, r, w) of
        (Fail e, c, r, w) \<Rightarrow>
          let (st, msg) = errorStatus etext e; (out, w) = emitError \<Gamma> ops st msg c w in (out, c, r, w)
      | x \<Rightarrow> x)"

definition arf_ServiceStream ::
  "tyenv \<Rightarrow> instantiate \<Rightarrow> (goerr \<Rightarrow> bytes) \<Rightarrow> 'w streamOps \<Rightarrow> bytes outcome \<Rightarrow> reader \<Rightarrow> 'w \<times> 'w srv \<Rightarrow> unit outcome \<times> 'w \<times> 'w srv" where
  "arf_ServiceStream \<Gamma> inst etext ops ident r ws =
     (let (w, s) = ws in
      case ident of
        Fail e \<Rightarrow>
          if \<not> logger s then (Panic ''nil pointer dereference'', w, s)
          else let (out, w) = ignoreErr (op_Reset ops 0x02 w) in (out, w, s)
      | Panic x \<Rightarrow> (Panic x, w, s)
      | Blocks \<Rightarrow> (Blocks, w, s)
      | Ok reqID \<Rightarrow>
          let w = op_SetExternalID ops reqID w in
          if \<not> logger s then (Panic ''nil pointer dereference'', w, s)
          else case MessageTFromReader inst MessageKindRequest r of
            (Fail e, r) \<Rightarrow>
              let (out, w) = rejectInvalidStreamMsg \<Gamma> ops 13 (ascii ''Failed deserializing request payload'') w in (out, w, s)
          | (Ok (Request req), r) \<Rightarrow>
              (case map_of (services s) (Service req) of
                 None \<Rightarrow> let (out, w) = rejectInvalidStream \<Gamma> ops 12 w in (out, w, s)
               | Some svc \<Rightarrow>
                   if \<not> RespondsTo (Method req) svc
                   then let (out, w) = rejectInvalidStream \<Gamma> ops 12 w in (out, w, s)
                   else
                     let s = s\<lparr>srvStreams := List.insert reqID (srvStreams s),
                               streamContext := AList.update reqID None (streamContext s)\<rparr>;
                         (out, c, r, w) = ServiceStream_run \<Gamma> inst etext ops s req svc r w
                     in (out, w, s))
          | (Ok _, r) \<Rightarrow> (Panic ''unreachable'', w, s)
          | (Panic x, r) \<Rightarrow> (Panic x, w, s)
          | (Blocks, r) \<Rightarrow> (Blocks, w, s))"

definition StreamCanceledErr :: goerr where
  "StreamCanceledErr = Errorf ''stream canceled''"

text \<open>\<^verbatim>\<open>CancelStream\<close> cancels the context of a stream once, with a cause.\<close>

definition CancelStream :: "bytes \<Rightarrow> 'w srv \<Rightarrow> 'w srv" where
  "CancelStream externalID s =
     (case map_of (streamContext s) externalID of
        None \<Rightarrow> s
      | Some (Some cause) \<Rightarrow> s
      | Some None \<Rightarrow> s\<lparr>streamContext := AList.update externalID (Some StreamCanceledErr) (streamContext s)\<rparr>)"

section \<open>Interceptors\<close>

lemma chain_loop_foldr: "i \<le> length is \<Longrightarrow> chain_loop i is h = foldr (\<lambda>ic next. ic next) (take i is) h"
proof (induction i arbitrary: h)
  case (Suc i)
  then have "take (Suc i) is = take i is @ [is ! i]" by (simp add: take_Suc_conv_app_nth)
  with Suc show ?case by simp
qed simp

text \<open>The first interceptor is the outermost: it runs first and sees the result last.\<close>

lemma chainInterceptors_foldr: "chainInterceptors h is = foldr (\<lambda>ic next. ic next) is h"
  by (simp add: chainInterceptors_def chain_loop_foldr)

lemma chainInterceptors_append: "chainInterceptors h (is @ js) = chainInterceptors (chainInterceptors h js) is"
  by (simp add: chainInterceptors_foldr)

section \<open>Registration\<close>

lemma RegisterService_cases:
  "RegisterService svc s = (if map_of (services s) (ServiceID svc) = None
     then (Ok (), s\<lparr>services := services s @ [(ServiceID svc, svc)]\<rparr>)
     else (Fail (Errorf ''service already registered''), s))"
  by (simp add: RegisterService_def ArfServiceID_def Let_def update_new)

section \<open>Responses\<close>

text \<open>The response with a status and its description, as the server builds it.\<close>

definition statusResponse :: "int \<Rightarrow> bytes \<Rightarrow> response" where
  "statusResponse st msg =
     \<lparr>respStatus = word_of_int st, respStreaming = False, respMetadata = [(ascii ''arf-status-description'', msg)], respParams = []\<rparr>"

lemma description_Ok: "description msg = Ok [(ascii ''arf-status-description'', msg)]"
  by (simp add: description_def MetadataFromStringPairs_def Metadata_Add_def)

lemma wrap_statusResponse: "\<exists>enc. wrapMessage \<Gamma> (Response (statusResponse st msg)) = Ok enc"
  by (simp add: wrapMessage_def statusResponse_def Response_Encode_def encodeParams_def)

lemma rejectInvalidStreamMsg_writes:
  assumes "wrapMessage \<Gamma> (Response (statusResponse st msg)) = Ok enc"
  shows "rejectInvalidStreamMsg \<Gamma> ops st msg w = write_or_reset ops enc w"
  using assms by (simp add: rejectInvalidStreamMsg_def description_Ok statusResponse_def)

text \<open>The client's view of such a response: an error with the status and the description.\<close>

lemma Result_statusResponse:
  "0 < st \<Longrightarrow> st < 65536 \<Longrightarrow> Response_Result (statusResponse st msg) = Fail (BadStatus st msg)"
proof -
  assume st: "0 < st" "st < 65536"
  then have "uint (word_of_int st :: u16) = st" by (simp add: uint_word_of_int)
  moreover have "(word_of_int st :: u16) \<noteq> 0" using st calculation by (metis less_irrefl uint_0_eq)
  ultimately show ?thesis by (simp add: Response_Result_def statusResponse_def Metadata_Lookup_def)
qed

section \<open>The life of a stream\<close>

text \<open>The request arrives in one piece.\<close>

definition request_arrives :: "tyenv \<Rightarrow> instantiate \<Rightarrow> request \<Rightarrow> request \<Rightarrow> reader \<Rightarrow> reader \<Rightarrow> bool" where
  "request_arrives \<Gamma> inst req req' r r' \<longleftrightarrow>
     (\<exists>bs. Request_valid req \<and> wrapMessage \<Gamma> (Request req) = Ok bs \<and> Request_norm inst \<Gamma> req = Ok req' \<and>
        length bs \<le> maxEncoded \<and> prefix bs (rpeek r) \<and> r' = rskip (length bs) r)"

lemma request_arrivesD:
  "request_arrives \<Gamma> inst req req' r r' \<Longrightarrow> MessageTFromReader inst MessageKindRequest r = (Ok (Request req'), r')"
  using wrapMessage_reads_back(2) [of "Request req" \<Gamma> _ inst "Request req'"]
  by (auto simp: request_arrives_def reads_back_def)

lemma ServiceStream_unimplemented:
  assumes "logger s" and "MessageTFromReader inst MessageKindRequest r = (Ok (Request req'), r')"
    and "\<nexists>svc. map_of (services s) (Service req') = Some svc \<and> RespondsTo (Method req') svc"
    and "wrapMessage \<Gamma> (Response (statusResponse 12 (ascii ''Unimplemented''))) = Ok enc"
  shows "arf_ServiceStream \<Gamma> inst etext ops (Ok i) r (w, s) =
    (fst (write_or_reset ops enc (op_SetExternalID ops i w)), snd (write_or_reset ops enc (op_SetExternalID ops i w)), s)"
proof -
  have "rejectInvalidStream \<Gamma> ops 12 w' = write_or_reset ops enc w'" for w'
    using rejectInvalidStreamMsg_writes [OF assms(4)] by (simp add: rejectInvalidStream_def Status_Error_def statusText_def)
  then show ?thesis using assms(1-3)
    by (auto simp: arf_ServiceStream_def Let_def split: prod.splits option.splits)
qed

lemma ServiceStream_bad_request:
  assumes "logger s" and "MessageTFromReader inst MessageKindRequest r = (Fail e, r')"
    and "wrapMessage \<Gamma> (Response (statusResponse 13 (ascii ''Failed deserializing request payload''))) = Ok enc"
  shows "arf_ServiceStream \<Gamma> inst etext ops (Ok i) r (w, s) =
    (fst (write_or_reset ops enc (op_SetExternalID ops i w)), snd (write_or_reset ops enc (op_SetExternalID ops i w)), s)"
  using assms(1,2) rejectInvalidStreamMsg_writes [OF assms(3), of ops]
  by (simp add: arf_ServiceStream_def Let_def case_prod_unfold)

text \<open>A request for a registered method reaches it through the interceptors, with a fresh context, and its outcome decides
  the answer.\<close>

lemma ServiceStream_runs:
  assumes "logger s" and "MessageTFromReader inst MessageKindRequest r = (Ok (Request req'), r')"
    and "map_of (services s) (Service req') = Some svc" and "RespondsTo (Method req') svc"
  shows "fst (arf_ServiceStream \<Gamma> inst etext ops (Ok i) r (w, s)) =
      fst (ServiceStream_run \<Gamma> inst etext ops s req' svc r' (op_SetExternalID ops i w))"
    and "fst (snd (arf_ServiceStream \<Gamma> inst etext ops (Ok i) r (w, s))) =
      snd (snd (snd (ServiceStream_run \<Gamma> inst etext ops s req' svc r' (op_SetExternalID ops i w))))"
proof -
  let ?s = "s\<lparr>srvStreams := List.insert i (srvStreams s), streamContext := AList.update i None (streamContext s)\<rparr>"
  have run: "ServiceStream_run \<Gamma> inst etext ops ?s req' svc r' x = ServiceStream_run \<Gamma> inst etext ops s req' svc r' x" for x
    by (simp add: ServiceStream_run_def)
  show "fst (arf_ServiceStream \<Gamma> inst etext ops (Ok i) r (w, s)) =
      fst (ServiceStream_run \<Gamma> inst etext ops s req' svc r' (op_SetExternalID ops i w))"
    and "fst (snd (arf_ServiceStream \<Gamma> inst etext ops (Ok i) r (w, s))) =
      snd (snd (snd (ServiceStream_run \<Gamma> inst etext ops s req' svc r' (op_SetExternalID ops i w))))"
    using assms run [of "op_SetExternalID ops i w"]
    by (simp_all add: arf_ServiceStream_def Let_def split: prod.splits)
qed

text \<open>The default response: no parameters, status OK.\<close>

definition okResponse :: response where
  "okResponse = \<lparr>respStatus = 0, respStreaming = False, respMetadata = [], respParams = []\<rparr>"

lemma run_default_response:
  assumes "map_of (Methods svc) (Method req) = Some f" and "f (newCtx req, r, w) = (Ok (), c', r', w')" and "\<not> hasSentResponse c'"
    and "wrapMessage \<Gamma> (Response okResponse) = Ok enc" and "op_Write ops enc True w' = (Ok (), w'')" and "interceptors s = []"
  shows "fst (ServiceStream_run \<Gamma> inst etext ops s req svc r w) = Ok () \<and>
    snd (snd (snd (ServiceStream_run \<Gamma> inst etext ops s req svc r w))) = w''"
  using assms by (simp add: ServiceStream_run_def chainInterceptors_def guardInvoke_def InvokeMethod_def SendResponse_def okResponse_def)

lemma run_error_response:
  assumes "map_of (Methods svc) (Method req) = Some f" and "f (newCtx req, r, w) = (Fail e, c', r', w')" and "\<not> sendStreamStarted c'"
    and "errorStatus etext e = (st, msg)" and "wrapMessage \<Gamma> (Response (statusResponse st msg)) = Ok enc" and "interceptors s = []"
  shows "ServiceStream_run \<Gamma> inst etext ops s req svc r w = (fst (write_or_reset ops enc w'), c', r', snd (write_or_reset ops enc w'))"
  using assms
  by (simp add: ServiceStream_run_def chainInterceptors_def guardInvoke_def InvokeMethod_def emitError_def description_Ok statusResponse_def
      split: prod.splits)

text \<open>A \<^verbatim>\<open>status.Status\<close> returned by value is not recognised: the client sees an internal error.\<close>

lemma errorStatus_cases:
  "errorStatus etext (BadStatus st msg) = (st, msg)"
  "errorStatus etext (StatusPtr st) = (st, ascii (Status_Error st))"
  "errorStatus etext (StatusError st) = (13, etext (StatusError st))"
  "errorStatus etext (AppError x) = (13, etext (AppError x))"
  by (simp_all add: errorStatus_def)

text \<open>Without a logger in the options every stream makes the server panic.\<close>

lemma ServiceStream_no_logger:
  "\<not> logger s \<Longrightarrow> fst (arf_ServiceStream \<Gamma> inst etext ops (Ok i) r (w, s)) = Panic ''nil pointer dereference''"
  by (simp add: arf_ServiceStream_def Let_def)

end
