(* ===== verification/Arf_Call.thy ===== *)
theory Arf_Call
  imports Arf_Client Arf_Server
begin

text \<open>
  A call from end to end: the bytes of \<^verbatim>\<open>client.Call\<close> on the wire, the request in the server's \<^verbatim>\<open>ServiceStream\<close>, the
  response on the way back, and the context that \<^verbatim>\<open>Call\<close> returns for it.
\<close>

section \<open>The way to the server\<close>

text \<open>A unary call: the connection of the server makes the stream and queues the request on it, and changes in nothing else.\<close>

lemma unary_request_delivered:
  assumes send: "Call_send \<Gamma> (client_ops z) cancelled svc meth opts (s0, cl) = (Ok (Some (req, target)), s, cl')"
    and req: "\<not> reqStreaming req" and small: "wrapMessage \<Gamma> (Request req) = Ok enc" "length enc \<le> maxPayload"
    and comp: "clCompression cl = CompressionMethodNone" and last: "clLastStreamID cl \<noteq> - 1"
    and server: "running c" "configured c" "fetchStream (clLastStreamID cl + 1) c = None"
    and r: "rflat r = drop (length (client_out cl)) (client_out cl')"
  obtains t c' r' ss cs where "serviceReads z ord r c = serviceReads z ord r' c'" "rflat r' = []"
    "fetchStream (clLastStreamID cl + 1) c' = Some t" "stream_chunks t = [enc]" "strID t = clLastStreamID cl + 1"
    "SendData (sstate t) = Ok ()" "c' = c\<lparr>streams := ss, calls := cs\<rparr>"
proof -
  let ?i = "clLastStreamID cl + 1"
  have nz: "?i \<noteq> 0" using last by (metis add.inverse_unique add.commute)
  obtain s1 cl1 where new: "co_NewStream (client_ops z) (s0, cl) = (Ok (), s1, cl1)"
    and out: "client_out cl' = client_out cl1 @ client_emit z (s1, cl1) enc True"
    using clsw.Call_send_Ok [OF send client_ops_sel(1)] small(1) req by auto
  from client_ops_NewStream [OF new] have s1: "s1 = NewStream ?i" and cl1: "client_NewStream z cl = (Ok ?i, cl1)"
    using client_NewStream_out(1) by blast+
  note n = client_NewStream_out [OF cl1]
  let ?d = "mkDataFrame ?i True True enc"
  have emit: "client_emit z (s1, cl1) enc True = frame_bytes (Data_IntoFrame ?d)"
    using client_emit_small [of cl1 enc z s1 True] n(4) comp small(2) by (simp add: s1 NewStream_def)
  have "client_ser z cl (makestream_frame ?i) = frame_bytes (makestream_frame ?i)"
    using makestream_frame_ok [OF nz] by (simp add: client_ser_def comp Bytes_frame_bytes frame_ok_def)
  then have flat: "rflat r = concat (map frame_bytes [makestream_frame ?i, Data_IntoFrame ?d]) @ []"
    using r out n(2) emit by simp
  obtain c1 where c1: "dispatchFrame z ord (makestream_frame ?i) c = (Ok (), c1)" "accepts chanCap ?i (NewStream ?i) c1"
    "c1 = c\<lparr>streams := AList.update ?i (NewStream ?i) (streams c), calls := calls c @ (if parent c then [ServiceStream ?i] else [])\<rparr>"
    using dispatch_makestream [OF server nz] by blast
  have ne: "enc \<noteq> []" using small(1) by (auto simp: wrapMessage_def bindO_eq_Ok_iff)
  have acc: "accepts (Suc 0) ?i (NewStream ?i) c1" using c1(2) by (auto simp: accepts_def chanCap_def)
  note d = small_data_frame [OF nz small(2), of True]
  obtain t c' where t: "dispatchFrame z ord (Data_IntoFrame ?d) c1 = (Ok (), c')" "running c'"
    "c' = c1\<lparr>streams := AList.update ?i t (streams c1)\<rparr>" "fetchStream ?i c' = Some t" "stream_chunks t = [enc]"
    "sstate t = streamState_CloseRemote streamState_zero" "strID t = ?i"
    using dispatch_data [OF acc d(1), of z ord] ne
    by (auto simp: NewStream_def NewBlockReader_def stream_chunks_def)
  have "dispatchAll z ord [makestream_frame ?i, Data_IntoFrame ?d] c = (Ok (), c')"
    using c1(1) t(1) server(1) c1(2) by (simp add: accepts_def)
  moreover have "\<forall>f\<in>set [makestream_frame ?i, Data_IntoFrame ?d]. frame_ok f" using makestream_frame_ok [OF nz] d(2) by simp
  ultimately obtain r' where "rflat r' = []" "serviceReads z ord r c = serviceReads z ord r' c'"
    using serviceReads_frames [OF flat] t(2) by blast
  moreover have "SendData (sstate t) = Ok ()" by (simp add: t(6) SendData_def streamState_CloseRemote_def streamState_zero_def)
  moreover have "c' = c\<lparr>streams := streams c', calls := calls c'\<rparr>" by (simp add: t(3) c1(3))
  ultimately show ?thesis using that t(4,5,7) by blast
qed

text \<open>The service reads from that stream the request message it was.\<close>

lemma delivered_request_arrives:
  assumes "Request_valid req" and "Request_norm inst \<Gamma> req = Ok req'" and "wrapMessage \<Gamma> (Request req) = Ok enc"
    and "length enc \<le> maxPayload" and "stream_chunks t = [enc]" and "stream_as rr t"
  shows "\<exists>rr'. request_arrives \<Gamma> inst req req' rr rr'"
proof -
  from assms(5,6) obtain cs where "rr = Base cs (stream_tail t)" "filter (\<lambda>c. c \<noteq> []) cs = [enc]" by (auto simp: stream_as_def)
  then have "prefix enc (rpeek rr)" using pending_hd [of cs enc "[]"] by auto
  then show ?thesis using assms by (auto simp: request_arrives_def maxEncoded_def maxPayload_def)
qed

lemma unary_call_arrives:
  assumes send: "Call_send \<Gamma> (client_ops z) cancelled svc meth opts (s0, cl) = (Ok (Some (req, target)), s, cl')"
    and req: "\<not> reqStreaming req" "Request_valid req" "Request_norm inst \<Gamma> req = Ok req'"
    and small: "wrapMessage \<Gamma> (Request req) = Ok enc" "length enc \<le> maxPayload"
    and comp: "clCompression cl = CompressionMethodNone" and last: "clLastStreamID cl \<noteq> - 1"
    and server: "running c" "configured c" "fetchStream (clLastStreamID cl + 1) c = None"
    and r: "rflat r = drop (length (client_out cl)) (client_out cl')"
  shows "\<exists>t c' r'. serviceReads z ord r c = serviceReads z ord r' c' \<and> rflat r' = [] \<and> fetchStream (clLastStreamID cl + 1) c' = Some t \<and>
    (\<forall>rr. stream_as rr t \<longrightarrow> (\<exists>rr'. request_arrives \<Gamma> inst req req' rr rr'))"
proof (rule unary_request_delivered [OF send req(1) small comp last server r])
  fix t c' r'
  assume "serviceReads z ord r c = serviceReads z ord r' c'" "rflat r' = []" "fetchStream (clLastStreamID cl + 1) c' = Some t"
    and "stream_chunks t = [enc]"
  with delivered_request_arrives [OF req(2,3) small] show ?thesis by blast
qed

section \<open>The way back\<close>

text \<open>A stream of the client that accepts one more block.\<close>

definition client_accepts :: "u32 \<Rightarrow> stream \<Rightarrow> client \<Rightarrow> bool" where
  "client_accepts i s c \<longleftrightarrow> clSetup c \<and> client_fetchStream i c = Some s \<and> i \<noteq> 0 \<and>
     RecvData (sstate s) = Ok () \<and> \<not> closed (sreader s) \<and> length (blocks (sreader s)) < chanCap"

lemma client_dispatch_data:
  assumes "client_accepts i s c" and "Data_valid d" and "dataStreamID d = i"
  shows "\<exists>s' c'. dispatch z (Data_IntoFrame d) c = (Ok (), c') \<and> client_fetchStream i c' = Some s' \<and>
    stream_chunks s' = stream_chunks s @ filter (\<lambda>c. c \<noteq> []) [dataPayload d]"
proof -
  from assms obtain s' where s': "stream_handleData (client_Write z) d (s, c) = (Ok (), s', c)"
    "stream_chunks s' = stream_chunks s @ filter (\<lambda>c. c \<noteq> []) [dataPayload d]"
    using stream_handleData_open [of s "client_Write z" d c] by (auto simp: client_accepts_def)
  let ?c = "c\<lparr>clStreams := AList.update i s' (clStreams c)\<rparr>"
  have "client_handleData z d c = (Ok (), ?c)"
    using assms s'(1) by (simp add: client_handleData_def client_accepts_def client_on_stream_def)
  then have "dispatch z (Data_IntoFrame d) c = (Ok (), ?c)"
    using data.from_into [OF assms(2)] assms(1) by (simp add: dispatch_def data.into_kind client_handleWith_def client_accepts_def)
  moreover have "client_fetchStream i ?c = Some s'" by (simp add: client_fetchStream_def update_conv')
  ultimately show ?thesis using s'(2) by blast
qed

lemma Conn_emit_small:
  assumes "compression c = CompressionMethodNone" and "length d \<le> maxPayload"
  shows "Conn_emit z (s, c) d e = frame_bytes (Data_IntoFrame (mkDataFrame (strID s) True e d))"
proof -
  have "frame_sized (Data_IntoFrame (mkDataFrame (strID s) True e d))"
    using assms(2) by (simp add: frame_sized_def Data_IntoFrame_def unat_of_nat_small maxPayload_def)
  with assms show ?thesis
    by (simp add: Conn_emit_def DataFramesFromBuffer_def Conn_ser_def Bytes_frame_bytes)
qed

text \<open>What the server writes to a stream in one piece arrives at the client's stream.\<close>

lemma server_data_arrives:
  assumes w: "stream_Write (Conn_Write z) d e (t, c) = (Ok (), t', c')" and comp: "compression c = CompressionMethodNone"
    and d: "d \<noteq> []" "length d \<le> maxPayload" and acc: "client_accepts (strID t) s cl"
    and q: "rflat q = drop (length (Conn_out c)) (Conn_out c')"
  shows "\<exists>s' cl' q'. client_serviceReads z q cl = client_serviceReads z q' cl' \<and> rflat q' = [] \<and>
    client_fetchStream (strID t) cl' = Some s' \<and> stream_chunks s' = stream_chunks s @ [d]"
proof -
  let ?d = "mkDataFrame (strID t) True e d"
  have nz: "strID t \<noteq> 0" using acc by (simp add: client_accepts_def)
  have "rflat q = frame_bytes (Data_IntoFrame ?d) @ []"
    using cnsw.wr_Ok [OF w] q Conn_emit_small [OF comp d(2)] by simp
  then obtain q' where q': "FrameReader_Read q = (Ok (Data_IntoFrame ?d), q')" "rflat q' = []"
    using framerd.dec_flat [OF small_data_frame(2) [OF nz d(2)]] by blast
  obtain s' cl' where "dispatch z (Data_IntoFrame ?d) cl = (Ok (), cl')" "client_fetchStream (strID t) cl' = Some s'"
    "stream_chunks s' = stream_chunks s @ [d]"
    using client_dispatch_data [OF acc small_data_frame(1) [OF nz d(2), of e], of z] d(1) by auto
  moreover then have "client_serviceReads z q cl = client_serviceReads z q' cl'"
    using q' by (simp add: client_serviceReads.simps [of z q])
  ultimately show ?thesis using q'(2) by blast
qed

text \<open>A call whose response arrives in one piece returns a context for it.\<close>

lemma Call_returns:
  assumes "Call_send \<Gamma> ops cancelled svc meth opts w = (Ok (Some (req, target)), w')"
    and "Response_valid resp" and "wrapMessage \<Gamma>' (Response resp) = Ok bs" and "Response_norm inst \<Gamma>' resp = Ok resp'"
    and "length bs \<le> maxEncoded" and "prefix bs (rpeek r)"
  shows "Call \<Gamma> inst ops cancelled svc meth opts (r, w) =
    (Ok (Some (callCtx req resp', if target then Some (respMetadata resp') else None)), rskip (length bs) r, w')"
proof -
  have "MessageTFromReader inst MessageKindResponse r = (Ok (Response resp'), rskip (length bs) r)"
    using wrapMessage_reads_back(2) [of "Response resp" \<Gamma>' bs inst "Response resp'"] assms by (auto simp: reads_back_def)
  with assms(1) show ?thesis by (simp add: Call_def)
qed

text \<open>A call whose context has ended by the time the request is sent returns neither a context nor an error.\<close>

lemma Call_cancelled:
  assumes "co_NewStream ops w = (Ok (), w0)"
    and "fold applyOption opts (\<lparr>Service = svc, Method = meth, reqStreaming = False, reqMetadata = [], reqParams = []\<rparr>, False) = (req, target)"
    and "wrapMessage \<Gamma> (Request req) = Ok enc" and "co_Write ops enc (\<not> reqStreaming req) w0 = (Ok (), w1)"
    and "returns (fst (co_Reset ops 0x06 w1))"
  shows "fst (Call \<Gamma> inst ops True svc meth opts (r, w)) = Ok None"
  using assms by (simp add: Call_def Call_send_def cancelErr_def ignoreErr_Ok bindR_fst_Ok case_prod_unfold)

text \<open>Both together: the response the server writes to the stream of the call is the response of the call's context.\<close>

lemma response_reaches_call:
  assumes send: "Call_send \<Gamma> ops cancelled svc meth opts w = (Ok (Some (req, target)), w')"
    and resp: "Response_valid resp" "wrapMessage \<Gamma>' (Response resp) = Ok bs" "Response_norm inst \<Gamma>' resp = Ok resp'"
    and wr: "stream_Write (Conn_Write z) bs e (t, c) = (Ok (), t', c')" and comp: "compression c = CompressionMethodNone"
    and len: "length bs \<le> maxPayload" and acc: "client_accepts (strID t) s cl" "stream_chunks s = []"
    and q: "rflat q = drop (length (Conn_out c)) (Conn_out c')"
  shows "\<exists>s' cl' q'. client_serviceReads z q cl = client_serviceReads z q' cl' \<and> rflat q' = [] \<and>
    client_fetchStream (strID t) cl' = Some s' \<and>
    (\<forall>r. stream_as r s' \<longrightarrow> fst (Call \<Gamma> inst ops cancelled svc meth opts (r, w)) =
      Ok (Some (callCtx req resp', if target then Some (respMetadata resp') else None)))"
proof -
  have ne: "bs \<noteq> []" using resp(2) by (auto simp: wrapMessage_def bindO_eq_Ok_iff)
  obtain s' cl' q' where s': "client_serviceReads z q cl = client_serviceReads z q' cl'" "rflat q' = []"
    "client_fetchStream (strID t) cl' = Some s'" "stream_chunks s' = [bs]"
    using server_data_arrives [OF wr comp ne len acc(1) q] acc(2) by auto
  have "fst (Call \<Gamma> inst ops cancelled svc meth opts (r, w)) =
      Ok (Some (callCtx req resp', if target then Some (respMetadata resp') else None))" if "stream_as r s'" for r
  proof -
    from that s'(4) obtain cs where "r = Base cs (stream_tail s')" "filter (\<lambda>c. c \<noteq> []) cs = [bs]" by (auto simp: stream_as_def)
    then have "prefix bs (rpeek r)" using pending_hd [of cs bs "[]"] by auto
    then show ?thesis using Call_returns [OF send resp] len by (simp add: maxEncoded_def maxPayload_def)
  qed
  with s' show ?thesis by blast
qed

section \<open>Streaming calls\<close>

text \<open>The stream of a streaming call is started by the call and again by the first value sent on its context.\<close>

lemma streaming_call_starts_twice:
  assumes send: "Call_send \<Gamma> (client_ops z) cancelled svc meth opts w = (Ok (Some (req, target)), w1)"
    and streaming: "reqStreaming req"
    and first: "Send \<Gamma> (stream_Write (client_Write z)) v (callCtx req resp, w1) = (Ok (), cx, w2)"
  shows "\<exists>w0 enc item. co_NewStream (client_ops z) w = (Ok (), w0) \<and> wrapMessage \<Gamma> (Request req) = Ok enc \<and>
    wrapMessage \<Gamma> (StreamItem v) = Ok item \<and>
    client_out (snd w2) = client_out (snd w0) @ client_emit z w0 enc False @ client_emit z w0 [MessageKindStartStream] False @
      client_emit z w0 [MessageKindStartStream] False @ client_emit z w0 item False"
proof -
  obtain w0 enc where w0: "co_NewStream (client_ops z) w = (Ok (), w0)" "wrapMessage \<Gamma> (Request req) = Ok enc"
    "client_out (snd w1) = client_out (snd w0) @ client_emit z w0 enc False @ client_emit z w0 [MessageKindStartStream] False"
    "client_emit z w1 = client_emit z w0"
    using clsw.Call_send_Ok [OF send client_ops_sel(1)] streaming by auto
  obtain item where "wrapMessage \<Gamma> (StreamItem v) = Ok item"
    "client_out (snd w2) = client_out (snd w1) @ client_emit z w1 [MessageKindStartStream] False @ client_emit z w1 item False"
    using clsw.Send_Ok [OF first] by (auto simp: callCtx_def)
  with w0 show ?thesis by auto
qed

end
