(* ===== verification/Arf_Rpc.thy ===== *)
theory Arf_Rpc
  imports Arf_Call
begin

text \<open>
  A whole unary call: \<^verbatim>\<open>Call\<close> on the client, \<^verbatim>\<open>ServiceStream\<close> on the server with a method that answers or returns an error, and the
  context that the client gets. The three parts are joined by the bytes that the two connections carry, in any chunks.
\<close>

section \<open>The stream on the server\<close>

text \<open>The operations of a stream of a server connection. An external identifier is a string.\<close>

definition conn_ops :: "flate \<Rightarrow> (stream \<times> Conn) streamOps" where
  "conn_ops z =
     \<lparr>op_Write = stream_Write (Conn_Write z), op_Reset = stream_Reset (Conn_Write z),
      op_SetExternalID = (\<lambda>x (s, c). (SetExternalID (map (char_of \<circ> unat) x) s, c))\<rparr>"

lemma conn_ops_sel [simp]:
  "op_Write (conn_ops z) = stream_Write (Conn_Write z)"
  "op_SetExternalID (conn_ops z) x (s, c) = (SetExternalID (map (char_of \<circ> unat) x) s, c)"
  by (simp_all add: conn_ops_def)

text \<open>A connection that works: it runs, has no error, sends without compression, and its writes do not fail.\<close>

definition healthy :: "Conn \<Rightarrow> bool" where
  "healthy c \<longleftrightarrow> running c \<and> configured c \<and> cerr c = None \<and> \<not> toWriteClosed c \<and> \<not> ioclosed (cio c) \<and> faultless (cio c) \<and>
     compression c = CompressionMethodNone"

lemma Conn_Write_works:
  assumes "healthy c" and "frame_sized f"
  shows "fst (Conn_Write z f c) = Ok ()"
proof -
  have d: "fst (Bytes z (compression c) f) = Ok (frame_bytes f)" using assms by (simp add: healthy_def Bytes_frame_bytes)
  have "fault (cio c) (writes (cio c)) = None" using assms(1) by (simp add: healthy_def faultless_def)
  then obtain io where "io_Write (frame_bytes f) (cio c) = (Ok (), io)" using assms(1) by (simp add: healthy_def io_Write_def)
  from Conn_Write_split [OF _ _ d this] assms(1) show ?thesis by (simp add: healthy_def)
qed

text \<open>So a message of at most one frame can be written to a stream that is open on this side.\<close>

lemma stream_Write_works:
  assumes "healthy c" and "SendData (sstate s) = Ok ()" and "length d \<le> maxPayload"
  shows "fst (stream_Write (Conn_Write z) d e (s, c)) = Ok ()"
proof -
  let ?f = "Data_IntoFrame (mkDataFrame (strID s) True e d)"
  have "frame_sized ?f" using assms(3) by (simp add: frame_sized_def Data_IntoFrame_def unat_of_nat_small maxPayload_def)
  then have "frame_sized (?f\<lparr>StreamID := strID s\<rparr>)" by (simp add: frame_sized_def)
  from Conn_Write_works [OF assms(1) this, of z] assms(2,3) show ?thesis
    by (auto simp: stream_Write_def DataFramesFromBuffer_def stream_write_def Let_def bindR_fst_Ok case_prod_unfold)
qed

section \<open>The stream on the client\<close>

text \<open>A write leaves everything of a client but its connection alone.\<close>

lemma client_Write_only_io: "client_write_frame c (snd (client_Write z f c))"
proof -
  have same: "\<exists>io. c = c\<lparr>clio := io\<rparr>" by (rule exI [of _ "clio c"]) simp
  show ?thesis
  proof (cases "fst (Bytes z (clCompression c) f)")
    case (Ok d)
    with same client_serviceWrite_state [OF Ok] show ?thesis
      by (auto simp: client_Write_def client_write_frame_def split: option.splits)
  qed (use same in \<open>auto simp: client_Write_def client_serviceWrite_def client_write_frame_def split: option.splits\<close>)
qed

interpretation clio: write_keeps "client_Write z" "client_write_frame c0" for z c0
proof
  fix c f
  assume "client_write_frame c0 c"
  then obtain io where "c = c0\<lparr>clio := io\<rparr>" by (auto simp: client_write_frame_def)
  with client_Write_only_io [of c z f] show "client_write_frame c0 (snd (client_Write z f c))"
    by (auto simp: client_write_frame_def)
qed

lemma client_NewStream_setup:
  assumes "client_NewStream z c = (Ok i, c')"
  shows "clSetup c' = clSetup c"
proof -
  let ?c = "c\<lparr>clLastStreamID := clLastStreamID c + 1\<rparr>"
  from assms obtain c2 where "client_Write z (makestream_frame i) ?c = (Ok (), c2)"
    "c' = c2\<lparr>clStreams := AList.update i (NewStream i) (clStreams c2)\<rparr>"
    by (auto simp: client_NewStream_def Let_def makestream_frame_def bindR_eq_Ok_iff split: option.splits)
  with client_Write_only_io [of ?c z "makestream_frame i"] show ?thesis by (auto simp: client_write_frame_def)
qed

text \<open>After the request of a unary call is sent, the stream of the call is in the table and takes a response.\<close>

lemma unary_call_accepts:
  assumes send: "Call_send \<Gamma> (client_ops z) cancelled svc meth opts (s0, cl) = (Ok (Some (req, target)), s, cl')"
    and req: "\<not> reqStreaming req" and ready: "clSetup cl" and last: "clLastStreamID cl \<noteq> - 1"
  shows "client_accepts (clLastStreamID cl + 1) (NewStream (clLastStreamID cl + 1)) cl'"
proof -
  let ?i = "clLastStreamID cl + 1"
  obtain s1 cl1 enc where new: "co_NewStream (client_ops z) (s0, cl) = (Ok (), s1, cl1)"
    and wr: "stream_Write (client_Write z) enc True (s1, cl1) = (Ok (), s, cl')"
    using clsw.Call_send_Ok [OF send client_ops_sel(1)] req by auto
  from client_ops_NewStream [OF new] have cl1: "client_NewStream z cl = (Ok ?i, cl1)"
    using client_NewStream_out(1) by blast
  have "client_write_frame cl1 cl1" by (auto simp: client_write_frame_def intro: exI [of _ "clio cl1"])
  from clio.stream_Write_keeps [OF this, of z enc True s1] wr have "client_write_frame cl1 cl'" by simp
  then obtain io where "cl' = cl1\<lparr>clio := io\<rparr>" by (auto simp: client_write_frame_def)
  moreover have "?i \<noteq> 0" using last by (metis add.inverse_unique add.commute)
  ultimately show ?thesis
    using client_NewStream_out(5) [OF cl1] client_NewStream_setup [OF cl1] ready
    by (simp add: client_accepts_def client_fetchStream_def NewStream_def NewBlockReader_def RecvData_def streamState_zero_def chanCap_def)
qed

section \<open>The method\<close>

text \<open>What a method does for a request: it answers with a status, metadata and parameters.\<close>

definition answers :: "tyenv \<Rightarrow> 'w streamWrite \<Rightarrow> 'w handler \<Rightarrow> request \<Rightarrow> response \<Rightarrow> bool" where
  "answers \<Gamma> wr f req resp \<longleftrightarrow> \<not> respStreaming resp \<and>
     (\<forall>r w. f (newCtx req, r, w) =
       (let (out, c, w) = SendResponse \<Gamma> wr (uint (respStatus resp)) (respParams resp) False (respMetadata resp) (newCtx req, w)
        in (out, c, r, w)))"

text \<open>Or it returns an error, without having written to the stream; it may have read from it.\<close>

definition fails_with :: "'w handler \<Rightarrow> request \<Rightarrow> goerr \<Rightarrow> bool" where
  "fails_with f req e \<longleftrightarrow> (\<forall>r w. \<exists>c r'. f (newCtx req, r, w) = (Fail e, c, r', w) \<and> \<not> sendStreamStarted c)"

text \<open>What both come to: for the request, the server writes exactly the bytes \<open>bs\<close> and ends the stream, if that write succeeds.\<close>

definition sends_back :: "tyenv \<Rightarrow> instantiate \<Rightarrow> (goerr \<Rightarrow> bytes) \<Rightarrow> 'w streamOps \<Rightarrow> 'w srv \<Rightarrow> 'w serviceAdapter \<Rightarrow> request \<Rightarrow> bytes \<Rightarrow> bool" where
  "sends_back \<Gamma> inst etext ops srv svc req bs \<longleftrightarrow> RespondsTo (Method req) svc \<and>
     (\<forall>r w w'. op_Write ops bs True w = (Ok (), w') \<longrightarrow>
       fst (ServiceStream_run \<Gamma> inst etext ops srv req svc r w) = Ok () \<and>
       snd (snd (snd (ServiceStream_run \<Gamma> inst etext ops srv req svc r w))) = w')"

lemma answers_sends_back:
  assumes "interceptors srv = []" and "map_of (Methods svc) (Method req) = Some f" and "answers \<Gamma> (op_Write ops) f req resp"
    and "wrapMessage \<Gamma> (Response resp) = Ok bs"
  shows "sends_back \<Gamma> inst etext ops srv svc req bs"
proof -
  have "\<lparr>respStatus = respStatus resp, respStreaming = False, respMetadata = respMetadata resp, respParams = respParams resp\<rparr> = resp"
    using assms(3) by (simp add: answers_def)
  with assms(4) have "\<exists>c. SendResponse \<Gamma> (op_Write ops) (uint (respStatus resp)) (respParams resp) False (respMetadata resp)
      (newCtx req, w) = (Ok (), c, w') \<and> hasSentResponse c" if "op_Write ops bs True w = (Ok (), w')" for w w'
    using that by (simp add: SendResponse_def)
  then have answer: "\<exists>c. f (newCtx req, r, w) = (Ok (), c, r, w') \<and> hasSentResponse c" if "op_Write ops bs True w = (Ok (), w')" for r w w'
    using that assms(3) by (fastforce simp: answers_def)
  have "fst (ServiceStream_run \<Gamma> inst etext ops srv req svc r w) = Ok () \<and>
      snd (snd (snd (ServiceStream_run \<Gamma> inst etext ops srv req svc r w))) = w'" if "op_Write ops bs True w = (Ok (), w')" for r w w'
    using answer [OF that, of r] assms(1,2)
    by (auto simp: ServiceStream_run_def chainInterceptors_def guardInvoke_def InvokeMethod_def)
  then show ?thesis using assms(2) by (simp add: sends_back_def RespondsTo_def)
qed

lemma fails_sends_back:
  assumes "interceptors srv = []" and "map_of (Methods svc) (Method req) = Some f" and "fails_with f req e"
    and "errorStatus etext e = (st, msg)" and "wrapMessage \<Gamma> (Response (statusResponse st msg)) = Ok bs"
  shows "sends_back \<Gamma> inst etext ops srv svc req bs"
  unfolding sends_back_def
proof (intro conjI allI impI)
  fix r w w'
  assume wr: "op_Write ops bs True w = (Ok (), w')"
  from assms(3) obtain c r' where c: "f (newCtx req, r, w) = (Fail e, c, r', w)" "\<not> sendStreamStarted c"
    unfolding fails_with_def by blast
  from run_error_response [OF assms(2) c assms(4,5,1), of inst ops] wr
  show "fst (ServiceStream_run \<Gamma> inst etext ops srv req svc r w) = Ok ()"
    and "snd (snd (snd (ServiceStream_run \<Gamma> inst etext ops srv req svc r w))) = w'"
    by (simp_all add: write_or_reset_def)
qed (use assms(2) in \<open>simp add: RespondsTo_def\<close>)

section \<open>The whole call\<close>

text \<open>The server's part: the stream of the call is serviced and the response is sent.\<close>

lemma call_serviced:
  assumes req: "Request_valid req" "Request_norm inst \<Gamma> req = Ok req'" "wrapMessage \<Gamma> (Request req) = Ok enc" "length enc \<le> maxPayload"
    and t: "stream_chunks t = [enc]" "stream_as rr t" "SendData (sstate t) = Ok ()" and c: "healthy c"
    and srv: "logger srv" "map_of (services srv) (Service req') = Some svc" "sends_back \<Gamma> inst etext (conn_ops z) srv svc req' bs"
    and bs: "length bs \<le> maxPayload"
  obtains t0 t' c' srv' where "arf_ServiceStream \<Gamma> inst etext (conn_ops z) (Ok i) rr ((t, c), srv) = (Ok (), (t', c'), srv')"
    "stream_Write (Conn_Write z) bs True (t0, c) = (Ok (), t', c')" "strID t0 = strID t"
proof -
  obtain rr' where "request_arrives \<Gamma> inst req req' rr rr'" using delivered_request_arrives [OF req t(1,2)] by blast
  note read = request_arrivesD [OF this]
  define t0 where "t0 = SetExternalID (map (char_of \<circ> unat) i) t"
  have t0: "SendData (sstate t0) = Ok ()" "strID t0 = strID t" using t(3) by (simp_all add: t0_def SetExternalID_def)
  obtain t' c' where w: "stream_Write (Conn_Write z) bs True (t0, c) = (Ok (), t', c')"
    using stream_Write_works [OF c t0(1) bs, of z True] by (metis prod.exhaust_sel)
  have "RespondsTo (Method req') svc" using srv(3) by (simp add: sends_back_def)
  note run = ServiceStream_runs [OF srv(1) read srv(2) this, of \<Gamma> etext "conn_ops z" i "(t, c)"]
  have "arf_ServiceStream \<Gamma> inst etext (conn_ops z) (Ok i) rr ((t, c), srv) =
      (Ok (), (t', c'), snd (snd (arf_ServiceStream \<Gamma> inst etext (conn_ops z) (Ok i) rr ((t, c), srv))))"
    using run srv(3) w by (simp add: prod_eq_iff t0_def sends_back_def)
  with w t0(2) show ?thesis using that by blast
qed

lemma unary_call_returns:
  assumes send: "Call_send \<Gamma> (client_ops z) cancelled svcName meth opts (s0, cl) = (Ok (Some (req, target)), s, cl')"
    and req: "\<not> reqStreaming req" "Request_valid req" "Request_norm inst \<Gamma> req = Ok req'" "wrapMessage \<Gamma> (Request req) = Ok enc" "length enc \<le> maxPayload"
    and client: "clCompression cl = CompressionMethodNone" "clLastStreamID cl \<noteq> - 1" "clSetup cl"
    and server: "healthy c" "fetchStream (clLastStreamID cl + 1) c = None"
    and srv: "logger srv" "map_of (services srv) (Service req') = Some svc" "sends_back \<Gamma> inst etext (conn_ops z) srv svc req' bs"
    and resp: "Response_valid resp" "wrapMessage \<Gamma> (Response resp) = Ok bs" "length bs \<le> maxPayload" "Response_norm inst \<Gamma> resp = Ok resp'"
    and r: "rflat r = drop (length (client_out cl)) (client_out cl')"
  shows "\<exists>c1 r1 t. serviceReads z ord r c = serviceReads z ord r1 c1 \<and> rflat r1 = [] \<and> fetchStream (clLastStreamID cl + 1) c1 = Some t \<and>
    (\<forall>rr i. stream_as rr t \<longrightarrow> (\<exists>t2 c2 srv2.
      arf_ServiceStream \<Gamma> inst etext (conn_ops z) (Ok i) rr ((t, c1), srv) = (Ok (), (t2, c2), srv2) \<and>
      (\<forall>q. rflat q = drop (length (Conn_out c1)) (Conn_out c2) \<longrightarrow> (\<exists>s2 cl2 q2.
        client_serviceReads z q cl' = client_serviceReads z q2 cl2 \<and> rflat q2 = [] \<and>
        client_fetchStream (clLastStreamID cl + 1) cl2 = Some s2 \<and>
        (\<forall>rc. stream_as rc s2 \<longrightarrow> fst (Call \<Gamma> inst (client_ops z) cancelled svcName meth opts (rc, s0, cl)) =
          Ok (Some (callCtx req resp', if target then Some (respMetadata resp') else None)))))))"
proof (rule unary_request_delivered [OF send req(1,4,5) client(1,2) _ _ server(2) r])
  fix t c1 r1 ss cs
  assume arr: "serviceReads z ord r c = serviceReads z ord r1 c1" "rflat r1 = []" "fetchStream (clLastStreamID cl + 1) c1 = Some t"
    and t: "stream_chunks t = [enc]" "strID t = clLastStreamID cl + 1" "SendData (sstate t) = Ok ()" and c1: "c1 = c\<lparr>streams := ss, calls := cs\<rparr>"
  have h: "healthy c1" using server(1) by (simp add: c1 healthy_def)
  have "\<exists>t2 c2 srv2. arf_ServiceStream \<Gamma> inst etext (conn_ops z) (Ok i) rr ((t, c1), srv) = (Ok (), (t2, c2), srv2) \<and>
      (\<forall>q. rflat q = drop (length (Conn_out c1)) (Conn_out c2) \<longrightarrow> (\<exists>s2 cl2 q2.
        client_serviceReads z q cl' = client_serviceReads z q2 cl2 \<and> rflat q2 = [] \<and>
        client_fetchStream (clLastStreamID cl + 1) cl2 = Some s2 \<and>
        (\<forall>rc. stream_as rc s2 \<longrightarrow> fst (Call \<Gamma> inst (client_ops z) cancelled svcName meth opts (rc, s0, cl)) =
          Ok (Some (callCtx req resp', if target then Some (respMetadata resp') else None)))))"
    if rr: "stream_as rr t" for rr i
  proof (rule call_serviced [OF req(2-5) t(1) rr t(3) h srv resp(3), of i])
    fix t0 t2 c2 srv2
    assume run: "arf_ServiceStream \<Gamma> inst etext (conn_ops z) (Ok i) rr ((t, c1), srv) = (Ok (), (t2, c2), srv2)"
      and w: "stream_Write (Conn_Write z) bs True (t0, c1) = (Ok (), t2, c2)" and t0: "strID t0 = strID t"
    have acc: "client_accepts (strID t0) (NewStream (clLastStreamID cl + 1)) cl'"
      using unary_call_accepts [OF send req(1) client(3,2)] t(2) t0 by simp
    have "stream_chunks (NewStream (clLastStreamID cl + 1)) = []" by (simp add: stream_chunks_def NewStream_def NewBlockReader_def)
    from response_reaches_call [OF send resp(1,2,4) w _ resp(3) acc this] h t0 t(2) run show ?thesis
      by (auto simp: healthy_def)
  qed
  with arr show ?thesis by blast
qed (use server(1) in \<open>simp_all add: healthy_def\<close>)

text \<open>The response with a status arrives as it was built.\<close>

lemma wrap_statusResponse_long:
  "wrapMessage \<Gamma> (Response (statusResponse st msg)) = Ok bs \<Longrightarrow> length msg \<le> length bs"
  by (auto simp: wrapMessage_def statusResponse_def Response_Encode_def encodeParams_def Metadata_Encode_def EncodeBytes_def)

lemma statusResponse_arrives:
  assumes "wrapMessage \<Gamma> (Response (statusResponse st msg)) = Ok bs" and "length bs \<le> maxPayload"
  shows "Response_valid (statusResponse st msg)" and "Response_norm inst \<Gamma> (statusResponse st msg) = Ok (statusResponse st msg)"
  using wrap_statusResponse_long [OF assms(1)] assms(2)
  by (simp_all add: Response_valid_def metadata_ok_def Response_norm_def canonParams_def statusResponse_def maxAlloc_def maxPayload_def ascii_def)

end
