(* ===== verification/Error_Text.thy ===== *)
theory Error_Text
  imports Wire_Client Rpc_Message
begin

text \<open>
  The texts of the errors of packages \<^verbatim>\<open>wire\<close> (\<^verbatim>\<open>src/wire/error.go\<close>, \<^verbatim>\<open>src/wire/frame_reader.go\<close>), \<^verbatim>\<open>rpc\<close>
  (\<^verbatim>\<open>src/rpc/errors.go\<close>, \<^verbatim>\<open>src/rpc/structs.go\<close>) and \<^verbatim>\<open>status\<close> (\<^verbatim>\<open>src/status/status.go\<close>). A server sends the text of an
  error that carries no status to the client.
\<close>

definition FrameTypeMismatchError_Error :: "frameKind \<Rightarrow> frameKind \<Rightarrow> string" where
  "FrameTypeMismatchError_Error expected received =
     ''frame type mismatch: expected '' @ FrameKind_String expected @ '', got '' @ FrameKind_String received"

definition UnexpectedUnassociatedFrameError_Error :: "frameKind \<Rightarrow> string" where
  "UnexpectedUnassociatedFrameError_Error k = ''frame '' @ FrameKind_String k @ '' must be associated to a stream''"

definition UnexpectedAssociatedFrameError_Error :: "frameKind \<Rightarrow> string" where
  "UnexpectedAssociatedFrameError_Error k = ''frame '' @ FrameKind_String k @ '' must not be associated to a stream''"

definition UnknownFrameKindError_Error :: "u8 \<Rightarrow> string" where
  "UnknownFrameKindError_Error k = ''FrameReader: unknown frame kind 0x'' @ hex02 (unat k)"

text \<open>\<^verbatim>\<open>%02x\<close> of an \<^verbatim>\<open>ErrorCode\<close>: the type has a \<^verbatim>\<open>String\<close> method and \<^verbatim>\<open>%x\<close> is a verb for strings, so \<^verbatim>\<open>fmt\<close> calls the method
  and prints the bytes of its result in hexadecimal.\<close>

definition hexString :: "string \<Rightarrow> string" where
  "hexString s = concat (map (\<lambda>c. hex02 (of_char c)) s)"

definition StreamResetError_Error :: "errorCode \<Rightarrow> string" where
  "StreamResetError_Error reason =
     (case map_of errorToString reason of
        None \<Rightarrow> ''stream reset: unknown error code '' @ hexString (ErrorCode_String reason)
      | Some desc \<Rightarrow> ''stream reset: '' @ desc)"

definition StreamCanceledError_Error :: "errorCode \<Rightarrow> string" where
  "StreamCanceledError_Error reason =
     (case map_of errorToString reason of
        None \<Rightarrow> ''stream canceled: unknown error code '' @ hexString (ErrorCode_String reason)
      | Some desc \<Rightarrow> ''stream canceled: '' @ desc)"

definition ConnectionResetError_Error :: "errorCode \<Rightarrow> string \<Rightarrow> string" where
  "ConnectionResetError_Error reason details =
     (if length details > 0 then ''connection reset: '' @ ErrorCode_String reason @ '': '' @ details
      else ''connection reset: '' @ ErrorCode_String reason)"

definition MessageKindMismatchError_Error :: "messageKind \<Rightarrow> messageKind \<Rightarrow> string" where
  "MessageKindMismatchError_Error expected received =
     ''expected kind '' @ MessageKind_String expected @ '' but got '' @ MessageKind_String received"

definition NoStreamError_Error :: "bool \<Rightarrow> string" where
  "NoStreamError_Error recv = (if recv then ''no incoming stream from server'' else ''no outgoing stream to server'')"

definition StreamEndError_Error :: string where
  "StreamEndError_Error = ''stream has ended''"

definition StreamFailure_Error :: "string \<Rightarrow> string" where
  "StreamFailure_Error msg = ''stream failed: '' @ msg"

definition StreamError_Error :: "u16 \<Rightarrow> string" where
  "StreamError_Error st = ''stream error: status='' @ show_int (uint st)"

definition BadStatus_Error :: "int \<Rightarrow> bytes \<Rightarrow> bytes" where
  "BadStatus_Error st msg = ascii (''BadStatus: '' @ show_int st @ '' ('' @ Status_Error st @ ''): '') @ msg"

text \<open>\<^verbatim>\<open>err.Error()\<close>: \<open>other\<close> gives the texts of the errors of other packages and of the errors made with \<^verbatim>\<open>fmt.Errorf\<close>.\<close>

fun Error_text :: "(goerr \<Rightarrow> bytes) \<Rightarrow> goerr \<Rightarrow> bytes" where
  "Error_text other (FrameTypeMismatchError e r) = ascii (FrameTypeMismatchError_Error e r)"
| "Error_text other (UnexpectedUnassociatedFrameError k) = ascii (UnexpectedUnassociatedFrameError_Error k)"
| "Error_text other (UnexpectedAssociatedFrameError k) = ascii (UnexpectedAssociatedFrameError_Error k)"
| "Error_text other (InvalidFrameLengthError msg) = ascii msg"
| "Error_text other (InvalidFrameError msg) = ascii msg"
| "Error_text other (UnknownFrameKindError k) = ascii (UnknownFrameKindError_Error k)"
| "Error_text other ClosedStreamErr = ascii ''stream is closed''"
| "Error_text other (StreamResetError reason) = ascii (StreamResetError_Error reason)"
| "Error_text other (ConnectionResetError reason details) = ascii (ConnectionResetError_Error reason details)"
| "Error_text other (MessageKindMismatchError e r) = ascii (MessageKindMismatchError_Error e r)"
| "Error_text other (NoStreamError recv) = ascii (NoStreamError_Error recv)"
| "Error_text other StreamEndError = ascii StreamEndError_Error"
| "Error_text other (StreamFailure msg) = ascii (StreamFailure_Error msg)"
| "Error_text other (StreamErrorMsg st m) = ascii (StreamError_Error st)"
| "Error_text other (BadStatus st msg) = BadStatus_Error st msg"
| "Error_text other (StatusError st) = ascii (Status_Error st)"
| "Error_text other (StatusPtr st) = ascii (Status_Error st)"
| "Error_text other e = other e"

text \<open>An unknown code is not shown as a number: the text holds the hexadecimal form of its description.\<close>

lemma StreamResetError_unknown:
  "StreamResetError_Error 10 = ''stream reset: unknown error code 756e6b6e6f776e206572726f722030783061''"
  by code_simp

text \<open>The text of a reset tells its reason: known codes have distinct texts, and none of them is the text of an unknown
  one.\<close>

lemma errorToString_distinct: "distinct (map snd errorToString)"
  by (simp add: errorToString_def)

lemma map_of_inj:
  "distinct (map snd xs) \<Longrightarrow> map_of xs a = Some v \<Longrightarrow> map_of xs b = Some v \<Longrightarrow> a = b"
  by (induction xs) (auto split: if_splits dest!: map_of_SomeD intro: rev_image_eqI)

lemma StreamResetError_known_inj:
  assumes "map_of errorToString a \<noteq> None" and "map_of errorToString b \<noteq> None"
    and "StreamResetError_Error a = StreamResetError_Error b"
  shows "a = b"
  using assms map_of_inj [OF errorToString_distinct] by (auto simp: StreamResetError_Error_def)

end
