(* ===== verification/Arf_Host.thy ===== *)
theory Arf_Host
  imports Arf_Rpc Wire_Server Error_Text
begin

text \<open>
  The server of package \<^verbatim>\<open>arf\<close> around its handler (\<^verbatim>\<open>src/server.go\<close>): its options, the generator of request identifiers, listening,
  and the wire server it delegates to. The host name, the random bytes and the listener come from the operating system and
  are arguments.
\<close>

section \<open>Request identifiers\<close>

text \<open>A generator; its argument is what the random source delivers to this call.\<close>

type_synonym IDGenerator = "bytes outcome \<Rightarrow> bytes outcome"

text \<open>\<^verbatim>\<open>hex.EncodeToString\<close>\<close>

definition hexEncode :: "bytes \<Rightarrow> string" where
  "hexEncode b = concat (map (\<lambda>x. hex02 (unat x)) b)"

definition pseudoUUIDGen :: "bytes outcome \<Rightarrow> IDGenerator outcome" where
  "pseudoUUIDGen hostname =
     bindO hostname (\<lambda>host. Ok (\<lambda>random. bindO random (\<lambda>b. Ok (host @ ascii ''-'' @ ascii (hexEncode b)))))"

lemma hexdigits_two: "n < 256 \<Longrightarrow> hex02 n = [''0123456789abcdef'' ! (n div 16), ''0123456789abcdef'' ! (n mod 16)]"
  by (auto simp: hex02_def hexdigits.simps [of n] hexdigits.simps [of "n div 16"])

lemma hexdigit_inj: "i < 16 \<Longrightarrow> j < 16 \<Longrightarrow> ''0123456789abcdef'' ! i = ''0123456789abcdef'' ! j \<Longrightarrow> i = j"
  by (subst nth_eq_iff_index_eq [of "''0123456789abcdef''", symmetric]) simp_all

lemma hex02_inj: "m < 256 \<Longrightarrow> n < 256 \<Longrightarrow> hex02 m = hex02 n \<Longrightarrow> m = n"
proof -
  assume mn: "m < 256" "n < 256" "hex02 m = hex02 n"
  then have "m div 16 = n div 16" "m mod 16 = n mod 16"
    using hexdigit_inj [of "m div 16" "n div 16"] hexdigit_inj [of "m mod 16" "n mod 16"] by (simp_all add: hexdigits_two)
  then show "m = n" by (metis div_mult_mod_eq)
qed

lemma unat_u8_less: "unat (x :: u8) < 256"
  using unsigned_less [of x] by simp

lemma hexEncode_inj: "hexEncode a = hexEncode b \<Longrightarrow> a = b"
proof (induction a arbitrary: b)
  case Nil
  then show ?case by (cases b) (simp_all add: hexEncode_def hexdigits_two [OF unat_u8_less])
next
  case (Cons x a)
  then obtain y c where b: "b = y # c" by (cases b) (simp_all add: hexEncode_def hexdigits_two [OF unat_u8_less])
  have len: "length (hex02 (unat x)) = length (hex02 (unat y))" by (simp add: hexdigits_two [OF unat_u8_less])
  have "hex02 (unat x) @ hexEncode a = hex02 (unat y) @ hexEncode c" using Cons.prems by (simp add: b hexEncode_def)
  with len have "hex02 (unat x) = hex02 (unat y)" "hexEncode a = hexEncode c" by simp_all
  with Cons.IH hex02_inj [OF unat_u8_less unat_u8_less, of x y] show ?case by (simp add: b word_unat_eq_iff)
qed

lemma of_char_u8: "unat (of_char c :: u8) = of_char c"
proof -
  have "(of_char c :: u8) = of_nat (of_char c)" by (simp add: of_char_def)
  moreover have "(of_char c :: nat) < 256" using of_char_of [of "of_char c :: nat"] by (metis char_of_char mod_less_divisor zero_less_numeral)
  ultimately show ?thesis by (simp add: unat_of_nat take_bit_eq_mod)
qed

lemma ascii_inj: "ascii a = ascii b \<Longrightarrow> a = b"
proof -
  assume "ascii a = ascii b"
  then have "map unat (ascii a) = map unat (ascii b)" by simp
  then have "map (of_char :: char \<Rightarrow> nat) a = map of_char b" by (simp add: ascii_def o_def of_char_u8)
  moreover have "inj (of_char :: char \<Rightarrow> nat)" by (rule injI) simp
  ultimately show "a = b" using inj_map_eq_map by blast
qed

text \<open>Streams whose random bytes differ get different identifiers, so their entries in the tables of the server do not clash.\<close>

lemma pseudoUUID_distinct:
  assumes "pseudoUUIDGen host = Ok gen" and "gen (Ok a) = Ok i" and "gen (Ok b) = Ok i"
  shows "a = b"
proof -
  from assms have "ascii (hexEncode a) = ascii (hexEncode b)" by (auto simp: pseudoUUIDGen_def bindO_eq_Ok_iff)
  then show ?thesis using ascii_inj hexEncode_inj by blast
qed

section \<open>The server\<close>

record serverOptions =
  optMaxConcurrentStreams :: u32
  optLogger :: bool
  optIDGenerator :: "IDGenerator option"

record 'w arfServer =
  arfHandler :: "'w srv"
  wireServer :: Server
  idGenerator :: IDGenerator

text \<open>\<^verbatim>\<open>NewServer\<close>: the generator of the options, or the default one, which needs the host name.\<close>

definition NewServerWith :: "bytes outcome \<Rightarrow> serverOptions \<Rightarrow> 'w arfServer outcome" where
  "NewServerWith hostname opts =
     bindO (case optIDGenerator opts of Some g \<Rightarrow> Ok g | None \<Rightarrow> pseudoUUIDGen hostname) (\<lambda>g.
       Ok \<lparr>arfHandler = arf_NewServer (optLogger opts), wireServer = NewServer, idGenerator = g\<rparr>)"

definition NewServerListen :: "(string \<Rightarrow> unit outcome) \<Rightarrow> bytes outcome \<Rightarrow> string \<Rightarrow> serverOptions \<Rightarrow> 'w arfServer outcome" where
  "NewServerListen net_Listen hostname addr opts = bindO (net_Listen addr) (\<lambda>_. NewServerWith hostname opts)"

definition srv_Serve :: "netio outcome list \<Rightarrow> 'w arfServer \<Rightarrow> unit outcome \<times> 'w arfServer" where
  "srv_Serve results s = (let (out, w) = Serve results (wireServer s) in (out, s\<lparr>wireServer := w\<rparr>))"

definition srv_Shutdown :: "flate \<Rightarrow> (nat list \<Rightarrow> nat list) \<Rightarrow> 'w arfServer \<Rightarrow> unit outcome \<times> 'w arfServer" where
  "srv_Shutdown z ord s = (let (out, w) = Shutdown z ord (wireServer s) in (out, s\<lparr>wireServer := w\<rparr>))"

text \<open>\<^verbatim>\<open>ServiceStream\<close> with the generator of the server.\<close>

definition srv_ServiceStream ::
  "tyenv \<Rightarrow> instantiate \<Rightarrow> (goerr \<Rightarrow> bytes) \<Rightarrow> 'w streamOps \<Rightarrow> bytes outcome \<Rightarrow> reader \<Rightarrow> 'w \<times> 'w arfServer \<Rightarrow> unit outcome \<times> 'w \<times> 'w arfServer" where
  "srv_ServiceStream \<Gamma> inst etext ops random r ws =
     (let (w, s) = ws;
          (out, w, h) = arf_ServiceStream \<Gamma> inst etext ops (idGenerator s random) r (w, arfHandler s)
      in (out, w, s\<lparr>arfHandler := h\<rparr>))"

section \<open>Contexts of streams\<close>

text \<open>Servicing a request for a registered method leaves a context under the identifier of the stream, whatever the method does, and
  leaves the contexts of other streams alone.\<close>

lemma ServiceStream_context:
  assumes "logger (arfHandler s)" and "idGenerator s random = Ok i"
    and "MessageTFromReader inst MessageKindRequest r = (Ok (Request req), r')"
    and "map_of (services (arfHandler s)) (Service req) = Some svc" and "RespondsTo (Method req) svc"
    and "srv_ServiceStream \<Gamma> inst etext ops random r (w, s) = (out, w', s')"
  shows "map_of (streamContext (arfHandler s')) i = Some None \<and> i \<in> set (srvStreams (arfHandler s')) \<and>
    (\<forall>j. j \<noteq> i \<longrightarrow> map_of (streamContext (arfHandler s')) j = map_of (streamContext (arfHandler s)) j)"
  using assms by (auto simp: srv_ServiceStream_def arf_ServiceStream_def Let_def update_conv' split: prod.splits)

text \<open>Cancelling sets the cause of that stream, once.\<close>

lemma CancelStream_context:
  assumes "map_of (streamContext h) i = Some None"
  shows "map_of (streamContext (CancelStream i h)) i = Some (Some StreamCanceledErr)"
    and "CancelStream i (CancelStream i h) = CancelStream i h"
    and "j \<noteq> i \<Longrightarrow> map_of (streamContext (CancelStream i h)) j = map_of (streamContext h) j"
  using assms by (simp_all add: CancelStream_def update_conv')

text \<open>A server made without a generator in its options, on a host that has a name, is ready: nothing is registered, its wire server has
  no connections, and streams with different random bytes get different identifiers.\<close>

lemma NewServerWith_ready:
  assumes "optIDGenerator opts = None" and "NewServerWith (Ok host) opts = Ok s"
  shows "services (arfHandler s) = [] \<and> streamContext (arfHandler s) = [] \<and> server_inv (wireServer s) \<and>
    (\<forall>a b i. idGenerator s (Ok a) = Ok i \<longrightarrow> idGenerator s (Ok b) = Ok i \<longrightarrow> a = b)"
proof -
  from assms obtain gen where gen: "pseudoUUIDGen (Ok host) = Ok gen"
    and s: "s = \<lparr>arfHandler = arf_NewServer (optLogger opts), wireServer = NewServer, idGenerator = gen\<rparr>"
    by (auto simp: NewServerWith_def bindO_eq_Ok_iff)
  with pseudoUUID_distinct [OF gen] NewServer_inv show ?thesis by (simp add: arf_NewServer_def)
qed

end
