(* ===== verification/Arf_Dial.thy ===== *)
theory Arf_Dial
  imports Wire_Session
begin

text \<open>
  Dialing (\<^verbatim>\<open>src/client.go\<close>): the options, the choice of the dialer, and the handshake that every client starts with. The two
  dialers of the standard library are arguments; their results are the connection.
\<close>

datatype clientOption = WithTLSConfig string

primrec applyClientOption :: "clientOption \<Rightarrow> string option \<Rightarrow> string option" where
  "applyClientOption (WithTLSConfig cfg) tlsConfig = Some cfg"

text \<open>\<^verbatim>\<open>Dial\<close> up to the wait of \<^verbatim>\<open>Configure\<close>, which ends when \<open>waitForHello\<close> does.\<close>

definition Dial :: "flate \<Rightarrow> (string \<Rightarrow> string \<Rightarrow> netio outcome) \<Rightarrow> (string \<Rightarrow> netio outcome) \<Rightarrow> string \<Rightarrow> clientOption list \<Rightarrow> client outcome" where
  "Dial z tls_Dial net_Dial addr opts =
     bindO (case fold applyClientOption opts None of Some cfg \<Rightarrow> tls_Dial addr cfg | None \<Rightarrow> net_Dial addr) (\<lambda>conn.
       let (out, c) = Configure_send z CompressionMethodNone (NewClient conn) in bindO out (\<lambda>_. Ok c))"

text \<open>\<^verbatim>\<open>Close\<close> closes the wire client.\<close>

definition arf_Close :: "client \<Rightarrow> unit outcome \<times> client" where
  "arf_Close c = client_Close c"

text \<open>The last option counts; without one the connection is plain.\<close>

lemma Dial_dialer:
  "Dial z tls_Dial net_Dial addr [] = Dial z any net_Dial addr []"
  "Dial z tls_Dial net_Dial addr (opts @ [WithTLSConfig cfg]) = Dial z tls_Dial any' addr [WithTLSConfig cfg]"
  by (simp_all add: Dial_def)

text \<open>A dialed client has announced itself without compression, so the handshake that fails with it is never used.\<close>

lemma Dial_announces:
  assumes "Dial z tls_Dial net_Dial addr opts = Ok c"
    and "\<And>a cfg io. tls_Dial a cfg = Ok io \<Longrightarrow> fresh_io io" and "\<And>a io. net_Dial a = Ok io \<Longrightarrow> fresh_io io"
  shows "client_out c = frame_bytes (hello_frame False False) \<and> clCompression c = CompressionMethodNone \<and> \<not> clSetup c"
proof -
  from assms obtain io where io: "fresh_io io" "Configure_send z CompressionMethodNone (NewClient io) = (Ok (), c)"
    by (fastforce simp: Dial_def bindO_eq_Ok_iff Let_def case_prod_unfold prod_eq_iff split: option.splits)
  from Configure_send_fresh [OF io(1), of z CompressionMethodNone] io(2)
  have out: "client_out c = frame_bytes (hello_frame False False)" and c: "c = (NewClient io)\<lparr>clio := clio c\<rparr>" by auto
  from arg_cong [OF c, of clCompression] arg_cong [OF c, of clSetup] out show ?thesis by (simp add: NewClient_def)
qed

end
