(* ===== verification/Stringer.thy ===== *)
theory Stringer
  imports Error_Text
begin

text \<open>
  The generated \<^verbatim>\<open>String\<close> methods (\<^verbatim>\<open>src/proto/type_identifiers_string.go\<close>, \<^verbatim>\<open>src/wire/compression_string.go\<close>): all names in one
  string, cut by a table of indices. Slicing out of range panics.
\<close>

section \<open>Slices of a string\<close>

text \<open>\<^verbatim>\<open>name[lo:hi]\<close>\<close>

definition slice :: "'a list \<Rightarrow> nat \<Rightarrow> nat \<Rightarrow> 'a list outcome" where
  "slice s lo hi =
     (if lo \<le> hi \<and> hi \<le> length s then Ok (take (hi - lo) (drop lo s)) else Panic ''slice bounds out of range'')"

text \<open>A table that starts with 0, rises, and ends with the length of the string cuts it into consecutive names.\<close>

definition cuts :: "nat list \<Rightarrow> 'a list \<Rightarrow> bool" where
  "cuts idx s \<longleftrightarrow> idx \<noteq> [] \<and> hd idx = 0 \<and> sorted idx \<and> last idx = length s"

lemma slice_of_cut:
  assumes "cuts idx s" and "Suc i < length idx"
  shows "slice s (idx ! i) (idx ! Suc i) = Ok (take (idx ! Suc i - idx ! i) (drop (idx ! i) s))"
proof -
  have "idx ! i \<le> idx ! Suc i" using assms by (auto simp: cuts_def sorted_iff_nth_mono)
  moreover have "idx ! Suc i \<le> length s"
    using assms sorted_nth_mono [of idx "Suc i" "length idx - 1"] last_conv_nth [of idx] by (auto simp: cuts_def)
  ultimately show ?thesis by (simp add: slice_def)
qed

section \<open>The two methods\<close>

definition PrimitiveType_name :: string where
  "PrimitiveType_name = ''TypeVoidTypeScalarTypeBooleanTypeFloatTypeStringTypeBytesTypeArrayTypeMapTypeStruct''"

definition PrimitiveType_index :: "nat list" where
  "PrimitiveType_index = [0, 8, 18, 29, 38, 48, 57, 66, 73, 83]"

definition PrimitiveType_String :: "u8 \<Rightarrow> string outcome" where
  "PrimitiveType_String i =
     (if unat i \<ge> length PrimitiveType_index - 1 then Ok (''PrimitiveType('' @ show_int (uint i) @ '')'')
      else slice PrimitiveType_name (PrimitiveType_index ! unat i) (PrimitiveType_index ! (unat i + 1)))"

definition CompressionMethod_name :: string where
  "CompressionMethod_name = ''CompressionMethodNoneCompressionMethodGzip''"

definition CompressionMethod_index :: "nat list" where
  "CompressionMethod_index = [0, 21, 42]"

definition CompressionMethod_String :: "compressionMethod \<Rightarrow> string outcome" where
  "CompressionMethod_String i =
     (if i < 0 \<or> i \<ge> int (length CompressionMethod_index) - 1 then Ok (''CompressionMethod('' @ show_int i @ '')'')
      else slice CompressionMethod_name (CompressionMethod_index ! nat i) (CompressionMethod_index ! (nat i + 1)))"

text \<open>Both tables fit their strings, so neither method panics, whatever the number.\<close>

lemma tables_cut: "cuts PrimitiveType_index PrimitiveType_name" "cuts CompressionMethod_index CompressionMethod_name"
  by (simp_all add: cuts_def PrimitiveType_index_def PrimitiveType_name_def CompressionMethod_index_def CompressionMethod_name_def)

lemma String_total: "is_Ok (PrimitiveType_String i)" "is_Ok (CompressionMethod_String j)"
proof -
  show "is_Ok (PrimitiveType_String i)"
    using slice_of_cut [OF tables_cut(1), of "unat i"] by (auto simp: PrimitiveType_String_def PrimitiveType_index_def)
  have "Suc (nat j) < length CompressionMethod_index" if "\<not> (j < 0 \<or> j \<ge> int (length CompressionMethod_index) - 1)"
    using that by (simp add: CompressionMethod_index_def nat_less_iff numeral_2_eq_2 [symmetric])
  then show "is_Ok (CompressionMethod_String j)"
    using slice_of_cut [OF tables_cut(2), of "nat j"] by (auto simp: CompressionMethod_String_def)
qed

text \<open>The names are those of the constants.\<close>

lemma PrimitiveType_String_names:
  "map PrimitiveType_String [TypeVoid, TypeScalar, TypeBoolean, TypeFloat, TypeString, TypeBytes, TypeArray, TypeMap, TypeStruct] =
     map Ok [''TypeVoid'', ''TypeScalar'', ''TypeBoolean'', ''TypeFloat'', ''TypeString'', ''TypeBytes'', ''TypeArray'', ''TypeMap'', ''TypeStruct'']"
  by code_simp

lemma CompressionMethod_String_names:
  "map CompressionMethod_String [CompressionMethodNone, CompressionMethodGzip] = map Ok [''CompressionMethodNone'', ''CompressionMethodGzip'']"
  by code_simp

end
