(* ===== verification/Go_Reflect.thy ===== *)
theory Go_Reflect
  imports Proto_Value
begin

text \<open>
  The part of package \<^verbatim>\<open>reflect\<close> that struct.go uses to fill a message: dynamic types, conversion
  (\<^verbatim>\<open>ConvertibleTo\<close>, \<^verbatim>\<open>Convert\<close>), assignment (\<^verbatim>\<open>Set\<close>), zero values, and the numeric and text conversions of the
  language they rest on. Float conversions are those of IEEE 754 hardware; the result of converting a float to an
  integer type that cannot hold it is left to the machine, so it is an argument, like the method sets of the
  application's types.
\<close>

record goruntime =
  implementsIface :: "string \<Rightarrow> gotype \<Rightarrow> bool"
  floatToInt :: "u64 \<Rightarrow> u64"
  floatToUint :: "u64 \<Rightarrow> u64"

section \<open>Types of values\<close>

text \<open>\<open>TNamed\<close> is for declared scalars, strings, slices, arrays and maps; a declared struct type is a \<open>TStruct\<close>.\<close>

fun named :: "tyname \<Rightarrow> gotype \<Rightarrow> gotype" where
  "named None t = t"
| "named (Some n) t = TNamed n t"

fun tname :: "gotype \<Rightarrow> tyname" where
  "tname (TNamed n t) = Some n"
| "tname t = None"

fun type_underlying :: "gotype \<Rightarrow> gotype" where
  "type_underlying (TNamed n t) = type_underlying t"
| "type_underlying t = t"

text \<open>\<^verbatim>\<open>Type.Elem\<close> and \<^verbatim>\<open>Type.Key\<close>, on the kinds that have them.\<close>

definition elem_type :: "gotype \<Rightarrow> gotype" where
  "elem_type t = (case type_underlying t of TSlice e \<Rightarrow> e | TArray n e \<Rightarrow> e | TPtr e \<Rightarrow> e | TMap k e \<Rightarrow> e | e \<Rightarrow> e)"

definition key_type :: "gotype \<Rightarrow> gotype" where
  "key_type t = (case type_underlying t of TMap k e \<Rightarrow> k | e \<Rightarrow> e)"

definition struct_name :: "gotype \<Rightarrow> string" where
  "struct_name t = (case type_underlying t of TStruct n \<Rightarrow> n | _ \<Rightarrow> [])"

definition encodedMapType :: gotype where
  "encodedMapType = TStruct ''proto.encodedMap''"

text \<open>\<^verbatim>\<open>reflect.TypeOf\<close>; \<open>None\<close> is the type of \<^verbatim>\<open>nil\<close>, whose \<^verbatim>\<open>reflect.Value\<close> is the zero Value.\<close>

fun type_of :: "goval \<Rightarrow> gotype option" where
  "type_of VNil = None"
| "type_of (VBool n b) = Some (named n TBool)"
| "type_of (VInt n x) = Some (named n TInt)"
| "type_of (VInt8 n x) = Some (named n TInt8)"
| "type_of (VInt16 n x) = Some (named n TInt16)"
| "type_of (VInt32 n x) = Some (named n TInt32)"
| "type_of (VInt64 n x) = Some (named n TInt64)"
| "type_of (VUint n x) = Some (named n TUint)"
| "type_of (VUint8 n x) = Some (named n TUint8)"
| "type_of (VUint16 n x) = Some (named n TUint16)"
| "type_of (VUint32 n x) = Some (named n TUint32)"
| "type_of (VUint64 n x) = Some (named n TUint64)"
| "type_of (VFloat32 n x) = Some (named n TFloat32)"
| "type_of (VFloat64 n x) = Some (named n TFloat64)"
| "type_of (VString n s) = Some (named n TString)"
| "type_of (VBytes b) = Some (TSlice TUint8)"
| "type_of (VSlice n t vs) = Some (named n (TSlice t))"
| "type_of (VArray n t vs) = Some (named n (TArray (length vs) t))"
| "type_of (VMap n k v kvs) = Some (named n (TMap k v))"
| "type_of (VPtr t v) = Some (TPtr t)"
| "type_of (VStruct n vs) = Some (TStruct n)"
| "type_of (VEncodedMap ks vs) = Some (TPtr encodedMapType)"
| "type_of (VOther t) = Some t"

section \<open>Numbers\<close>

text \<open>Division by a power of two, rounded to the nearest number, to the even one in the middle.\<close>

definition rne :: "nat \<Rightarrow> nat \<Rightarrow> nat" where
  "rne n k =
     (let q = n div 2 ^ k; r = n mod 2 ^ k in
      if 2 * r > 2 ^ k \<or> (2 * r = 2 ^ k \<and> odd q) then q + 1 else q)"

text \<open>\<^verbatim>\<open>float64(n)\<close>; a mantissa that is rounded up to the next power of two carries into the exponent.\<close>

definition nat_to_f64 :: "nat \<Rightarrow> u64" where
  "nat_to_f64 n =
     (if n = 0 then 0
      else let t = topbit n in
        if t \<le> 52 then f64_pack 0 (t + 1023) ((n - 2 ^ t) * 2 ^ (52 - t))
        else f64_pack 0 (t + 1023) (rne n (t - 52) - 2 ^ 52))"

definition int_to_f64 :: "int \<Rightarrow> u64" where
  "int_to_f64 i = (if i < 0 then 0x8000000000000000 OR nat_to_f64 (nat (- i)) else nat_to_f64 (nat i))"

text \<open>\<^verbatim>\<open>float32(x)\<close> of a float64.\<close>

definition f32_pack :: "nat \<Rightarrow> nat \<Rightarrow> nat \<Rightarrow> u32" where
  "f32_pack s e m = of_nat (s * 2 ^ 31 + e * 2 ^ 23 + m)"

definition f64to32 :: "u64 \<Rightarrow> u32" where
  "f64to32 x =
     (let s = f64_sign x; e = f64_exp x; m = f64_frac x in
      if e = 2047 then
        (if m = 0 then f32_pack s 255 0
         else f32_pack s 255 (if m < 2 ^ 51 then m div 2 ^ 29 + 2 ^ 22 else m div 2 ^ 29))
      else if e \<ge> 1151 then f32_pack s 255 0
      else if e \<ge> 897 then f32_pack s (e - 896) (rne (2 ^ 52 + m) 29 - 2 ^ 23)
      else if e = 0 then f32_pack s 0 0
      else f32_pack s 0 (rne (2 ^ 52 + m) (926 - e)))"

text \<open>The whole part of the magnitude of a finite float64.\<close>

definition f64_trunc :: "u64 \<Rightarrow> nat" where
  "f64_trunc x = f64_units x div 2 ^ 1074"

definition f64_to_uint64 :: "goruntime \<Rightarrow> u64 \<Rightarrow> u64" where
  "f64_to_uint64 rt x =
     (if f64_exp x \<noteq> 2047 \<and> f64_trunc x < 2 ^ 64 \<and> (f64_sign x = 0 \<or> f64_trunc x = 0) then of_nat (f64_trunc x)
      else floatToUint rt x)"

definition f64_to_int64 :: "goruntime \<Rightarrow> u64 \<Rightarrow> u64" where
  "f64_to_int64 rt x =
     (if f64_exp x \<noteq> 2047 \<and> f64_sign x = 0 \<and> f64_trunc x < 2 ^ 63 then of_nat (f64_trunc x)
      else if f64_exp x \<noteq> 2047 \<and> f64_sign x = 1 \<and> f64_trunc x \<le> 2 ^ 63 then - of_nat (f64_trunc x)
      else floatToInt rt x)"

section \<open>Text\<close>

text \<open>\<^verbatim>\<open>string(rune)\<close>: UTF-8, with U+FFFD for what is not a code point.\<close>

definition runeError :: int where
  "runeError = 0xfffd"

definition EncodeRune :: "int \<Rightarrow> bytes" where
  "EncodeRune i =
     (let c = (if i < 0 \<or> i > 0x10ffff \<or> (0xd800 \<le> i \<and> i \<le> 0xdfff) then runeError else i) in
      map word_of_int
        (if c < 0x80 then [c]
         else if c < 0x800 then [0xc0 + c div 64, 0x80 + c mod 64]
         else if c < 0x10000 then [0xe0 + c div 4096, 0x80 + c div 64 mod 64, 0x80 + c mod 64]
         else [0xf0 + c div 262144, 0x80 + c div 4096 mod 64, 0x80 + c div 64 mod 64, 0x80 + c mod 64]))"

text \<open>\<^verbatim>\<open>[]rune(s)\<close>: a byte that does not start a well-formed sequence gives U+FFFD and is skipped.\<close>

definition continues :: "int \<Rightarrow> int \<Rightarrow> int \<Rightarrow> bool" where
  "continues lo hi b \<longleftrightarrow> lo \<le> b \<and> b \<le> hi"

definition DecodeRune :: "int \<Rightarrow> int list \<Rightarrow> int \<times> nat" where
  "DecodeRune a bs =
     (if a < 0x80 then (a, 0)
      else if 0xc2 \<le> a \<and> a \<le> 0xdf then
        (case bs of b # _ \<Rightarrow> if continues 0x80 0xbf b then (a mod 32 * 64 + b mod 64, 1) else (runeError, 0)
         | _ \<Rightarrow> (runeError, 0))
      else if 0xe0 \<le> a \<and> a \<le> 0xef then
        (case bs of b # c # _ \<Rightarrow>
           if continues (if a = 0xe0 then 0xa0 else 0x80) (if a = 0xed then 0x9f else 0xbf) b \<and> continues 0x80 0xbf c
           then (a mod 16 * 4096 + b mod 64 * 64 + c mod 64, 2) else (runeError, 0)
         | _ \<Rightarrow> (runeError, 0))
      else if 0xf0 \<le> a \<and> a \<le> 0xf4 then
        (case bs of b # c # d # _ \<Rightarrow>
           if continues (if a = 0xf0 then 0x90 else 0x80) (if a = 0xf4 then 0x8f else 0xbf) b \<and>
              continues 0x80 0xbf c \<and> continues 0x80 0xbf d
           then (a mod 8 * 262144 + b mod 64 * 4096 + c mod 64 * 64 + d mod 64, 3) else (runeError, 0)
         | _ \<Rightarrow> (runeError, 0))
      else (runeError, 0))"

fun runes :: "int list \<Rightarrow> int list" where
  "runes [] = []"
| "runes (a # bs) = (let (c, k) = DecodeRune a bs in c # runes (drop k bs))"

section \<open>Building values\<close>

fun byte_of :: "goval \<Rightarrow> u8" where
  "byte_of (VUint8 n b) = b"
| "byte_of v = 0"

definition mk_slice :: "gotype \<Rightarrow> goval list \<Rightarrow> goval" where
  "mk_slice t vs = (if t = TSlice TUint8 then VBytes (map byte_of vs) else VSlice (tname t) (elem_type t) vs)"

fun slice_items :: "goval \<Rightarrow> goval list" where
  "slice_items (VBytes b) = map (VUint8 None) b"
| "slice_items (VSlice n t vs) = vs"
| "slice_items v = []"

text \<open>The bits of an integer as reflect's \<^verbatim>\<open>makeInt\<close> takes them, and its value.\<close>

fun int_bits :: "goval \<Rightarrow> u64" where
  "int_bits (VInt n x) = x"
| "int_bits (VInt8 n x) = scast x"
| "int_bits (VInt16 n x) = scast x"
| "int_bits (VInt32 n x) = scast x"
| "int_bits (VInt64 n x) = x"
| "int_bits (VUint n x) = x"
| "int_bits (VUint8 n x) = ucast x"
| "int_bits (VUint16 n x) = ucast x"
| "int_bits (VUint32 n x) = ucast x"
| "int_bits (VUint64 n x) = x"
| "int_bits v = 0"

definition is_int_kind :: "kind \<Rightarrow> bool" where
  "is_int_kind k \<longleftrightarrow> k \<in> {KInt, KInt8, KInt16, KInt32, KInt64}"

definition is_uint_kind :: "kind \<Rightarrow> bool" where
  "is_uint_kind k \<longleftrightarrow> k \<in> {KUint, KUint8, KUint16, KUint32, KUint64}"

definition is_float_kind :: "kind \<Rightarrow> bool" where
  "is_float_kind k \<longleftrightarrow> k \<in> {KFloat32, KFloat64}"

definition mk_int :: "gotype \<Rightarrow> u64 \<Rightarrow> goval" where
  "mk_int t x =
     (case kind_of t of
        KInt \<Rightarrow> VInt (tname t) x | KInt8 \<Rightarrow> VInt8 (tname t) (ucast x) | KInt16 \<Rightarrow> VInt16 (tname t) (ucast x)
      | KInt32 \<Rightarrow> VInt32 (tname t) (ucast x) | KInt64 \<Rightarrow> VInt64 (tname t) x
      | KUint \<Rightarrow> VUint (tname t) x | KUint8 \<Rightarrow> VUint8 (tname t) (ucast x) | KUint16 \<Rightarrow> VUint16 (tname t) (ucast x)
      | KUint32 \<Rightarrow> VUint32 (tname t) (ucast x) | _ \<Rightarrow> VUint64 (tname t) x)"

definition mk_float :: "gotype \<Rightarrow> u64 \<Rightarrow> goval" where
  "mk_float t x = (case kind_of t of KFloat32 \<Rightarrow> VFloat32 (tname t) (f64to32 x) | _ \<Rightarrow> VFloat64 (tname t) x)"

fun float_bits :: "goval \<Rightarrow> u64" where
  "float_bits (VFloat32 n x) = f32to64 x"
| "float_bits (VFloat64 n x) = x"
| "float_bits v = 0"

text \<open>The same value at another type with the same underlying type.\<close>

fun retag :: "gotype \<Rightarrow> goval \<Rightarrow> goval" where
  "retag t (VBool n b) = VBool (tname t) b"
| "retag t (VInt n x) = VInt (tname t) x"
| "retag t (VInt8 n x) = VInt8 (tname t) x"
| "retag t (VInt16 n x) = VInt16 (tname t) x"
| "retag t (VInt32 n x) = VInt32 (tname t) x"
| "retag t (VInt64 n x) = VInt64 (tname t) x"
| "retag t (VUint n x) = VUint (tname t) x"
| "retag t (VUint8 n x) = VUint8 (tname t) x"
| "retag t (VUint16 n x) = VUint16 (tname t) x"
| "retag t (VUint32 n x) = VUint32 (tname t) x"
| "retag t (VUint64 n x) = VUint64 (tname t) x"
| "retag t (VFloat32 n x) = VFloat32 (tname t) x"
| "retag t (VFloat64 n x) = VFloat64 (tname t) x"
| "retag t (VString n s) = VString (tname t) s"
| "retag t (VBytes b) = mk_slice t (map (VUint8 None) b)"
| "retag t (VSlice n e vs) = mk_slice t vs"
| "retag t (VArray n e vs) = VArray (tname t) e vs"
| "retag t (VMap n k v kvs) = VMap (tname t) k v kvs"
| "retag t (VPtr e v) = VPtr (elem_type t) (map_option (retag (elem_type t)) v)"
| "retag t (VStruct n vs) = VStruct (struct_name t) vs"
| "retag t v = v"

section \<open>Conversion\<close>

text \<open>Two struct types have the same underlying type when their fields agree in order, name and type; tags do not
  matter. The name of an unexported field is qualified by its package, that of an embedded one marked as such, so
  no type of the application is like \<^verbatim>\<open>encodedMap\<close>.\<close>

fun same_struct :: "tyenv \<Rightarrow> gotype \<Rightarrow> gotype \<Rightarrow> bool" where
  "same_struct \<Gamma> (TStruct n) (TStruct m) =
     (TStruct n \<noteq> encodedMapType \<and> TStruct m \<noteq> encodedMapType \<and>
      map (\<lambda>f. (fname f, exported f, ftype f)) (sfields (\<Gamma> n)) = map (\<lambda>f. (fname f, exported f, ftype f)) (sfields (\<Gamma> m)))"
| "same_struct \<Gamma> t u = False"

definition same_underlying :: "tyenv \<Rightarrow> gotype \<Rightarrow> gotype \<Rightarrow> bool" where
  "same_underlying \<Gamma> t u \<longleftrightarrow>
     type_underlying t = type_underlying u \<or> same_struct \<Gamma> (type_underlying t) (type_underlying u)"

definition implements :: "goruntime \<Rightarrow> gotype \<Rightarrow> gotype \<Rightarrow> bool" where
  "implements rt t src = (case type_underlying t of TInterface n b \<Rightarrow> TInterface n b = TAny \<or> implementsIface rt n src | _ \<Rightarrow> False)"

text \<open>\<^verbatim>\<open>src.ConvertibleTo(dst)\<close>, the rules in the order of reflect.\<close>

definition text_slice :: "gotype \<Rightarrow> bool" where
  "text_slice t \<longleftrightarrow> kind_of t = KSlice \<and> (elem_type t = TUint8 \<or> elem_type t = TInt32)"

definition convertibleTo :: "goruntime \<Rightarrow> tyenv \<Rightarrow> gotype \<Rightarrow> gotype \<Rightarrow> bool" where
  "convertibleTo rt \<Gamma> src dst \<longleftrightarrow>
     (let s = kind_of src; d = kind_of dst in
      (is_int_kind s \<or> is_uint_kind s) \<and> (is_int_kind d \<or> is_uint_kind d \<or> is_float_kind d \<or> d = KString)
      \<or> is_float_kind s \<and> (is_int_kind d \<or> is_uint_kind d \<or> is_float_kind d)
      \<or> s = KString \<and> text_slice dst
      \<or> d = KString \<and> text_slice src
      \<or> s = KSlice \<and> d = KPtr \<and> kind_of (elem_type dst) = KArray \<and> elem_type src = elem_type (elem_type dst)
      \<or> s = KSlice \<and> d = KArray \<and> elem_type src = elem_type dst
      \<or> same_underlying \<Gamma> dst src
      \<or> d = KPtr \<and> s = KPtr \<and> tname dst = None \<and> tname src = None \<and> same_underlying \<Gamma> (elem_type dst) (elem_type src)
      \<or> implements rt dst src)"

text \<open>A slice converted to an array, or to a pointer to one: the slice must be long enough.\<close>

definition slice_to_array :: "gotype \<Rightarrow> goval \<Rightarrow> goval outcome" where
  "slice_to_array t v =
     (case type_underlying t of
        TArray n e \<Rightarrow>
          if length (slice_items v) < n then Panic ''reflect: cannot convert slice to array: too short''
          else Ok (VArray (tname t) e (take n (slice_items v)))
      | _ \<Rightarrow> Panic ''unreachable'')"

definition convert :: "goruntime \<Rightarrow> tyenv \<Rightarrow> goval \<Rightarrow> gotype \<Rightarrow> goval outcome" where
  "convert rt \<Gamma> v dst =
     (case type_of v of
        None \<Rightarrow> Panic ''reflect: call of reflect.Value.Type on zero Value''
      | Some src \<Rightarrow>
          let s = kind_of src; d = kind_of dst in
          if \<not> convertibleTo rt \<Gamma> src dst then Panic ''reflect.Value.Convert: value cannot be converted''
          else if is_int_kind s \<or> is_uint_kind s then
            if is_int_kind d \<or> is_uint_kind d then Ok (mk_int dst (int_bits v))
            else if is_float_kind d then
              Ok (mk_float dst (int_to_f64 (if is_int_kind s then sint (int_bits v) else uint (int_bits v))))
            else if d = KString then
              Ok (VString (tname dst) (EncodeRune (if is_int_kind s then sint (int_bits v) else uint (int_bits v))))
            else Ok v
          else if is_float_kind s then
            if is_int_kind d then Ok (mk_int dst (f64_to_int64 rt (float_bits v)))
            else if is_uint_kind d then Ok (mk_int dst (f64_to_uint64 rt (float_bits v)))
            else if s = KFloat32 \<and> d = KFloat32 then Ok (retag dst v)
            else if is_float_kind d then Ok (mk_float dst (float_bits v))
            else Ok v
          else if s = KString \<and> text_slice dst then
            (case v of
               VString n bs \<Rightarrow>
                 Ok (mk_slice dst (if elem_type dst = TUint8 then map (VUint8 None) bs
                                   else map (\<lambda>c. VInt32 None (word_of_int c)) (runes (map uint bs))))
             | _ \<Rightarrow> Panic ''unreachable'')
          else if d = KString \<and> text_slice src then
            Ok (VString (tname dst)
              (if elem_type src = TUint8 then map byte_of (slice_items v)
               else concat (map (\<lambda>c. EncodeRune (sint (int_bits c))) (slice_items v))))
          else if s = KSlice \<and> d = KPtr \<and> kind_of (elem_type dst) = KArray \<and> elem_type src = elem_type (elem_type dst) then
            bindO (slice_to_array (elem_type dst) v) (\<lambda>a. Ok (VPtr (elem_type dst) (Some a)))
          else if s = KSlice \<and> d = KArray \<and> elem_type src = elem_type dst then slice_to_array dst v
          else if d = KInterface then Ok v
          else Ok (retag dst v))"

section \<open>Assignment\<close>

definition has_name :: "gotype \<Rightarrow> bool" where
  "has_name t = (case t of TSlice _ \<Rightarrow> False | TArray _ _ \<Rightarrow> False | TMap _ _ \<Rightarrow> False | TPtr _ \<Rightarrow> False | _ \<Rightarrow> True)"

text \<open>\<^verbatim>\<open>Value.Set\<close> and the assignments in \<^verbatim>\<open>SetMapIndex\<close>: the value as a variable of type \<open>t\<close> holds it.\<close>

definition assign :: "goruntime \<Rightarrow> gotype \<Rightarrow> goval \<Rightarrow> goval outcome" where
  "assign rt t v =
     (case type_of v of
        None \<Rightarrow> Panic ''reflect: call of reflect.Value.Set on zero Value''
      | Some src \<Rightarrow>
          if src = t \<or> (\<not> (has_name t \<and> has_name src) \<and> type_underlying t = type_underlying src) then Ok (retag t v)
          else if implements rt t src then Ok v
          else Panic ''reflect.Set: value is not assignable to type'')"

section \<open>Zero values\<close>

definition zero_flat :: "gotype \<Rightarrow> goval" where
  "zero_flat t =
     (case type_underlying t of
        TBool \<Rightarrow> VBool (tname t) False
      | TFloat32 \<Rightarrow> VFloat32 (tname t) 0
      | TFloat64 \<Rightarrow> VFloat64 (tname t) 0
      | TString \<Rightarrow> VString (tname t) []
      | TSlice e \<Rightarrow> mk_slice t []
      | TMap k e \<Rightarrow> VMap (tname t) k e []
      | TPtr e \<Rightarrow> VPtr e None
      | TInterface n b \<Rightarrow> VNil
      | TOther k \<Rightarrow> VOther t
      | _ \<Rightarrow> mk_int t 0)"

text \<open>The zero values of a list of types. Go rejects struct types that contain themselves, on which there would be no
  end; the declarations are arbitrary here, so the function is partial.\<close>

partial_function (option) zeros :: "tyenv \<Rightarrow> gotype list \<Rightarrow> goval list option" where
  "zeros \<Gamma> ts =
     (case ts of
        [] \<Rightarrow> Some []
      | t # us \<Rightarrow>
          Option.bind
            (case type_underlying t of
               TStruct n \<Rightarrow> Option.bind (zeros \<Gamma> (map ftype (sfields (\<Gamma> n)))) (\<lambda>vs. Some (VStruct n vs))
             | TArray k e \<Rightarrow> Option.bind (zeros \<Gamma> [e]) (\<lambda>vs. Some (VArray (tname t) e (replicate k (hd vs))))
             | _ \<Rightarrow> Some (zero_flat t))
            (\<lambda>v. Option.bind (zeros \<Gamma> us) (\<lambda>vs. Some (v # vs))))"

declare zeros.simps [code]

section \<open>Facts\<close>

lemma rne_exact: "rne (n * 2 ^ k) k = n"
  by (simp add: rne_def)

lemma unat_f32_parts: "unat x = f32_sign x * 2 ^ 31 + f32_exp x * 2 ^ 23 + f32_frac x"
proof -
  let ?q = "unat x div 2 ^ 23"
  have "unat x div 2 ^ 31 = ?q div 2 ^ 8" by (simp add: div_mult2_eq [symmetric])
  then have "f32_sign x * 2 ^ 31 + f32_exp x * 2 ^ 23 = ?q div 2 ^ 8 * (2 ^ 8 * 2 ^ 23) + ?q mod 2 ^ 8 * 2 ^ 23"
    by (simp add: f32_sign_def f32_exp_def)
  also have "\<dots> = (?q div 2 ^ 8 * 2 ^ 8 + ?q mod 2 ^ 8) * 2 ^ 23" by (simp only: distrib_right mult.assoc)
  finally show ?thesis by (simp only: div_mult_mod_eq f32_frac_def)
qed

lemma f32_pack_parts: "f32_pack (f32_sign x) (f32_exp x) (f32_frac x) = x"
  unfolding f32_pack_def unat_f32_parts [symmetric] by simp

lemma f64to32_pack:
  assumes "s < 2" "e < 2048" "m < 2 ^ 52"
  shows "f64to32 (f64_pack s e m) =
     (if e = 2047 then
        (if m = 0 then f32_pack s 255 0
         else f32_pack s 255 (if m < 2 ^ 51 then m div 2 ^ 29 + 2 ^ 22 else m div 2 ^ 29))
      else if e \<ge> 1151 then f32_pack s 255 0
      else if e \<ge> 897 then f32_pack s (e - 896) (rne (2 ^ 52 + m) 29 - 2 ^ 23)
      else if e = 0 then f32_pack s 0 0
      else f32_pack s 0 (rne (2 ^ 52 + m) (926 - e)))"
  unfolding f64to32_def Let_def f64_pack_fields [OF assms] by (rule refl)

text \<open>Converting a float32 to float64 and back gives the number; a NaN may become quiet.\<close>

lemma f64to32_f32to64:
  assumes nan: "\<not> (f32_exp x = 255 \<and> f32_frac x \<noteq> 0)"
  shows "f64to32 (f32to64 x) = x"
proof -
  define s e m where "s = f32_sign x" and "e = f32_exp x" and "m = f32_frac x"
  have b: "s < 2" "e < 256" "m < 2 ^ 23" using f32_bounds [of x] by (simp_all add: s_def e_def m_def)
  have x: "f32_pack s e m = x" unfolding s_def e_def m_def by (rule f32_pack_parts)
  consider "e = 255" "m = 0" | "e = 0" "m = 0" | "e = 0" "m \<noteq> 0" | "0 < e" "e < 255"
    using nan b(2) unfolding e_def m_def by linarith
  then show ?thesis
  proof cases
    case 1
    then have "f32to64 x = f64_pack s 2047 0" by (simp add: f32to64_def Let_def s_def e_def m_def)
    with 1 b show ?thesis by (simp add: f64to32_pack x [symmetric])
  next
    case 2
    then have "f32to64 x = f64_pack s 0 0" by (simp add: f32to64_def Let_def s_def e_def m_def)
    with 2 b show ?thesis by (simp add: f64to32_pack x [symmetric])
  next
    case 3
    let ?t = "topbit m"
    have t: "2 ^ ?t \<le> m" "m < 2 ^ Suc ?t" using topbit_bounds [of m] 3(2) by auto
    with b(3) have "2 ^ ?t < (2 :: nat) ^ 23" by linarith
    then have t23: "?t < 23" by (rule power_less_imp_less_exp [rotated]) simp
    have p: "(2 :: nat) ^ ?t * 2 ^ (52 - ?t) = 2 ^ 52" using t23 by (simp flip: power_add)
    have "m - 2 ^ ?t < 2 ^ ?t" using t by simp
    then have "(m - 2 ^ ?t) * 2 ^ (52 - ?t) < 2 ^ ?t * 2 ^ (52 - ?t)" by simp
    then have m52: "(m - 2 ^ ?t) * 2 ^ (52 - ?t) < 2 ^ 52" unfolding p .
    have "2 ^ 52 + (m - 2 ^ ?t) * 2 ^ (52 - ?t) = m * 2 ^ (52 - ?t)"
      unfolding p [symmetric] using t(1) by (simp add: diff_mult_distrib)
    then have "rne (2 ^ 52 + (m - 2 ^ ?t) * 2 ^ (52 - ?t)) (926 - (?t + 874)) = m"
      using rne_exact [of m "52 - ?t"] by simp
    moreover have "f32to64 x = f64_pack s (?t + 874) ((m - 2 ^ ?t) * 2 ^ (52 - ?t))"
      using 3 by (simp add: f32to64_def Let_def s_def e_def m_def)
    ultimately show ?thesis using x 3(1) t23 b m52 by (simp add: f64to32_pack)
  next
    case 4
    have "rne (2 ^ 52 + m * 2 ^ 29) 29 = 2 ^ 23 + m"
      using rne_exact [of "2 ^ 23 + m" 29] by (simp add: distrib_right)
    moreover have "f32to64 x = f64_pack s (e + 896) (m * 2 ^ 29)"
      using 4 by (simp add: f32to64_def Let_def s_def e_def m_def)
    moreover have "m * 2 ^ 29 < 2 ^ 52" using b(3) by simp
    ultimately show ?thesis using 4 b by (simp add: f64to32_pack x)
  qed
qed

lemma zeros_Nil [simp]: "zeros \<Gamma> [] = Some []"
  by (simp add: zeros.simps)

lemma zeros_Cons: "zeros \<Gamma> (t # ts) = Option.bind (zeros \<Gamma> [t]) (\<lambda>v. map_option ((#) (hd v)) (zeros \<Gamma> ts))"
  by (subst (1 2) zeros.simps) (auto simp: map_option_case split: gotype.split option.split bind_split)

fun by_value :: "gotype \<Rightarrow> string option" where
  "by_value (TStruct n) = Some n"
| "by_value (TArray k t) = by_value t"
| "by_value (TNamed n t) = by_value t"
| "by_value t = None"

definition types_finite :: "(string \<Rightarrow> nat) \<Rightarrow> tyenv \<Rightarrow> bool" where
  "types_finite rank \<Gamma> \<longleftrightarrow>
     (\<forall>n f m. f \<in> set (sfields (\<Gamma> n)) \<longrightarrow> by_value (ftype f) = Some m \<longrightarrow> rank m < rank n)"

lemma by_value_underlying: "by_value (type_underlying t) = by_value t"
  by (induction t) auto

lemma zeros_list: "(\<And>t. t \<in> set ts \<Longrightarrow> \<exists>v. zeros \<Gamma> [t] = Some [v]) \<Longrightarrow> \<exists>vs. zeros \<Gamma> ts = Some vs \<and> length vs = length ts"
proof (induction ts)
  case (Cons t ts)
  then obtain v vs where "zeros \<Gamma> [t] = Some [v]" "zeros \<Gamma> ts = Some vs" "length vs = length ts" by fastforce
  then show ?case by (simp add: zeros_Cons [of _ t ts])
qed simp

lemma zeros_step:
  assumes "\<And>n. by_value t = Some n \<Longrightarrow> \<exists>vs. zeros \<Gamma> (map ftype (sfields (\<Gamma> n))) = Some vs"
  shows "\<exists>v. zeros \<Gamma> [t] = Some [v]"
  using assms
proof (induction "size t" arbitrary: t rule: less_induct)
  case less
  show ?case
  proof (cases "type_underlying t")
    case (TStruct n)
    then show ?thesis using less.prems [of n] by_value_underlying [of t] by (subst zeros.simps) auto
  next
    case (TArray k e)
    moreover have "size (type_underlying t) \<le> size t" by (induction t) auto
    ultimately have "\<exists>v. zeros \<Gamma> [e] = Some [v]"
      using less by_value_underlying [of t] by (intro less.hyps) auto
    then show ?thesis using TArray by (subst zeros.simps) auto
  qed (subst zeros.simps; simp)+
qed

text \<open>With such a ranking, which exists for the declarations that Go accepts, every type has a zero value.\<close>

lemma zeros_total:
  assumes "types_finite rank \<Gamma>"
  shows "\<exists>vs. zeros \<Gamma> ts = Some vs \<and> length vs = length ts"
proof (rule zeros_list)
  fix t
  show "\<exists>v. zeros \<Gamma> [t] = Some [v]"
  proof (rule zeros_step)
    fix n
    show "\<exists>vs. zeros \<Gamma> (map ftype (sfields (\<Gamma> n))) = Some vs"
    proof (induction "rank n" arbitrary: n rule: less_induct)
      case less
      have "\<exists>v. zeros \<Gamma> [u] = Some [v]" if "u \<in> set (map ftype (sfields (\<Gamma> n)))" for u
        by (rule zeros_step, rule less) (use that assms in \<open>auto simp: types_finite_def\<close>)
      then show ?case using zeros_list by blast
    qed
  qed
qed

lemma zeros_struct:
  "zeros \<Gamma> [TStruct n] = Option.bind (zeros \<Gamma> (map ftype (sfields (\<Gamma> n)))) (\<lambda>vs. Some [VStruct n vs])"
  by (subst zeros.simps) (auto split: bind_split)

lemma zeros_length: "zeros \<Gamma> ts = Some vs \<Longrightarrow> length vs = length ts"
proof (induction ts arbitrary: vs)
  case (Cons t ts)
  then show ?case by (auto simp: zeros_Cons [of _ t ts] split: bind_splits)
qed simp

lemma type_of_named [simp]: "kind_of (named n t) = kind_of t" "type_underlying (named n t) = type_underlying t" "elem_type (named n t) = elem_type t"
  by (cases n; simp add: elem_type_def)+

end
