(* ===== verification/Proto_Instance.thy ===== *)
theory Proto_Instance
  imports Go_Reflect Proto_Decode
begin

text \<open>
  The instantiation of a decoded struct (struct.go, from decodeIntoInstance on): the decoded fields are stored, by
  reflection, in a new value of the registered type. A decoded number is a uint64 or a float64, a decoded slice a
  \<^verbatim>\<open>[]any\<close>, a decoded map an \<^verbatim>\<open>*encodedMap\<close> and a decoded struct a pointer, so most fields need a conversion.
\<close>

section \<open>Definitions\<close>

text \<open>\<^verbatim>\<open>Value.Elem\<close> on what is decoded: the variable a pointer points to (\<open>VNil\<close>, the zero Value, for a nil pointer); it
  panics on other kinds. Decoded pointers point to structs.\<close>

fun value_Elem :: "goval \<Rightarrow> goval outcome" where
  "value_Elem (VPtr t (Some v)) = Ok v"
| "value_Elem (VPtr t None) = Ok VNil"
| "value_Elem (VEncodedMap ks vs) = Ok (VStruct ''proto.encodedMap'' [VSlice None TAny ks, VSlice None TAny vs])"
| "value_Elem v = Panic ''reflect: call of reflect.Value.Elem''"

text \<open>The fields of the instance are a list. Both branches of \<^verbatim>\<open>setStructField\<close> store the value in the field, the first one
  past the protection of unexported fields.\<close>

definition setStructField :: "goruntime \<Rightarrow> goval list \<Rightarrow> encodableField \<Rightarrow> goval \<Rightarrow> goval list outcome" where
  "setStructField rt into fd value =
     bindO (assign rt (ftype (efield fd)) value) (\<lambda>v.
       if epos fd < length into then Ok (into[epos fd := v]) else Panic ''reflect: Field index out of range'')"

text \<open>\<^verbatim>\<open>rv.Index(i).Elem()\<close> for the items of a slice, and the same followed by \<^verbatim>\<open>Elem\<close> where pointers have to be
  converted.\<close>

fun item_Elems :: "goval \<Rightarrow> goval outcome list" where
  "item_Elems (VSlice n t vs) = map (\<lambda>v. if kind_of t = KInterface then Ok v else value_Elem v) vs"
| "item_Elems v = map value_Elem (slice_items v)"

definition convItem :: "bool \<Rightarrow> goval outcome \<Rightarrow> goval outcome" where
  "convItem mustConvertPtrs it = (if mustConvertPtrs then bindO it value_Elem else it)"

definition valueType :: "goval \<Rightarrow> gotype outcome" where
  "valueType v = (case type_of v of None \<Rightarrow> Panic ''reflect: call of reflect.Value.Type on zero Value'' | Some t \<Rightarrow> Ok t)"

fun allConvertible :: "goruntime \<Rightarrow> tyenv \<Rightarrow> gotype \<Rightarrow> goval outcome list \<Rightarrow> bool outcome" where
  "allConvertible rt \<Gamma> ft [] = Ok True"
| "allConvertible rt \<Gamma> ft (it # items) =
     bindO it (\<lambda>v. bindO (valueType v) (\<lambda>t.
       if \<not> convertibleTo rt \<Gamma> t ft then Ok False else allConvertible rt \<Gamma> ft items))"

text \<open>The case of two slices; \<open>None\<close> where the code returns without setting the field.\<close>

definition convertSlice :: "goruntime \<Rightarrow> tyenv \<Rightarrow> goval \<Rightarrow> gotype \<Rightarrow> goval option outcome" where
  "convertSlice rt \<Gamma> rv t =
     (let ft = elem_type t; items = item_Elems rv in
      bindO (case items of [] \<Rightarrow> Ok False | it # _ \<Rightarrow> bindO it (\<lambda>v. bindO (valueType v) (\<lambda>u. Ok (kind_of u = KPtr)))) (\<lambda>must.
      bindO (allConvertible rt \<Gamma> ft (map (convItem must) items)) (\<lambda>ok.
        if \<not> ok then Ok None
        else bindO (seqO (map (\<lambda>it. bindO (convItem must it) (\<lambda>v. convert rt \<Gamma> v ft)) items)) (\<lambda>vs.
          Ok (Some (mk_slice (TSlice ft) vs))))))"

definition isConvertible :: "goruntime \<Rightarrow> tyenv \<Rightarrow> gotype option \<Rightarrow> gotype \<Rightarrow> bool outcome" where
  "isConvertible rt \<Gamma> src dst =
     (case src of
        None \<Rightarrow> Panic ''nil pointer dereference''
      | Some t \<Rightarrow>
          Ok (if convertibleTo rt \<Gamma> t dst then True
              else if kind_of t = KPtr \<and> convertibleTo rt \<Gamma> (elem_type t) dst then True
              else kind_of dst = KPtr \<and> convertibleTo rt \<Gamma> t (elem_type dst)))"

definition pointerTo :: "goval \<Rightarrow> goval outcome" where
  "pointerTo v = bindO (valueType v) (\<lambda>t. Ok (if kind_of t = KPtr then v else VPtr t (Some v)))"

definition convertTo :: "goruntime \<Rightarrow> tyenv \<Rightarrow> goval \<Rightarrow> gotype \<Rightarrow> goval outcome" where
  "convertTo rt \<Gamma> v dst =
     bindO (valueType v) (\<lambda>t.
       if convertibleTo rt \<Gamma> t dst then convert rt \<Gamma> v dst
       else if kind_of t = KPtr \<and> kind_of dst \<noteq> KPtr then value_Elem v
       else if kind_of t \<noteq> KPtr \<and> kind_of dst = KPtr then pointerTo v
       else Ok v)"

text \<open>Equality and hashing of map keys. Floats are compared as numbers; the pointers of a decoded map are all
  different.\<close>

definition f64_eq :: "u64 \<Rightarrow> u64 \<Rightarrow> bool" where
  "f64_eq x y \<longleftrightarrow> \<not> (f64_exp x = 2047 \<and> f64_frac x \<noteq> 0) \<and> (x = y \<or> (x AND 0x7fffffffffffffff = 0 \<and> y AND 0x7fffffffffffffff = 0))"

fun key_eq :: "goval \<Rightarrow> goval \<Rightarrow> bool" where
  "key_eq v w =
     (case v of
        VFloat32 n x \<Rightarrow> (case w of VFloat32 m y \<Rightarrow> n = m \<and> f64_eq (f32to64 x) (f32to64 y) | _ \<Rightarrow> False)
      | VFloat64 n x \<Rightarrow> (case w of VFloat64 m y \<Rightarrow> n = m \<and> f64_eq x y | _ \<Rightarrow> False)
      | VArray n t vs \<Rightarrow> (case w of VArray m u ws \<Rightarrow> n = m \<and> t = u \<and> list_all2 key_eq vs ws | _ \<Rightarrow> False)
      | VStruct n vs \<Rightarrow> (case w of VStruct m ws \<Rightarrow> n = m \<and> list_all2 key_eq vs ws | _ \<Rightarrow> False)
      | VPtr t x \<Rightarrow> False
      | VEncodedMap ks vs \<Rightarrow> False
      | _ \<Rightarrow> v = w)"

declare key_eq.simps [simp del]

fun hashable :: "goval \<Rightarrow> bool" where
  "hashable (VBytes b) = False"
| "hashable (VSlice n t vs) = False"
| "hashable (VMap n k v kvs) = False"
| "hashable (VArray n t vs) = (\<forall>v \<in> set vs. hashable v)"
| "hashable (VStruct n vs) = (\<forall>v \<in> set vs. hashable v)"
| "hashable v = True"

fun mapPut :: "goval \<Rightarrow> goval \<Rightarrow> (goval \<times> goval) list \<Rightarrow> (goval \<times> goval) list" where
  "mapPut k v [] = [(k, v)]"
| "mapPut k v ((k', v') # m) = (if key_eq k k' then (k, v) # m else (k', v') # mapPut k v m)"

definition setMapIndex :: "goruntime \<Rightarrow> gotype \<Rightarrow> gotype \<Rightarrow> goval \<Rightarrow> goval \<Rightarrow> (goval \<times> goval) list \<Rightarrow> (goval \<times> goval) list outcome" where
  "setMapIndex rt kt vt k v m =
     bindO (assign rt kt k) (\<lambda>k. bindO (assign rt vt v) (\<lambda>v.
       if hashable k then Ok (mapPut k v m) else Panic ''runtime error: hash of unhashable type''))"

text \<open>\<^verbatim>\<open>v.values[i]\<close> is inside the bounds: a decoded map has as many values as keys.\<close>

fun fillMap :: "goruntime \<Rightarrow> tyenv \<Rightarrow> gotype \<Rightarrow> gotype \<Rightarrow> goval list \<Rightarrow> goval list \<Rightarrow> (goval \<times> goval) list \<Rightarrow> (goval \<times> goval) list outcome" where
  "fillMap rt \<Gamma> kt vt [] vs m = Ok m"
| "fillMap rt \<Gamma> kt vt (rk # ks) [] m = Panic ''runtime error: index out of range''"
| "fillMap rt \<Gamma> kt vt (rk # ks) (rv # vs) m =
     bindO (convertTo rt \<Gamma> rk kt) (\<lambda>k. bindO (convertTo rt \<Gamma> rv vt) (\<lambda>v.
       bindO (setMapIndex rt kt vt k v m) (fillMap rt \<Gamma> kt vt ks vs)))"

fun allConvertibleTo :: "goruntime \<Rightarrow> tyenv \<Rightarrow> gotype \<Rightarrow> goval list \<Rightarrow> bool outcome" where
  "allConvertibleTo rt \<Gamma> t [] = Ok True"
| "allConvertibleTo rt \<Gamma> t (v # vs) =
     bindO (isConvertible rt \<Gamma> (type_of v) t) (\<lambda>ok. if \<not> ok then Ok False else allConvertibleTo rt \<Gamma> t vs)"

definition makeMap :: "goruntime \<Rightarrow> tyenv \<Rightarrow> (goval list \<times> goval list) option \<Rightarrow> gotype \<Rightarrow> goval option outcome" where
  "makeMap rt \<Gamma> em mapType =
     (let kt = key_type mapType; vt = elem_type mapType in
      case em of
        None \<Rightarrow> Ok (Some (VMap (tname mapType) kt vt []))
      | Some (ks, vs) \<Rightarrow>
          bindO (allConvertibleTo rt \<Gamma> kt ks) (\<lambda>ok. if \<not> ok then Ok None else
          bindO (allConvertibleTo rt \<Gamma> vt vs) (\<lambda>ok. if \<not> ok then Ok None else
          bindO (fillMap rt \<Gamma> kt vt ks vs []) (\<lambda>m. Ok (Some (VMap (tname mapType) kt vt m))))))"

fun ptr_depth :: "goval \<Rightarrow> nat" where
  "ptr_depth (VPtr t (Some v)) = Suc (ptr_depth v)"
| "ptr_depth (VEncodedMap ks vs) = 1"
| "ptr_depth v = 0"

lemma value_Elem_depth: "value_Elem v = Ok w \<Longrightarrow> w \<noteq> VNil \<Longrightarrow> ptr_depth w < ptr_depth v"
  by (cases v rule: value_Elem.cases) auto

definition setOrLeave :: "goruntime \<Rightarrow> goval list \<Rightarrow> encodableField \<Rightarrow> goval option \<Rightarrow> goval list outcome" where
  "setOrLeave rt into fd value = (case value of None \<Rightarrow> Ok into | Some v \<Rightarrow> setStructField rt into fd v)"

text \<open>The cases of the switch, in order. \<^verbatim>\<open>rv.Type()\<close> panics on the zero Value, which only the first case lets through.\<close>

function setValue :: "goruntime \<Rightarrow> tyenv \<Rightarrow> goval list \<Rightarrow> encodableField \<Rightarrow> goval \<Rightarrow> goval list outcome" where
  "setValue rt \<Gamma> into fd rv =
     (let t = ftype (efield fd) in
      if kind_of t = KPtr \<and> rv = VNil then Ok into
      else bindO (valueType rv) (\<lambda>u.
        bindO (if kind_of t \<noteq> KPtr \<and> kind_of u = KPtr then bindO (value_Elem rv) (\<lambda>e. bindO (valueType e) (\<lambda>eu. Ok (convertibleTo rt \<Gamma> eu t)))
               else Ok False) (\<lambda>derefs.
          if derefs then bindO (value_Elem rv) (\<lambda>e. bindO (convert rt \<Gamma> e t) (setStructField rt into fd))
          else if kind_of t = KPtr \<and> kind_of u \<noteq> KPtr \<and> convertibleTo rt \<Gamma> u (elem_type t) then
            bindO (convert rt \<Gamma> rv (elem_type t)) (\<lambda>v. setStructField rt into fd (VPtr (elem_type t) (Some v)))
          else if convertibleTo rt \<Gamma> u t then bindO (convert rt \<Gamma> rv t) (setStructField rt into fd)
          else if kind_of u = KSlice \<and> kind_of t = KSlice then bindO (convertSlice rt \<Gamma> rv t) (setOrLeave rt into fd)
          else if kind_of t = kind_of u then setStructField rt into fd rv
          else if kind_of u = KPtr \<and> kind_of t = KMap \<and> u = TPtr encodedMapType then
            bindO (makeMap rt \<Gamma> (case rv of VEncodedMap ks vs \<Rightarrow> Some (ks, vs) | _ \<Rightarrow> None) t) (setOrLeave rt into fd)
          else if kind_of u = KPtr \<and> kind_of (elem_type u) = KStruct \<and> kind_of t = KStruct then
            bindO (value_Elem rv) (\<lambda>e. if e = VNil then Ok into else setValue rt \<Gamma> into fd e)
          else Ok into)))"
  by pat_completeness auto
termination setValue
  by (relation "measure (\<lambda>(rt, \<Gamma>, into, fd, rv). ptr_depth rv)") (auto simp: bindO_eq_Ok_iff dest: value_Elem_depth)

declare setValue.simps [simp del]

text \<open>The loop over the map of decoded fields; it stops at the first index that the type does not have.\<close>

fun setFields :: "goruntime \<Rightarrow> tyenv \<Rightarrow> encodableField list \<Rightarrow> (int \<times> goval) list \<Rightarrow> goval list \<Rightarrow> goval list outcome" where
  "setFields rt \<Gamma> fs [] inst = Ok inst"
| "setFields rt \<Gamma> fs ((i, v) # d) inst =
     (case fieldByIndex fs i of
        None \<Rightarrow> Ok inst
      | Some f \<Rightarrow> bindO (setValue rt \<Gamma> inst f v) (setFields rt \<Gamma> fs d))"

text \<open>\<open>ord\<close> is the order in which Go iterates over the map of fields. RegisterMessage only stores struct types.\<close>

type_synonym fieldOrder = "(int \<times> goval) list \<Rightarrow> (int \<times> goval) list"

definition decodeIntoInstance :: "goruntime \<Rightarrow> tyenv \<Rightarrow> registry \<Rightarrow> fieldOrder \<Rightarrow> instantiate" where
  "decodeIntoInstance rt \<Gamma> reg ord sid fds =
     (case reg sid of
        None \<Rightarrow> Fail (Errorf ''unknown message kind'')
      | Some t \<Rightarrow>
          (case zeros \<Gamma> [structType t] of
             Some [VStruct n inst] \<Rightarrow>
               bindO (setFields rt \<Gamma> (kfields t) (ord fds) inst) (\<lambda>inst. Ok (VPtr (structType t) (Some (VStruct n inst))))
           | _ \<Rightarrow> Panic ''reflect: not a struct type''))"

section \<open>Fields that are not filled\<close>

text \<open>The items of a slice are converted once, not recursively: a field that is a slice of slices stays as it is.\<close>

lemma nested_slice_lost:
  assumes "ftype (efield fd) = TSlice (TSlice e)" and "e \<noteq> TAny"
  shows "setValue rt \<Gamma> into fd (VSlice None TAny (VSlice None TAny ws # rest)) = Ok into"
proof -
  have "\<not> convertibleTo rt \<Gamma> (TSlice TAny) (TSlice u)" if "u \<noteq> TAny" for u
    using that by (simp add: convertibleTo_def Let_def is_int_kind_def is_uint_kind_def is_float_kind_def text_slice_def
        same_underlying_def implements_def)
  then show ?thesis using assms
    by (simp add: setValue.simps [of rt \<Gamma> _ _ "VSlice _ _ _"] valueType_def convertSlice_def convItem_def elem_type_def setOrLeave_def)
qed

text \<open>A message of another type than that of a struct field is passed to \<^verbatim>\<open>Set\<close>, which panics.\<close>

lemma other_message_panics:
  assumes "ftype (efield fd) = TStruct m" and "n \<noteq> m" and "\<not> same_struct \<Gamma> (TStruct m) (TStruct n)"
  shows "setValue rt \<Gamma> into fd (VPtr (TStruct n) (Some (VStruct n vs))) = Panic ''reflect.Set: value is not assignable to type''"
proof -
  have "\<not> convertibleTo rt \<Gamma> (TStruct n) (TStruct m)" "\<not> convertibleTo rt \<Gamma> (TPtr u) (TStruct m)" for u
    using assms by (simp_all add: convertibleTo_def Let_def is_int_kind_def is_uint_kind_def is_float_kind_def
        text_slice_def same_underlying_def implements_def)
  moreover have "assign rt (TStruct m) (VStruct n vs) = Panic ''reflect.Set: value is not assignable to type''"
    using assms by (simp add: assign_def implements_def)
  ultimately show ?thesis using assms(1)
    by (simp add: setValue.simps [of rt \<Gamma> _ _ "VPtr _ _"] setValue.simps [of rt \<Gamma> _ _ "VStruct _ _"] valueType_def
        setStructField_def elem_type_def)
qed

end
