(* ===== verification/Proto_Message.thy ===== *)
theory Proto_Message
  imports Proto_Instance Proto_Roundtrip
begin

text \<open>
  Messages that come back as they were sent: the round trip of a registered struct through Encode, DecodeAny and
  decodeIntoInstance, for fields whose values the conversions of setValue restore.
\<close>

section \<open>Which values come back\<close>

text \<open>Numbers, strings and byte slices that a field gets back as they were: the decoder forgets the sign of an integer and
  of a zero.\<close>

fun exact :: "goval \<Rightarrow> bool" where
  "exact (VBool n b) = True"
| "exact (VString n s) = True"
| "exact (VBytes b) = True"
| "exact (VInt n x) = (0 \<le> sint x)"
| "exact (VInt8 n x) = (0 \<le> sint x)"
| "exact (VInt16 n x) = (0 \<le> sint x)"
| "exact (VInt32 n x) = (0 \<le> sint x)"
| "exact (VInt64 n x) = (0 \<le> sint x)"
| "exact (VUint n x) = True"
| "exact (VUint8 n x) = True"
| "exact (VUint16 n x) = True"
| "exact (VUint32 n x) = True"
| "exact (VUint64 n x) = True"
| "exact (VFloat32 n x) = (x \<noteq> 0x80000000 \<and> \<not> (f32_exp x = 255 \<and> f32_frac x \<noteq> 0))"
| "exact (VFloat64 n x) = (x \<noteq> 0x8000000000000000)"
| "exact v = False"

definition plain :: "gotype \<Rightarrow> goval \<Rightarrow> bool" where
  "plain t v \<longleftrightarrow> exact v \<and> type_of v = Some t"

lemma tname_named [simp]: "tname t = None \<Longrightarrow> tname (named n t) = n"
  by (cases n) auto

lemma kind_sets [simp]:
  "is_int_kind k = (k = KInt \<or> k = KInt8 \<or> k = KInt16 \<or> k = KInt32 \<or> k = KInt64)"
  "is_uint_kind k = (k = KUint \<or> k = KUint8 \<or> k = KUint16 \<or> k = KUint32 \<or> k = KUint64)"
  "is_float_kind k = (k = KFloat32 \<or> k = KFloat64)"
  by (auto simp: is_int_kind_def is_uint_kind_def is_float_kind_def)

lemma ucast_scast_narrow:
  fixes x :: "'a::len word"
  assumes "LENGTH('a) \<le> LENGTH('b)"
  shows "ucast (scast x :: 'b::len word) = x"
proof (rule bit_word_eqI)
  fix n assume "n < LENGTH('a)"
  then show "bit (ucast (scast x :: 'b word) :: 'a word) n = bit x n"
    using assms by (cases "n = LENGTH('a) - 1") (auto simp: bit_simps)
qed

lemma scast_back [simp]:
  "ucast (scast (x :: u8) :: u64) = x" "ucast (scast (y :: u16) :: u64) = y" "ucast (scast (z :: u32) :: u64) = z"
  by (simp_all add: ucast_scast_narrow)

lemma ucast_back [simp]:
  "ucast (ucast (x :: u8) :: u64) = x" "ucast (ucast (y :: u16) :: u64) = y" "ucast (ucast (z :: u32) :: u64) = z"
  by (rule bit_word_eqI; auto simp: bit_simps)+

lemma zero_or_minus32: "(x :: u32) AND 0x7fffffff = 0 \<Longrightarrow> x = 0 \<or> x = 0x80000000"
proof -
  assume "x AND 0x7fffffff = 0"
  then have "take_bit 31 x = 0" by (simp add: take_bit_eq_mask mask_eq_exp_minus_1)
  then have "unat (take_bit 31 x) = 0" by simp
  then have "take_bit 31 (unat x) = 0" by (simp only: unsigned_take_bit_eq)
  then have "2 ^ 31 dvd unat x" by (simp only: take_bit_eq_mod mod_eq_0_iff_dvd)
  moreover have "unat x < 2 ^ 32" using unsigned_less [of x] by simp
  ultimately obtain k where "unat x = 2 ^ 31 * k" "k < 2" by (auto elim!: dvdE)
  then have "unat x = unat (0 :: u32) \<or> unat x = unat (0x80000000 :: u32)" by (cases k) auto
  then show ?thesis by (simp only: word_unat_eq_iff)
qed

lemma zero_or_minus64: "(x :: u64) AND 0x7fffffffffffffff = 0 \<Longrightarrow> x = 0 \<or> x = 0x8000000000000000"
proof -
  assume "x AND 0x7fffffffffffffff = 0"
  then have "take_bit 63 x = 0" by (simp add: take_bit_eq_mask mask_eq_exp_minus_1)
  then have "unat (take_bit 63 x) = 0" by simp
  then have "take_bit 63 (unat x) = 0" by (simp only: unsigned_take_bit_eq)
  then have "2 ^ 63 dvd unat x" by (simp only: take_bit_eq_mod mod_eq_0_iff_dvd)
  moreover have "unat x < 2 ^ 64" using unsigned_less [of x] by simp
  ultimately obtain k where "unat x = 2 ^ 63 * k" "k < 2" by (auto elim!: dvdE)
  then have "unat x = unat (0 :: u64) \<or> unat x = unat (0x8000000000000000 :: u64)" by (cases k) auto
  then show ?thesis by (simp only: word_unat_eq_iff)
qed

fun decoded :: "goval \<Rightarrow> goval" where
  "decoded (VBool n b) = VBool None b"
| "decoded (VString n s) = VString None s"
| "decoded (VBytes b) = VBytes b"
| "decoded (VFloat32 n x) = VFloat64 None (f32to64 x)"
| "decoded (VFloat64 n x) = VFloat64 None x"
| "decoded v = VUint64 None (int_bits v)"

lemma f32to64_zero: "f32to64 0 = 0"
  by (simp add: f32to64_def f32_sign_def f32_exp_def f32_frac_def f64_pack_def)

lemma canon_exact: "exact v \<Longrightarrow> canon inst \<Gamma> v = Ok (decoded v)"
  by (subst canon.simps) (cases v; auto dest: zero_or_minus32 zero_or_minus64 simp: f32to64_zero negate_def)

lemma exact_decoded: "exact v \<Longrightarrow> \<exists>u. type_of (decoded v) = Some u \<and> kind_of u \<noteq> KPtr"
  by (cases v) auto

lemma named_convertible:
  "convertibleTo rt \<Gamma> TBool (named n TBool)" "convertibleTo rt \<Gamma> TString (named n TString)"
  "is_int_kind (kind_of t) \<or> is_uint_kind (kind_of t) \<Longrightarrow> convertibleTo rt \<Gamma> TUint64 t"
  "is_float_kind (kind_of t) \<Longrightarrow> convertibleTo rt \<Gamma> TFloat64 t"
  "convertibleTo rt \<Gamma> t t"
  by (auto simp: convertibleTo_def Let_def same_underlying_def)

lemma convert_decoded:
  assumes "exact v" and "type_of v = Some t"
  shows "convertibleTo rt \<Gamma> (the (type_of (decoded v))) t \<and> convert rt \<Gamma> (decoded v) t = Ok v"
  using assms by (cases v)
    (auto simp: named_convertible convert_def mk_int_def mk_float_def text_slice_def f64to32_f32to64 mk_slice_def comp_def)

section \<open>Messages\<close>

text \<open>What RegisterMessage stores for the struct type \<open>n\<close>, with distinct indices of its fields.\<close>

definition known :: "tyenv \<Rightarrow> registry \<Rightarrow> string \<Rightarrow> bool" where
  "known \<Gamma> reg n =
     (case structID (\<Gamma> n) of
        None \<Rightarrow> False
      | Some sid \<Rightarrow>
          (case reg sid of
             None \<Rightarrow> False
           | Some t \<Rightarrow> structType t = TStruct n \<and> encodableFieldsFromType \<Gamma> (TStruct n) = Ok (kfields t) \<and>
               distinct (map eindex (kfields t))))"

lemma RegisterMessage_known:
  assumes "RegisterMessage \<Gamma> (TStruct n) reg = (Ok (), reg')"
    and "\<And>fs. encodableFieldsFromType \<Gamma> (TStruct n) = Ok fs \<Longrightarrow> distinct (map eindex fs)"
  shows "known \<Gamma> reg' n"
  using assms by (auto simp: RegisterMessage_def known_def bindR_eq_Ok_iff split: option.splits outcome.splits prod.splits)

text \<open>
  The values that come back in a field of type \<open>t\<close>: exact scalars, strings and byte slices, pointers to them, slices and
  maps of them, messages, and slices and maps of messages. Fields of a message that are not encoded must be zero.
\<close>

definition is_message :: "gotype \<Rightarrow> bool" where
  "is_message t = (case t of TStruct n \<Rightarrow> True | _ \<Rightarrow> False)"

function (sequential) carried :: "tyenv \<Rightarrow> registry \<Rightarrow> gotype \<Rightarrow> goval \<Rightarrow> bool" where
  "carried \<Gamma> reg t (VPtr e None) = (t = TPtr e)"
| "carried \<Gamma> reg t (VPtr e (Some w)) = (t = TPtr e \<and> (if is_message e then carried \<Gamma> reg e w else plain e w))"
| "carried \<Gamma> reg t (VSlice n e ws) =
     (t = named n (TSlice e) \<and> e \<noteq> TUint8 \<and> kind_of e \<noteq> KInterface \<and>
      (\<forall>w\<in>set ws. if is_message e then carried \<Gamma> reg e w else plain e w))"
| "carried \<Gamma> reg t (VMap n kt vt kvs) =
     (t = named n (TMap kt vt) \<and> (\<forall>kv\<in>set kvs. plain kt (fst kv) \<and> hashable (fst kv)) \<and>
      (\<forall>w\<in>set (map snd kvs). if is_message vt then carried \<Gamma> reg vt w else plain vt w) \<and>
      sorted_wrt (\<lambda>k k'. \<not> key_eq k' k) (map fst kvs))"
| "carried \<Gamma> reg t (VStruct n vs) =
     (t = TStruct n \<and> known \<Gamma> reg n \<and>
      (case encodableFieldsFromType \<Gamma> (TStruct n) of
         Ok fs \<Rightarrow>
           (\<forall>f\<in>set fs. if epos f < length vs then carried \<Gamma> reg (ftype (efield f)) (vs ! epos f) else False) \<and>
           (case zeros \<Gamma> (map ftype (sfields (\<Gamma> n))) of
              Some zs \<Rightarrow> length vs = length zs \<and> (\<forall>i\<in>set [0..<length vs]. i \<in> epos ` set fs \<or> vs ! i = zs ! i)
            | None \<Rightarrow> False)
       | _ \<Rightarrow> False))"
| "carried \<Gamma> reg t v = plain t v"
  by pat_completeness auto
termination carried
  by (relation "measure (\<lambda>(\<Gamma>, reg, t, v). size v)")
    (auto dest: size_in_list size_in_pairs intro: size_in_list [OF nth_mem])

declare carried.simps [simp del]

section \<open>Setting one field\<close>

text \<open>\<open>fills rt \<Gamma> t w v z\<close>: storing the decoded value \<open>w\<close> in a field of type \<open>t\<close> that holds \<open>z\<close> leaves \<open>v\<close> in it.\<close>

definition fills :: "goruntime \<Rightarrow> tyenv \<Rightarrow> gotype \<Rightarrow> goval \<Rightarrow> goval \<Rightarrow> goval \<Rightarrow> bool" where
  "fills rt \<Gamma> t w v z \<longleftrightarrow>
     (\<forall>into fd. ftype (efield fd) = t \<longrightarrow> epos fd < length into \<longrightarrow> into ! epos fd = z \<longrightarrow>
        setValue rt \<Gamma> into fd w = Ok (into[epos fd := v]))"

lemma retag_exact: "exact v \<Longrightarrow> type_of v = Some t \<Longrightarrow> retag t v = v"
  by (cases v) (auto simp: mk_slice_def comp_def)

lemma assign_self: "type_of v = Some t \<Longrightarrow> retag t v = v \<Longrightarrow> assign rt t v = Ok v"
  by (simp add: assign_def)

lemma setStructField_self:
  "type_of v = Some (ftype (efield fd)) \<Longrightarrow> retag (ftype (efield fd)) v = v \<Longrightarrow> epos fd < length into \<Longrightarrow>
     setStructField rt into fd v = Ok (into[epos fd := v])"
  by (simp add: setStructField_def assign_self)

lemma plain_facts:
  assumes "plain t v"
  obtains u where "type_of (decoded v) = Some u" "kind_of u \<noteq> KPtr" "convertibleTo rt \<Gamma> u t"
    "convert rt \<Gamma> (decoded v) t = Ok v" "kind_of t \<noteq> KPtr" "kind_of t \<noteq> KInterface" "type_of v = Some t" "retag t v = v" "decoded v \<noteq> VNil"
proof -
  from assms have v: "exact v" "type_of v = Some t" by (auto simp: plain_def)
  then have "kind_of t \<noteq> KPtr" "kind_of t \<noteq> KInterface" "decoded v \<noteq> VNil" by (cases v; auto)+
  with v exact_decoded [OF v(1)] convert_decoded [OF v, of rt \<Gamma>] retag_exact [OF v] that show ?thesis by auto
qed

lemma fills_plain: "plain t v \<Longrightarrow> fills rt \<Gamma> t (decoded v) v z"
  by (erule plain_facts [of _ _ rt \<Gamma>])
    (auto simp: fills_def setValue.simps [of rt \<Gamma> _ _ "decoded v"] valueType_def setStructField_self)

lemma fills_ptr: "plain e v \<Longrightarrow> fills rt \<Gamma> (TPtr e) (decoded v) (VPtr e (Some v)) z"
  by (erule plain_facts [of _ _ rt \<Gamma>])
    (auto simp: fills_def setValue.simps [of rt \<Gamma> _ _ "decoded v"] valueType_def setStructField_self elem_type_def)

lemma fills_nil: "fills rt \<Gamma> (TPtr e) VNil (VPtr e None) (VPtr e None)"
  by (auto simp: fills_def setValue.simps [of rt \<Gamma> _ _ VNil]) (metis list_update_id)

lemma convert_struct: "convert rt \<Gamma> (VStruct n vs) (TStruct n) = Ok (VStruct n vs)"
  by (simp add: convert_def named_convertible struct_name_def text_slice_def)

lemma fills_message: "fills rt \<Gamma> (TStruct n) (VPtr (TStruct n) (Some (VStruct n vs))) (VStruct n vs) z"
  by (auto simp: fills_def setValue.simps [of rt \<Gamma> _ _ "VPtr _ _"] valueType_def setStructField_self
      named_convertible convert_struct struct_name_def)

lemma fills_ptr_message:
  "fills rt \<Gamma> (TPtr (TStruct n)) (VPtr (TStruct n) (Some (VStruct n vs))) (VPtr (TStruct n) (Some (VStruct n vs))) z"
  by (auto simp: fills_def setValue.simps [of rt \<Gamma> _ _ "VPtr _ _"] valueType_def setStructField_self
      named_convertible convert_def text_slice_def struct_name_def elem_type_def)

section \<open>Items of slices and maps\<close>

definition item_of :: "gotype \<Rightarrow> goval \<Rightarrow> goval \<Rightarrow> bool" where
  "item_of e w v \<longleftrightarrow>
     (if is_message e then w = VPtr e (Some v) \<and> (\<exists>n vs. e = TStruct n \<and> v = VStruct n vs)
      else w = decoded v \<and> plain e v)"

lemma item_convItem:
  assumes "item_of e w v"
  shows "\<exists>w' u. convItem (is_message e) (Ok w) = Ok w' \<and> type_of w' = Some u \<and> convertibleTo rt \<Gamma> u e \<and> convert rt \<Gamma> w' e = Ok v"
  using assms by (cases "is_message e") (auto simp: item_of_def convItem_def named_convertible convert_struct elim!: plain_facts [of e v rt \<Gamma>])

lemma item_kind: "item_of e w v \<Longrightarrow> \<exists>u. type_of w = Some u \<and> (kind_of u = KPtr) = is_message e"
  by (cases "is_message e") (auto simp: item_of_def elim!: plain_facts)

lemma allConvertible_items:
  "list_all2 (item_of e) ws vs \<Longrightarrow> allConvertible rt \<Gamma> e (map (\<lambda>w. convItem (is_message e) (Ok w)) ws) = Ok True"
proof (induction rule: list_all2_induct)
  case (Cons w ws v vs)
  with item_convItem [of e w v rt \<Gamma>] show ?case by (auto simp: valueType_def)
qed simp

lemma convert_items:
  "list_all2 (item_of e) ws vs \<Longrightarrow>
     seqO (map (\<lambda>w. bindO (convItem (is_message e) (Ok w)) (\<lambda>v. convert rt \<Gamma> v e)) ws) = Ok vs"
proof (induction rule: list_all2_induct)
  case (Cons w ws v vs)
  with item_convItem [of e w v rt \<Gamma>] show ?case by auto
qed simp

lemma convertSlice_items:
  assumes "list_all2 (item_of (elem_type t)) ws vs"
  shows "convertSlice rt \<Gamma> (VSlice None TAny ws) t = Ok (Some (mk_slice (TSlice (elem_type t)) vs))"
proof (cases ws)
  case Nil
  with assms show ?thesis by (simp add: convertSlice_def)
next
  case (Cons w ws')
  with assms have "\<exists>v. item_of (elem_type t) w v" by (auto simp: list_all2_Cons1)
  then obtain u where "type_of w = Some u" "(kind_of u = KPtr) = is_message (elem_type t)" using item_kind by blast
  then show ?thesis
    using allConvertible_items [OF assms, of rt \<Gamma>] convert_items [OF assms, of rt \<Gamma>] Cons
    by (simp add: convertSlice_def valueType_def comp_def del: allConvertible.simps seqO.simps)
qed

lemma fills_slice:
  assumes "t = named n (TSlice e)" "e \<noteq> TUint8" "kind_of e \<noteq> KInterface" "list_all2 (item_of e) ws vs"
  shows "fills rt \<Gamma> t (VSlice None TAny ws) (VSlice n e vs) z"
proof -
  from assms(1) have t: "kind_of t = KSlice" "type_underlying t = TSlice e" "elem_type t = e" "tname t = n" "t \<noteq> TSlice TUint8"
    using assms(2) by (cases n; auto simp: elem_type_def)+
  have "e \<noteq> TAny" using assms(3) by auto
  with t have "\<not> convertibleTo rt \<Gamma> (TSlice TAny) t"
    by (simp add: convertibleTo_def Let_def text_slice_def same_underlying_def implements_def)
  moreover have "assign rt t (VSlice None e vs) = Ok (VSlice n e vs)"
    using t assms(1,2) by (auto simp: assign_def mk_slice_def has_name_def)
  ultimately show ?thesis using convertSlice_items [of t ws vs rt \<Gamma>] assms(2,4) t
    by (auto simp: fills_def setValue.simps [of rt \<Gamma> _ _ "VSlice _ _ _"] valueType_def setOrLeave_def setStructField_def mk_slice_def elem_type_def)
qed

lemma isConvertible_item:
  assumes "item_of e w v"
  shows "isConvertible rt \<Gamma> (type_of w) e = Ok True"
  using assms
  by (cases "is_message e")
    (auto simp: item_of_def isConvertible_def named_convertible elem_type_def elim!: plain_facts [of e v rt \<Gamma>])

lemma not_convertible_ptr_struct: "\<not> convertibleTo rt \<Gamma> (TPtr e) (TStruct n)"
  by (simp add: convertibleTo_def Let_def same_underlying_def implements_def text_slice_def)

lemma convertTo_item:
  assumes "item_of e w v"
  shows "convertTo rt \<Gamma> w e = Ok v \<and> assign rt e v = Ok v"
  using assms
  by (cases "is_message e")
    (auto simp: item_of_def convertTo_def valueType_def not_convertible_ptr_struct assign_self struct_name_def
      elim!: plain_facts [of e v rt \<Gamma>])

lemma allConvertibleTo_items: "list_all2 (item_of e) ws vs \<Longrightarrow> allConvertibleTo rt \<Gamma> e ws = Ok True"
  by (induction rule: list_all2_induct) (auto simp: isConvertible_item)

lemma mapPut_new: "\<forall>k' \<in> fst ` set m. \<not> key_eq k k' \<Longrightarrow> mapPut k v m = m @ [(k, v)]"
  by (induction m) auto

lemma fillMap_items:
  assumes "list_all2 (item_of kt) ks (map fst kvs)" "list_all2 (item_of vt) vs (map snd kvs)"
    "\<forall>k \<in> set (map fst kvs). hashable k" "sorted_wrt (\<lambda>k k'. \<not> key_eq k' k) (map fst m @ map fst kvs)"
  shows "fillMap rt \<Gamma> kt vt ks vs m = Ok (m @ kvs)"
  using assms
proof (induction kvs arbitrary: ks vs m)
  case (Cons kv kvs)
  then obtain rk ks' rv vs' where ks: "ks = rk # ks'" "vs = rv # vs'" "item_of kt rk (fst kv)" "item_of vt rv (snd kv)"
    "list_all2 (item_of kt) ks' (map fst kvs)" "list_all2 (item_of vt) vs' (map snd kvs)"
    by (auto simp: list_all2_Cons2)
  have "mapPut (fst kv) (snd kv) m = m @ [kv]"
    using Cons.prems(4) mapPut_new [of m "fst kv" "snd kv"] by (auto simp: sorted_wrt_append)
  moreover have "fillMap rt \<Gamma> kt vt ks' vs' (m @ [kv]) = Ok ((m @ [kv]) @ kvs)"
    using Cons.prems(3,4) by (intro Cons.IH ks) auto
  ultimately show ?case using ks(1,2) convertTo_item [OF ks(3), of rt \<Gamma>] convertTo_item [OF ks(4), of rt \<Gamma>] Cons.prems(3)
    by (simp add: setMapIndex_def)
qed auto

lemma plain_not_message: "plain e v \<Longrightarrow> \<not> is_message e"
  by (cases v; cases e) (auto simp: plain_def is_message_def elim: named.elims)

lemma plain_items: "\<forall>v \<in> set vs. plain e v \<Longrightarrow> list_all2 (item_of e) (map decoded vs) vs"
  by (induction vs) (auto simp: item_of_def dest: plain_not_message)

lemma fills_map:
  assumes "t = named n (TMap kt vt)" "\<forall>kv \<in> set kvs. plain kt (fst kv) \<and> hashable (fst kv)"
    "list_all2 (item_of vt) ws (map snd kvs)" "sorted_wrt (\<lambda>k k'. \<not> key_eq k' k) (map fst kvs)"
  shows "fills rt \<Gamma> t (VEncodedMap (map decoded (map fst kvs)) ws) (VMap n kt vt kvs) z"
proof -
  from assms(1) have t: "kind_of t = KMap" "type_underlying t = TMap kt vt" "elem_type t = vt" "key_type t = kt" "tname t = n"
    by (cases n; simp add: elem_type_def key_type_def)+
  have keys: "list_all2 (item_of kt) (map decoded (map fst kvs)) (map fst kvs)"
    using assms(2) by (intro plain_items) auto
  have "makeMap rt \<Gamma> (Some (map decoded (map fst kvs), ws)) t = Ok (Some (VMap n kt vt kvs))"
    using fillMap_items [OF keys assms(3), of "[]" rt \<Gamma>] assms(2,4) allConvertibleTo_items [OF keys, of rt \<Gamma>]
      allConvertibleTo_items [OF assms(3), of rt \<Gamma>] t
    by (auto simp: makeMap_def)
  moreover have "\<not> convertibleTo rt \<Gamma> (TPtr encodedMapType) t" "\<not> convertibleTo rt \<Gamma> (TStruct x) t" for x
    using t by (simp_all add: convertibleTo_def Let_def text_slice_def same_underlying_def implements_def encodedMapType_def)
  moreover have "type_of (VMap n kt vt kvs) = Some t" "retag t (VMap n kt vt kvs) = VMap n kt vt kvs"
    using assms(1) t by auto
  ultimately show ?thesis using t
    by (auto simp: fills_def setValue.simps [of rt \<Gamma> _ _ "VEncodedMap _ _"] valueType_def setOrLeave_def setStructField_self)
qed

section \<open>Filling a message\<close>

lemma collectFields_positions: "collectFields ps = Ok es \<Longrightarrow> distinct (map fst ps) \<Longrightarrow> distinct (map epos es)"
proof (induction ps arbitrary: es)
  case (Cons p ps)
  obtain i f where p: "p = (i, f)" by (cases p)
  from Cons.prems p consider "collectFields ps = Ok es"
    | k rest where "collectFields ps = Ok rest" "es = \<lparr>efield = f, epos = i, eindex = k\<rparr> # rest"
    by (auto simp: bindO_eq_Ok_iff split: if_splits option.splits)
  then show ?case using Cons.IH Cons.prems(2) p by cases (force dest: collectFields_Ok)+
qed simp

lemma encodableFields_positions:
  assumes "encodableFieldsFromType \<Gamma> (TStruct n) = Ok fs"
  shows "distinct (map epos fs)"
proof -
  from assms obtain es where es: "collectFields (enumerate 0 (sfields (\<Gamma> n))) = Ok es" "fs = sort_key eindex es"
    by (auto simp: encodableFieldsFromType_def bindO_eq_Ok_iff split: if_splits)
  have "distinct (map epos es)" using collectFields_positions [OF es(1)] by simp
  then show ?thesis unfolding es(2) by (simp add: distinct_map)
qed

lemma fold_update_distinct:
  "distinct (map fst (acc @ kvs)) \<Longrightarrow> fold (\<lambda>(i, w). AList.update i w) kvs acc = acc @ kvs"
proof (induction kvs arbitrary: acc)
  case (Cons p kvs)
  obtain i w where p: "p = (i, w)" by (cases p)
  with Cons.prems have "AList.update i w acc = acc @ [p]" by (simp add: update_new map_of_eq_None_iff)
  with Cons.IH [of "acc @ [p]"] Cons.prems p show ?case by simp
qed simp

lemma canon_fields_distinct:
  assumes "\<And>f. f \<in> set fs \<Longrightarrow> c f = Ok (w f)" and "distinct (map eindex fs)"
  shows "canon_fields (map (\<lambda>f. (eindex f, c f)) fs) = Ok (map (\<lambda>f. (eindex f, w f)) fs)"
proof -
  have "map (\<lambda>f. (eindex f, c f)) fs = map (\<lambda>f. (eindex f, Ok (w f))) fs" using assms(1) by auto
  then show ?thesis using fold_update_distinct [of "[]" "map (\<lambda>f. (eindex f, w f)) fs"] assms(2)
    by (simp add: canon_fields_def comp_def del: map_eq_conv)
qed

lemma fieldByIndex_distinct: "distinct (map eindex fs) \<Longrightarrow> f \<in> set fs \<Longrightarrow> fieldByIndex fs (eindex f) = Some f"
  unfolding fieldByIndex_def by (induction fs) auto

text \<open>The instance while the fields in \<open>todo\<close> are still to be set: they are zero, the others have their values.\<close>

definition partial :: "encodableField list \<Rightarrow> goval list \<Rightarrow> goval list \<Rightarrow> goval list" where
  "partial todo zs vs = map (\<lambda>j. if j \<in> epos ` set todo then zs ! j else vs ! j) [0..<length vs]"

lemma partial_step:
  "distinct (map epos (f # fs)) \<Longrightarrow> epos f < length vs \<Longrightarrow> (partial (f # fs) zs vs)[epos f := vs ! epos f] = partial fs zs vs"
  by (rule nth_equalityI) (auto simp: partial_def nth_list_update)

lemma setFields_all:
  assumes "distinct (map epos todo)" "distinct (map eindex fs)" "set todo \<subseteq> set fs"
    and "\<And>f. f \<in> set todo \<Longrightarrow> epos f < length vs \<and> fills rt \<Gamma> (ftype (efield f)) (w f) (vs ! epos f) (zs ! epos f)"
  shows "setFields rt \<Gamma> fs (map (\<lambda>f. (eindex f, w f)) todo) (partial todo zs vs) = Ok vs"
  using assms
proof (induction todo)
  case Nil
  then show ?case by (simp add: partial_def map_nth)
next
  case (Cons f todo)
  have f: "epos f < length vs" "fills rt \<Gamma> (ftype (efield f)) (w f) (vs ! epos f) (zs ! epos f)"
    using Cons.prems(4) by auto
  have "partial (f # todo) zs vs ! epos f = zs ! epos f" "epos f < length (partial (f # todo) zs vs)"
    using f(1) by (simp_all add: partial_def)
  then have "setValue rt \<Gamma> (partial (f # todo) zs vs) f (w f) = Ok ((partial (f # todo) zs vs)[epos f := vs ! epos f])"
    using f(2) by (auto simp: fills_def)
  with partial_step [OF Cons.prems(1) f(1)] fieldByIndex_distinct [OF Cons.prems(2), of f] Cons show ?case by simp
qed

lemma zeros_nth: "zeros \<Gamma> ts = Some zs \<Longrightarrow> i < length ts \<Longrightarrow> zeros \<Gamma> [ts ! i] = Some [zs ! i]"
proof (induction ts arbitrary: zs i)
  case (Cons t ts)
  from Cons.prems(1) obtain v zs' where v: "zeros \<Gamma> [t] = Some v" "zeros \<Gamma> ts = Some zs'" "zs = hd v # zs'"
    by (auto simp: zeros_Cons [of _ t ts] split: bind_splits)
  have "length v = 1" using zeros_length [OF v(1)] by simp
  then have "v = [hd v]" by (cases v) auto
  with Cons.IH [OF v(2)] Cons.prems(2) v show ?case by (cases i) auto
qed simp

text \<open>An order of iteration gives each pair of the map once.\<close>

definition is_order :: "fieldOrder \<Rightarrow> bool" where
  "is_order ord \<longleftrightarrow> (\<forall>d. set (ord d) = set d \<and> length (ord d) = length d)"

lemma order_fields:
  assumes "is_order ord" and dist: "distinct (map eindex (fs :: encodableField list))"
  obtains todo where "ord (map (\<lambda>f. (eindex f, w f)) fs) = map (\<lambda>f. (eindex f, w f)) todo" "set todo = set fs" "distinct todo"
proof -
  let ?g = "\<lambda>f. (eindex f, w f)"
  let ?d = "ord (map ?g fs)"
  define todo where "todo = map (\<lambda>p. the (fieldByIndex fs (fst p))) ?d"
  have d: "set ?d = ?g ` set fs" "length ?d = length fs" using assms(1) by (auto simp: is_order_def)
  have inj: "inj_on ?g (set fs)" using dist by (auto simp: distinct_map inj_on_def)
  have map: "map ?g todo = ?d" unfolding todo_def using d(1) fieldByIndex_distinct [OF dist]
    by (auto intro!: map_idI)
  have sub: "set todo \<subseteq> set fs" unfolding todo_def using d(1) fieldByIndex_distinct [OF dist] by auto
  have "?g ` set todo = ?g ` set fs" using map d(1) by (metis list.set_map)
  then have "set todo = set fs" using inj_on_image_eq_iff [OF inj sub order_refl] by blast
  moreover have "card (set ?d) = length ?d"
    using d dist by (simp add: card_image [OF inj] distinct_card distinct_map)
  then have "distinct (map ?g todo)" unfolding map by (rule card_distinct)
  then have "distinct todo" by (simp only: distinct_map)
  ultimately show ?thesis using that map by metis
qed

lemma canon_message:
  assumes known: "known \<Gamma> reg n" and ord: "is_order ord"
    and fs: "encodableFieldsFromType \<Gamma> (TStruct n) = Ok fs"
    and fields: "\<And>f. f \<in> set fs \<Longrightarrow> epos f < length vs \<and> canon inst \<Gamma> (vs ! epos f) = Ok (w f) \<and>
      fills rt \<Gamma> (ftype (efield f)) (w f) (vs ! epos f) (zs ! epos f)"
    and zs: "zeros \<Gamma> (map ftype (sfields (\<Gamma> n))) = Some zs" "length vs = length zs"
      "\<forall>i<length vs. i \<in> epos ` set fs \<or> vs ! i = zs ! i"
    and inst: "inst = decodeIntoInstance rt \<Gamma> reg ord"
  shows "canon inst \<Gamma> (VStruct n vs) = Ok (VPtr (TStruct n) (Some (VStruct n vs)))"
proof -
  from known fs obtain sid k where k: "structID (\<Gamma> n) = Some sid" "reg sid = Some k" "structType k = TStruct n"
    "kfields k = fs" "distinct (map eindex fs)"
    by (auto simp: known_def split: option.splits)
  have "canon_fields (map (\<lambda>f. (eindex f, if epos f < length vs then canon inst \<Gamma> (vs ! epos f)
      else Panic ''reflect: Field index out of range'')) fs) = Ok (map (\<lambda>f. (eindex f, w f)) fs)"
    using fields k(5) by (intro canon_fields_distinct) auto
  moreover obtain todo where todo: "ord (map (\<lambda>f. (eindex f, w f)) fs) = map (\<lambda>f. (eindex f, w f)) todo" "set todo = set fs" "distinct todo"
    using order_fields [OF ord k(5)] .
  have todo': "distinct (map epos todo)" "set todo = set fs"
    using encodableFields_positions [OF fs] todo(2,3) by (simp_all add: distinct_map)
  have "partial todo zs vs = zs" using zs(2,3) todo'(2) by (intro nth_equalityI) (auto simp: partial_def)
  with setFields_all [of todo fs vs rt \<Gamma> w zs] todo' k(5) fields
  have "setFields rt \<Gamma> fs (map (\<lambda>f. (eindex f, w f)) todo) zs = Ok vs" by auto
  then have "inst sid (map (\<lambda>f. (eindex f, w f)) fs) = Ok (VPtr (TStruct n) (Some (VStruct n vs)))"
    using zs(1) k todo(1) by (simp add: inst decodeIntoInstance_def zeros_struct)
  ultimately show ?thesis using k(1) fs by (subst canon.simps) simp
qed

lemma canon_ptr: "\<not> is_nil w \<Longrightarrow> deref w = w \<Longrightarrow> canon inst \<Gamma> (VPtr e (Some w)) = canon inst \<Gamma> w"
  by (subst (1 2) canon.simps) simp

lemma exact_direct: "exact v \<Longrightarrow> \<not> is_nil v \<and> deref v = v"
  by (cases v) auto


lemma zeros_ptr: "zeros \<Gamma> [TPtr e] = Some [VPtr e None]"
  by (subst zeros.simps) (simp add: zero_flat_def)

lemma canon_items:
  assumes "\<And>v. v \<in> set vs \<Longrightarrow> \<exists>w. canon inst \<Gamma> v = Ok w \<and> item_of e w v"
  shows "\<exists>ws. seqO (map (canon inst \<Gamma>) vs) = Ok ws \<and> list_all2 (item_of e) ws vs"
  using assms
proof (induction vs)
  case (Cons v vs)
  then obtain w ws where "canon inst \<Gamma> v = Ok w" "item_of e w v" "seqO (map (canon inst \<Gamma>) vs) = Ok ws"
    "list_all2 (item_of e) ws vs" by force
  then show ?case by simp
qed simp

lemma carried_cases:
  assumes "carried \<Gamma> reg t v"
  obtains (plain) "plain t v"
  | (nil) e where "v = VPtr e None" "t = TPtr e"
  | (ptr) e w where "v = VPtr e (Some w)" "t = TPtr e" "if is_message e then carried \<Gamma> reg e w else plain e w"
  | (slice) n e ws where "v = VSlice n e ws" "t = named n (TSlice e)" "e \<noteq> TUint8" "kind_of e \<noteq> KInterface"
      "\<forall>w\<in>set ws. if is_message e then carried \<Gamma> reg e w else plain e w"
  | (dict) n kt vt kvs where "v = VMap n kt vt kvs" "t = named n (TMap kt vt)"
      "\<forall>kv\<in>set kvs. plain kt (fst kv) \<and> hashable (fst kv)"
      "\<forall>w\<in>set (map snd kvs). if is_message vt then carried \<Gamma> reg vt w else plain vt w"
      "sorted_wrt (\<lambda>k k'. \<not> key_eq k' k) (map fst kvs)"
  | (struct) n vs fs zs where "v = VStruct n vs" "t = TStruct n" "known \<Gamma> reg n"
      "encodableFieldsFromType \<Gamma> (TStruct n) = Ok fs"
      "\<forall>f\<in>set fs. epos f < length vs \<and> carried \<Gamma> reg (ftype (efield f)) (vs ! epos f)"
      "zeros \<Gamma> (map ftype (sfields (\<Gamma> n))) = Some zs" "length vs = length zs"
      "\<forall>i<length vs. i \<in> epos ` set fs \<or> vs ! i = zs ! i"
proof (cases v)
  case (VPtr e w)
  with assms show thesis by (cases w) (auto simp: carried.simps intro: nil ptr)
next
  case (VSlice n e ws)
  with assms show thesis by (intro slice [of n e ws]) (simp_all add: carried.simps)
next
  case (VMap n kt vt kvs)
  with assms show thesis by (intro dict [of n kt vt kvs]) (simp_all add: carried.simps)
next
  case (VStruct n vs)
  note a = assms [unfolded VStruct carried.simps]
  from a obtain fs where fs: "encodableFieldsFromType \<Gamma> (TStruct n) = Ok fs" by (auto split: outcome.splits)
  with a obtain zs where "zeros \<Gamma> (map ftype (sfields (\<Gamma> n))) = Some zs" by (auto split: option.splits)
  with a VStruct fs show thesis by (intro struct [of n vs fs zs]) (auto split: if_split_asm)
qed (use assms plain in \<open>simp_all add: carried.simps\<close>)

section \<open>What was encoded comes back\<close>

lemma carried_comes_back:
  assumes ord: "is_order ord" and inst: "inst = decodeIntoInstance rt \<Gamma> reg ord"
  shows "carried \<Gamma> reg t v \<Longrightarrow>
    \<exists>w. canon inst \<Gamma> v = Ok w \<and> (\<forall>z. zeros \<Gamma> [t] = Some [z] \<longrightarrow> fills rt \<Gamma> t w v z) \<and> (is_message t \<longrightarrow> item_of t w v)"
proof (induction "size v" arbitrary: t v rule: less_induct)
  case less
  have items: "\<exists>w. canon inst \<Gamma> x = Ok w \<and> item_of e w x"
    if "size x < size v" "if is_message e then carried \<Gamma> reg e x else plain e x" for e x
    using that less.hyps [of x e] canon_exact [of x inst \<Gamma>]
    by (cases "is_message e") (auto simp: item_of_def plain_def)
  from less.prems show ?case
  proof (cases rule: carried_cases)
    case plain
    then show ?thesis using canon_exact [of v inst \<Gamma>] fills_plain [OF plain, of rt \<Gamma>] plain_not_message
      by (auto simp: plain_def)
  next
    case (nil e)
    have "canon inst \<Gamma> v = Ok VNil" unfolding nil by (subst canon.simps) simp
    with nil show ?thesis by (auto simp: zeros_ptr fills_nil is_message_def)
  next
    case (ptr e w)
    then obtain w' where w': "canon inst \<Gamma> w = Ok w'" "item_of e w' w" using items [of w e] by auto
    then have "canon inst \<Gamma> v = Ok w'" "fills rt \<Gamma> t w' v z" for z unfolding ptr(1,2)
      using canon_ptr [of w inst \<Gamma> e] exact_direct [of w] fills_ptr [of e w rt \<Gamma>] fills_ptr_message [of rt \<Gamma>]
      by (auto simp: item_of_def plain_def split: if_splits)
    then show ?thesis using ptr(2) by (auto simp: is_message_def)
  next
    case (slice n e ws)
    have "\<exists>ds. seqO (map (canon inst \<Gamma>) ws) = Ok ds \<and> list_all2 (item_of e) ds ws"
      using slice size_in_list by (intro canon_items items) auto
    then obtain ds where ds: "seqO (map (canon inst \<Gamma>) ws) = Ok ds" "list_all2 (item_of e) ds ws" by blast
    have "canon inst \<Gamma> v = Ok (VSlice None TAny ds)" unfolding slice(1) using ds(1) by (subst canon.simps) simp
    with fills_slice [OF slice(2-4) ds(2), of rt \<Gamma>] slice(1,2) show ?thesis by (cases n) (auto simp: is_message_def)
  next
    case (dict n kt vt kvs)
    have "\<exists>ds. seqO (map (canon inst \<Gamma>) (map snd kvs)) = Ok ds \<and> list_all2 (item_of vt) ds (map snd kvs)"
      using dict size_in_pairs by (intro canon_items items) fastforce+
    then obtain ds where ds: "seqO (map (canon inst \<Gamma>) (map snd kvs)) = Ok ds" "list_all2 (item_of vt) ds (map snd kvs)" by blast
    have "seqO (map (\<lambda>(k, w). canon inst \<Gamma> k) kvs) = Ok (map decoded (map fst kvs))"
      using dict(3) canon_exact by (auto simp: plain_def seqO_eq_Ok_iff)
    then have "canon inst \<Gamma> v = Ok (VEncodedMap (map decoded (map fst kvs)) ds)"
      unfolding dict(1) using ds(1) by (subst canon.simps) (simp add: comp_def case_prod_unfold)
    with fills_map [OF dict(2,3) ds(2) dict(5), of rt \<Gamma>] dict(1,2) show ?thesis by (cases n) (auto simp: is_message_def)
  next
    case (struct n vs fs zs)
    have "\<exists>w. canon inst \<Gamma> (vs ! epos f) = Ok w \<and> fills rt \<Gamma> (ftype (efield f)) w (vs ! epos f) (zs ! epos f)"
      if f: "f \<in> set fs" for f
    proof -
      have "zeros \<Gamma> [ftype (efield f)] = Some [zs ! epos f]"
        using zeros_nth [OF struct(6), of "epos f"] encodableFields_Ok(2) [OF struct(4) f] by simp
      then show ?thesis using less.hyps [of "vs ! epos f" "ftype (efield f)"] struct(1,5) f size_in_list [OF nth_mem]
        by auto
    qed
    then obtain w where "\<forall>f \<in> set fs. canon inst \<Gamma> (vs ! epos f) = Ok (w f) \<and>
        fills rt \<Gamma> (ftype (efield f)) (w f) (vs ! epos f) (zs ! epos f)" by metis
    then have "canon inst \<Gamma> v = Ok (VPtr (TStruct n) (Some v))"
      unfolding struct(1) using struct(5) by (intro canon_message [OF struct(3) ord struct(4) _ struct(6-8) inst]) auto
    with struct(1,2) show ?thesis by (auto simp: fills_message item_of_def)
  qed
qed

text \<open>A registered message whose fields hold such values is decoded as a pointer to an equal message.\<close>

lemma message_comes_back:
  assumes "is_order ord" and "carried \<Gamma> reg (TStruct n) (VStruct n vs)"
  shows "canon (decodeIntoInstance rt \<Gamma> reg ord) \<Gamma> (VStruct n vs) = Ok (VPtr (TStruct n) (Some (VStruct n vs)))"
  using carried_comes_back [OF assms(1) refl assms(2), of rt] by (auto simp: is_message_def item_of_def)

text \<open>A void value for a field that is not a pointer makes the decoder panic: \<^verbatim>\<open>setValue\<close> asks the zero \<^verbatim>\<open>reflect.Value\<close> for its type. Any
  peer can send one, and a nil interface field encodes to one.\<close>

lemma nil_field_panics:
  assumes "reg sid = Some k" and "structType k = TStruct n" and "zeros \<Gamma> (map ftype (sfields (\<Gamma> n))) = Some zs"
    and "fieldByIndex (kfields k) i = Some fd" and "kind_of (ftype (efield fd)) \<noteq> KPtr" and "is_order ord"
  shows "decodeIntoInstance rt \<Gamma> reg ord sid [(i, VNil)] = Panic ''reflect: call of reflect.Value.Type on zero Value''"
proof -
  have "length (ord [(i, VNil)]) = 1" "set (ord [(i, VNil)]) = {(i, VNil)}" using assms(6) by (simp_all add: is_order_def)
  then have "ord [(i, VNil)] = [(i, VNil)]" by (cases "ord [(i, VNil)]") auto
  with assms show ?thesis by (simp add: decodeIntoInstance_def zeros_struct setValue.simps valueType_def)
qed

end
