(* ===== verification/Proto_Ends.thy ===== *)
theory Proto_Ends
  imports Proto_Instance
begin

text \<open>
  Decoding from a source whose end is reported: DecodeAny returns a value or an error, or panics on a length it cannot
  allocate or on a field it cannot set; it never waits.
\<close>

section \<open>Instances\<close>

lemma bindO_Blocks_iff: "bindO m f = Blocks \<longleftrightarrow> m = Blocks \<or> (\<exists>x. m = Ok x \<and> f x = Blocks)"
  by (cases m) auto

lemma seqO_Blocks: "seqO ms = Blocks \<Longrightarrow> Blocks \<in> set ms"
  by (induction ms) (auto simp: bindO_Blocks_iff)

lemma reflect_not_Blocks [simp]:
  "convert rt \<Gamma> v t \<noteq> Blocks" "assign rt t v \<noteq> Blocks" "value_Elem v \<noteq> Blocks" "valueType v \<noteq> Blocks"
  "isConvertible rt \<Gamma> u t \<noteq> Blocks"
proof -
  have "slice_to_array t v \<noteq> Blocks" for t v by (auto simp: slice_to_array_def split: gotype.split)
  then show "convert rt \<Gamma> v t \<noteq> Blocks"
    by (auto simp: convert_def Let_def bindO_Blocks_iff split: option.split goval.split)
  show "assign rt t v \<noteq> Blocks" by (auto simp: assign_def split: option.split)
  show "value_Elem v \<noteq> Blocks" by (cases v rule: value_Elem.cases) auto
  show "valueType v \<noteq> Blocks" by (auto simp: valueType_def split: option.split)
  show "isConvertible rt \<Gamma> u t \<noteq> Blocks" by (auto simp: isConvertible_def split: option.split)
qed

lemma value_Elem_Blocks [simp]: "Blocks \<noteq> value_Elem v"
  using reflect_not_Blocks(3) [of v] by metis

lemma item_Elems_not_Blocks: "it \<in> set (item_Elems v) \<Longrightarrow> it \<noteq> Blocks"
  by (cases v rule: item_Elems.cases) auto

lemma convItem_not_Blocks: "it \<noteq> Blocks \<Longrightarrow> convItem m it \<noteq> Blocks"
  by (auto simp: convItem_def bindO_Blocks_iff)

lemma allConvertible_not_Blocks: "(\<And>it. it \<in> set items \<Longrightarrow> it \<noteq> Blocks) \<Longrightarrow> allConvertible rt \<Gamma> t items \<noteq> Blocks"
  by (induction items) (auto simp: bindO_Blocks_iff)

lemma convertSlice_not_Blocks: "convertSlice rt \<Gamma> v t \<noteq> Blocks"
proof -
  have "allConvertible rt \<Gamma> u (map (convItem m) (item_Elems v)) \<noteq> Blocks" for u m
    by (rule allConvertible_not_Blocks) (auto dest: item_Elems_not_Blocks convItem_not_Blocks)
  moreover have "seqO (map (\<lambda>it. bindO (convItem m it) (\<lambda>w. convert rt \<Gamma> w u)) (item_Elems v)) \<noteq> Blocks" for u m
  proof
    assume "seqO (map (\<lambda>it. bindO (convItem m it) (\<lambda>w. convert rt \<Gamma> w u)) (item_Elems v)) = Blocks"
    then obtain it where "it \<in> set (item_Elems v)" "bindO (convItem m it) (\<lambda>w. convert rt \<Gamma> w u) = Blocks"
      by (force dest: seqO_Blocks)
    then show False using item_Elems_not_Blocks [of it v] convItem_not_Blocks [of it m] by (simp add: bindO_Blocks_iff)
  qed
  moreover have "hd (item_Elems v) \<noteq> Blocks" if "item_Elems v \<noteq> []" using item_Elems_not_Blocks hd_in_set [OF that] by blast
  ultimately show ?thesis
    by (auto simp: convertSlice_def Let_def bindO_Blocks_iff split: list.splits)
qed

lemma makeMap_not_Blocks: "makeMap rt \<Gamma> em t \<noteq> Blocks"
proof -
  have "allConvertibleTo rt \<Gamma> u vs \<noteq> Blocks" for u vs by (induction vs) (auto simp: bindO_Blocks_iff)
  moreover have "convertTo rt \<Gamma> v u \<noteq> Blocks" for v u by (auto simp: convertTo_def pointerTo_def bindO_Blocks_iff)
  then have "fillMap rt \<Gamma> kt vt ks vs m \<noteq> Blocks" for kt vt ks vs m
    by (induction rt \<Gamma> kt vt ks vs m rule: fillMap.induct) (auto simp: bindO_Blocks_iff setMapIndex_def)
  ultimately show ?thesis by (auto simp: makeMap_def Let_def bindO_Blocks_iff split: option.split)
qed

lemma setStructField_not_Blocks: "setStructField rt into fd v \<noteq> Blocks"
  by (simp add: setStructField_def bindO_Blocks_iff)

lemma setValue_not_Blocks: "setValue rt \<Gamma> into fd v \<noteq> Blocks"
proof (induction rt \<Gamma> into fd v rule: setValue.induct)
  case (1 rt \<Gamma> into fd rv)
  show ?case using "1.IH" setStructField_not_Blocks convertSlice_not_Blocks makeMap_not_Blocks
    by (subst setValue.simps) (auto simp: Let_def bindO_Blocks_iff setOrLeave_def split: option.splits)
qed

lemma decodeIntoInstance_not_Blocks: "decodeIntoInstance rt \<Gamma> reg ord sid fds \<noteq> Blocks"
proof -
  have "setFields rt \<Gamma> fs d inst \<noteq> Blocks" for fs d inst
    by (induction rt \<Gamma> fs d inst rule: setFields.induct) (auto simp: bindO_Blocks_iff setValue_not_Blocks split: option.split)
  then show ?thesis
    by (auto simp: decodeIntoInstance_def bindO_Blocks_iff split: option.split list.split goval.split)
qed

section \<open>Decoding\<close>

definition nowait :: "'a outcome \<times> reader \<Rightarrow> bool" where
  "nowait p \<longleftrightarrow> fst p \<noteq> Blocks \<and> ends (snd p)"

lemma nowait_bindR: "nowait p \<Longrightarrow> (\<And>x r. p = (Ok x, r) \<Longrightarrow> ends r \<Longrightarrow> nowait (f x r)) \<Longrightarrow> nowait (bindR p f)"
  by (cases p rule: outcome_pair_cases) (auto simp: nowait_def)

lemma nowait_returns: "returns (fst p) \<and> ends (snd p) \<Longrightarrow> nowait p"
  by (cases "fst p") (auto simp: nowait_def)

lemma nowait_pure: "ends r \<Longrightarrow> nowait (Ok x, r)" "ends r \<Longrightarrow> nowait (Fail e, r)" "ends r \<Longrightarrow> nowait (Panic m, r)"
  "ends r \<Longrightarrow> nowait (makeslice k n, r)"
  by (simp_all add: nowait_def makeslice_def)

lemma nowaitD: "nowait (out, r) \<Longrightarrow> out \<noteq> Blocks \<and> ends r"
  by (simp add: nowait_def)

lemma Read_nowait: "ends r \<Longrightarrow> nowait (Read n r)"
  by (simp add: nowait_returns Read_ends)

lemma ReadFull_nowait: "ends r \<Longrightarrow> nowait (ReadFull n r)"
  by (simp add: nowait_returns ReadFull_ends)

lemma readType_nowait: "ends r \<Longrightarrow> nowait (readType r)"
  unfolding readType_def Let_def by (auto intro!: nowait_bindR nowait_pure Read_nowait)

lemma decodeUint64_nowait: "ends r \<Longrightarrow> nowait (decodeUint64 r)"
proof -
  have "ends r \<Longrightarrow> nowait (decodeUint64_loop x s r)" for x s
  proof (induction x s r rule: decodeUint64_loop.induct)
    case (1 x s r)
    show ?case
      by (subst decodeUint64_loop.simps, rule nowait_bindR)
        (use "1.prems" "1.IH" in \<open>auto intro: Read_nowait nowait_pure simp: Let_def\<close>)
  qed
  then show "ends r \<Longrightarrow> nowait (decodeUint64 r)" by (simp add: decodeUint64_def)
qed

lemma Uint_nowait: "ends r \<Longrightarrow> nowait (Uint32 d, r)" "ends r \<Longrightarrow> nowait (Uint64 d, r)"
  by (auto simp: nowait_def elim: Uint32.elims Uint64.elims)

lemma scalars_nowait:
  "ends r \<Longrightarrow> nowait (decodeScalar h r)" "ends r \<Longrightarrow> nowait (decodeString h r)" "ends r \<Longrightarrow> nowait (decodeBytes h r)"
  "ends r \<Longrightarrow> nowait (decodeFloat h r)"
  unfolding decodeScalar_def decodeString_def decodeBytes_def decodeFloat_def read_into_def Let_def
  by (auto intro!: nowait_bindR nowait_pure Read_nowait ReadFull_nowait decodeUint64_nowait Uint_nowait)

lemma ends_underlying: "ends r \<Longrightarrow> ends (underlying r)"
  by (cases r) auto

lemmas decoders_nowait = readType_nowait decodeUint64_nowait scalars_nowait

lemma decode_nowait:
  "ends r \<Longrightarrow> \<forall>sid fds. inst sid fds \<noteq> Blocks \<Longrightarrow> nowait (DecodeAny inst r)"
  "ends r \<Longrightarrow> \<forall>sid fds. inst sid fds \<noteq> Blocks \<Longrightarrow> nowait (decodeArray inst h r)"
  "ends r \<Longrightarrow> \<forall>sid fds. inst sid fds \<noteq> Blocks \<Longrightarrow> nowait (decodeMap inst h r)"
  "ends r \<Longrightarrow> \<forall>sid fds. inst sid fds \<noteq> Blocks \<Longrightarrow> nowait (decodeStruct inst r)"
  "ends r \<Longrightarrow> \<forall>sid fds. inst sid fds \<noteq> Blocks \<Longrightarrow> nowait (decodeItems inst n r)"
  "ends r \<Longrightarrow> \<forall>sid fds. inst sid fds \<noteq> Blocks \<Longrightarrow> nowait (decodeFields inst fds r)"
proof (induction inst r and inst h r and inst h r and inst r and inst n r and inst fds r
    rule: DecodeAny_decodeArray_decodeMap_decodeStruct_decodeItems_decodeFields.induct)
  case (1 inst r)
  show ?case unfolding DecodeAny.simps [of inst r] Let_def
    by (rule nowait_bindR, rule decoders_nowait)
      (use 1 in \<open>auto intro!: nowait_bindR nowait_pure decoders_nowait\<close>)
next
  case (2 inst header r)
  then show ?case unfolding decodeArray.simps [of inst header r] by (auto intro!: nowait_bindR nowait_pure decoders_nowait)
next
  case (3 inst header r)
  then show ?case unfolding decodeMap.simps [of inst header r] by (auto intro!: nowait_bindR nowait_pure decoders_nowait)
next
  case (4 inst r)
  show ?case unfolding decodeStruct.simps [of inst r]
  proof (rule nowait_bindR)
    show "nowait (readType r)" using 4 by (auto intro: decoders_nowait)
  next
    fix tb r1
    assume tb: "readType r = (Ok tb, r1)" "ends r1"
    have "nowait (case decodeFields inst [] (Limit r3 (sint len)) of
             (Ok fds, r') \<Rightarrow> (inst sid fds, underlying r')
           | (Fail e, r') \<Rightarrow> (Fail e, underlying r')
           | (Panic m, r') \<Rightarrow> (Panic m, underlying r')
           | (Blocks, r') \<Rightarrow> (Blocks, underlying r'))"
      if "fst tb = TypeString" "decodeString (snd tb) r1 = (Ok sid, r2)" "decodeUint64 r2 = (Ok len, r3)" "ends r3" for sid r2 len r3
    proof -
      have "nowait (decodeFields inst [] (Limit r3 (sint len)))" using "4.IH" [OF tb(1)] that "4.prems"(2) by fastforce
      then show ?thesis
        using "4.prems"(2) by (auto simp: nowait_def ends_underlying split: prod.splits outcome.splits)
    qed
    with tb(2) show "nowait (if fst tb \<noteq> TypeString then (Fail (Errorf ''cannot decode struct: expected string''), r1)
       else bindR (decodeString (snd tb) r1) (\<lambda>sid r.
         bindR (decodeUint64 r) (\<lambda>bytesLen r.
           case decodeFields inst [] (Limit r (sint bytesLen)) of
             (Ok fds, r') \<Rightarrow> (inst sid fds, underlying r')
           | (Fail e, r') \<Rightarrow> (Fail e, underlying r')
           | (Panic m, r') \<Rightarrow> (Panic m, underlying r')
           | (Blocks, r') \<Rightarrow> (Blocks, underlying r'))))"
      by (auto intro!: nowait_bindR nowait_pure decoders_nowait)
  qed
next
  case (5 inst n r)
  then show ?case unfolding decodeItems.simps [of inst n r]
    by (auto intro!: nowait_bindR nowait_pure split: nat.split)
next
  case (6 inst fds r)
  have "nowait (decodeUint64 r)" using 6 by (auto intro: decoders_nowait)
  then show ?case unfolding decodeFields.simps [of inst fds r]
    using 6 by (cases "decodeUint64 r" rule: outcome_pair_cases) (auto intro!: nowait_bindR nowait_pure dest: nowaitD)
qed

text \<open>With the instantiation of the program, decoding never waits.\<close>

lemma DecodeAny_instance_nowait: "ends r \<Longrightarrow> nowait (DecodeAny (decodeIntoInstance rt \<Gamma> reg ord) r)"
  by (rule decode_nowait) (simp_all add: decodeIntoInstance_not_Blocks)

end
