(* ===== verification/Fair_Mutex.thy ===== *)
theory Fair_Mutex
  imports Prelude
begin

text \<open>
  \<^verbatim>\<open>src/wire/fair_mutex.go\<close>: a channel of capacity one as a mutex. A goroutine locks it by sending to the channel and unlocks
  it by receiving. The runtime keeps the goroutines that wait to send in a queue; a receive from the full channel lets
  the first of them put its element into the buffer.
\<close>

section \<open>The mutex\<close>

record fairMutex =
  queueLen :: nat
  sendq :: "nat list"

definition queueCap :: nat where
  "queueCap = 1"

definition NewFairMutex :: fairMutex where
  "NewFairMutex = \<lparr>queueLen = 0, sendq = []\<rparr>"

definition Lock :: "nat \<Rightarrow> fairMutex \<Rightarrow> unit outcome \<times> fairMutex" where
  "Lock g m =
     (if queueLen m < queueCap then (Ok (), m\<lparr>queueLen := queueLen m + 1\<rparr>)
      else (Blocks, m\<lparr>sendq := sendq m @ [g]\<rparr>))"

definition Unlock :: "fairMutex \<Rightarrow> unit outcome \<times> fairMutex" where
  "Unlock m =
     (if queueLen m = 0 then (Blocks, m)
      else case sendq m of
        [] \<Rightarrow> (Ok (), m\<lparr>queueLen := queueLen m - 1\<rparr>)
      | g # gs \<Rightarrow> (Ok (), m\<lparr>sendq := gs\<rparr>))"

section \<open>Goroutines that use it\<close>

text \<open>\<open>holders\<close> are the goroutines whose Lock has returned and that have not unlocked, \<open>asked\<close> and \<open>granted\<close> the calls of Lock
  and their returns, in order. A goroutine that waits in Lock makes no call; the holder unlocks.\<close>

record mutexSys =
  mu :: fairMutex
  holders :: "nat list"
  asked :: "nat list"
  granted :: "nat list"

definition mutex_init :: mutexSys where
  "mutex_init = \<lparr>mu = NewFairMutex, holders = [], asked = [], granted = []\<rparr>"

inductive mutex_step :: "mutexSys \<Rightarrow> mutexSys \<Rightarrow> bool" where
  lock_now: "g \<notin> set (sendq (mu s)) \<Longrightarrow> Lock g (mu s) = (Ok (), m) \<Longrightarrow>
     mutex_step s (s\<lparr>mu := m, holders := g # holders s, asked := asked s @ [g], granted := granted s @ [g]\<rparr>)"
| lock_wait: "g \<notin> set (sendq (mu s)) \<Longrightarrow> Lock g (mu s) = (Blocks, m) \<Longrightarrow>
     mutex_step s (s\<lparr>mu := m, asked := asked s @ [g]\<rparr>)"
| unlock: "g \<in> set (holders s) \<Longrightarrow> Unlock (mu s) = (Ok (), m) \<Longrightarrow>
     mutex_step s (s\<lparr>mu := m, holders := take 1 (sendq (mu s)) @ remove1 g (holders s),
                     granted := granted s @ take 1 (sendq (mu s))\<rparr>)"

inductive_cases mutex_stepE: "mutex_step s s'"

definition mutex_inv :: "mutexSys \<Rightarrow> bool" where
  "mutex_inv s \<longleftrightarrow> queueLen (mu s) = length (holders s) \<and> length (holders s) \<le> queueCap \<and>
     asked s = granted s @ sendq (mu s) \<and> (sendq (mu s) \<noteq> [] \<longrightarrow> holders s \<noteq> [])"

lemma mutex_inv_init: "mutex_inv mutex_init"
  by (simp add: mutex_inv_def mutex_init_def NewFairMutex_def)

lemma mutex_inv_step: "mutex_step s s' \<Longrightarrow> mutex_inv s \<Longrightarrow> mutex_inv s'"
proof (induction rule: mutex_step.induct)
  case (unlock g s m)
  then have "holders s = [g]" by (cases "holders s") (auto simp: mutex_inv_def queueCap_def)
  with unlock show ?case by (auto simp: mutex_inv_def Unlock_def queueCap_def split: list.splits if_splits)
qed (auto simp: mutex_inv_def Lock_def queueCap_def split: if_splits)

lemma mutex_reach_inv: "mutex_step\<^sup>*\<^sup>* mutex_init s \<Longrightarrow> mutex_inv s"
  by (induction rule: rtranclp_induct) (auto intro: mutex_inv_init mutex_inv_step)

text \<open>A goroutine that waits gets the mutex after as many calls of Unlock as there are goroutines before it, and the holder.\<close>

lemma mutex_granted_after:
  assumes "mutex_inv s" and "sendq (mu s) = gs @ g # hs"
  shows "\<exists>s'. (mutex_step ^^ Suc (length gs)) s s' \<and> holders s' = [g]"
  using assms
proof (induction gs arbitrary: s)
  case Nil
  then obtain h where "holders s = [h]" "queueLen (mu s) = 1"
    by (cases "holders s") (auto simp: mutex_inv_def queueCap_def)
  then have "mutex_step s (s\<lparr>mu := (mu s)\<lparr>sendq := hs\<rparr>, holders := [g], granted := granted s @ [g]\<rparr>)"
    using Nil mutex_step.unlock [of h s "(mu s)\<lparr>sendq := hs\<rparr>"] by (simp add: Unlock_def)
  then show ?case by (intro exI) auto
next
  case (Cons k gs)
  then obtain h where h: "holders s = [h]" "queueLen (mu s) = 1"
    by (cases "holders s") (auto simp: mutex_inv_def queueCap_def)
  let ?s = "s\<lparr>mu := (mu s)\<lparr>sendq := gs @ g # hs\<rparr>, holders := [k], granted := granted s @ [k]\<rparr>"
  have step: "mutex_step s ?s"
    using h Cons.prems mutex_step.unlock [of h s "(mu s)\<lparr>sendq := gs @ g # hs\<rparr>"] by (simp add: Unlock_def)
  from mutex_inv_step [OF step Cons.prems(1)] Cons.IH [of ?s]
  obtain s' where "(mutex_step ^^ Suc (length gs)) ?s s'" "holders s' = [g]" by auto
  with step show ?case using relpowp_Suc_I2 [of mutex_step s ?s "Suc (length gs)" s'] by auto
qed

end
