(* ===== verification/Wire_Writers.thy ===== *)
theory Wire_Writers
  imports Wire_Conn
begin

text \<open>
  The goroutines behind \<^verbatim>\<open>Conn.Write\<close> (\<^verbatim>\<open>src/wire/conn.go\<close>): any number of calls of Write, the goroutine of
  \<^verbatim>\<open>serviceWrites\<close>, and the rest of the connection, which may fail, terminate or switch compression on at any moment. The
  objects that travel through the channel live in a store, since they come from a pool that all connections of the
  program share and go back to it. The theory shows that the interleavings act like writes that happen one at a time, which
  is how the other theories model Write, and what the code loses by reading an object after it has answered.
\<close>

section \<open>Objects, calls and the servicing goroutine\<close>

text \<open>A frame pointer is a number with the frame it points to; the channel that a call makes has the number of the call.\<close>

record outboundFrame =
  oframe :: "(nat \<times> frame) option"
  oresult :: "nat option"

text \<open>Where a call of Write is: before Get, holding its object, waiting for the answer, or back (a panic included).\<close>

datatype callPC = Called | Holding nat | Waiting nat | Returned "unit outcome"

record writeCall =
  cptr :: nat
  cframe :: frame
  cpc :: callPC

text \<open>Where \<^verbatim>\<open>serviceWrites\<close> is: at the head of its loop, with an object it has received, with the result it is about to
  send, before the comparison with \<^verbatim>\<open>terminateAfter\<close>, after the loop, or dead.\<close>

datatype servicePC = Ranging | Have nat | Answering nat "unit outcome" | Checking nat | Ended | Panicked

text \<open>\<open>objs\<close> is the store of the objects (below \<open>nextObj\<close>), \<open>pool\<close> the free ones, \<open>foreign\<close> those in use by other connections;
  \<open>results\<close> are the contents of the result channels. \<open>sentBy\<close> and \<open>handled\<close> record the calls in the order in which they sent to the channel, and
  in which they were handled, with their results.\<close>

record writers =
  wconn :: Conn
  objs :: "nat \<Rightarrow> outboundFrame"
  nextObj :: nat
  pool :: "nat list"
  foreign :: "nat list"
  toWrite :: "nat list"
  wcalls :: "nat \<Rightarrow> writeCall option"
  results :: "nat \<Rightarrow> unit outcome option"
  service :: servicePC
  sentBy :: "nat list"
  handled :: "(nat \<times> unit outcome) list"

definition toWriteCap :: nat where
  "toWriteCap = 128"

definition writers_init :: "Conn \<Rightarrow> writers" where
  "writers_init c =
     \<lparr>wconn = c, objs = (\<lambda>_. \<lparr>oframe = None, oresult = None\<rparr>), nextObj = 0, pool = [], foreign = [], toWrite = [],
      wcalls = (\<lambda>_. None), results = (\<lambda>_. None), service = Ranging, sentBy = [], handled = []\<rparr>"

definition set_pc :: "nat \<Rightarrow> writeCall \<Rightarrow> callPC \<Rightarrow> writers \<Rightarrow> writers" where
  "set_pc w k pc s = s\<lparr>wcalls := (wcalls s)(w \<mapsto> k\<lparr>cpc := pc\<rparr>)\<rparr>"

section \<open>The steps of Write\<close>

text \<open>A call begins with a frame of its own; \<^verbatim>\<open>goAway\<close> with \<^verbatim>\<open>terminate\<close> set first makes it the last frame.\<close>

definition Write_call :: "nat \<Rightarrow> frame \<Rightarrow> bool \<Rightarrow> writers \<Rightarrow> writers option" where
  "Write_call w fr final s =
     (case wcalls s w of
        Some k \<Rightarrow> None
      | None \<Rightarrow>
          let p = nextPtr (wconn s); c = (wconn s)\<lparr>nextPtr := Suc p\<rparr>
          in Some (s\<lparr>wconn := (if final then c\<lparr>terminateAfter := Some p\<rparr> else c),
                     wcalls := (wcalls s)(w \<mapsto> \<lparr>cptr = p, cframe = fr, cpc = Called\<rparr>)\<rparr>))"

text \<open>\<^verbatim>\<open>sync.Pool\<close> hands out any of its objects, or a new one; the call fills it in.\<close>

definition Write_get :: "nat \<Rightarrow> nat \<Rightarrow> writers \<Rightarrow> writers option" where
  "Write_get w a s =
     (case wcalls s w of
        None \<Rightarrow> None
      | Some k \<Rightarrow>
          if cpc k \<noteq> Called \<or> a \<notin> set (pool s) \<and> a \<noteq> nextObj s then None
          else Some (set_pc w k (Holding a)
            (s\<lparr>pool := remove1 a (pool s), nextObj := (if a = nextObj s then Suc a else nextObj s),
               objs := (objs s)(a := \<lparr>oframe = Some (cptr k, cframe k), oresult = Some w\<rparr>)\<rparr>)))"

text \<open>\<^verbatim>\<open>c.toWrite <- out\<close>: it waits while the channel is full, and panics once it is closed; the deferred Put runs in either
  case.\<close>

definition Write_send :: "nat \<Rightarrow> writers \<Rightarrow> writers option" where
  "Write_send w s =
     (case wcalls s w of
        None \<Rightarrow> None
      | Some k \<Rightarrow>
          (case cpc k of
             Holding a \<Rightarrow>
               if toWriteClosed (wconn s)
               then Some (set_pc w k (Returned (Panic ''send on closed channel'')) (s\<lparr>pool := a # pool s\<rparr>))
               else if length (toWrite s) < toWriteCap
               then Some (set_pc w k (Waiting a) (s\<lparr>toWrite := toWrite s @ [a], sentBy := sentBy s @ [w]\<rparr>))
               else None
           | _ \<Rightarrow> None))"

text \<open>\<^verbatim>\<open>return <-err\<close>, and the deferred Put.\<close>

definition Write_return :: "nat \<Rightarrow> writers \<Rightarrow> writers option" where
  "Write_return w s =
     (case wcalls s w of
        None \<Rightarrow> None
      | Some k \<Rightarrow>
          (case (cpc k, results s w) of
             (Waiting a, Some r) \<Rightarrow>
               Some (set_pc w k (Returned r) (s\<lparr>results := (results s)(w := None), pool := a # pool s\<rparr>))
           | _ \<Rightarrow> None))"

section \<open>The steps of serviceWrites\<close>

text \<open>Receiving from the channel; a closed channel is drained first.\<close>

definition service_receive :: "writers \<Rightarrow> writers option" where
  "service_receive s =
     (if service s \<noteq> Ranging then None
      else case toWrite s of
        a # as \<Rightarrow> Some (s\<lparr>toWrite := as, service := Have a\<rparr>)
      | [] \<Rightarrow> if toWriteClosed (wconn s) then Some (s\<lparr>service := Ended\<rparr>) else None)"

text \<open>The error of the connection, or serialising and copying the frame.\<close>

definition copyFrame :: "flate \<Rightarrow> frame \<Rightarrow> Conn \<Rightarrow> unit outcome \<times> Conn" where
  "copyFrame z fr c =
     (case cerr c of
        Some e \<Rightarrow> (Fail e, c)
      | None \<Rightarrow> bindR (fst (Bytes z (compression c) fr), c) (\<lambda>d c.
          let (out, io) = io_Write d (cio c) in (out, c\<lparr>cio := io\<rparr>)))"

definition service_write :: "flate \<Rightarrow> writers \<Rightarrow> writers option" where
  "service_write z s =
     (case service s of
        Have a \<Rightarrow>
          (case (oframe (objs s a), oresult (objs s a)) of
             (Some (p, fr), Some w) \<Rightarrow>
               let (r, c) = copyFrame z fr (wconn s) in
               if returns r
               then Some (s\<lparr>wconn := c, service := Answering a r, handled := handled s @ [(w, r)]\<rparr>)
               else Some (s\<lparr>wconn := c, service := Panicked\<rparr>)
           | _ \<Rightarrow> Some (s\<lparr>service := Panicked\<rparr>))
      | _ \<Rightarrow> None)"

text \<open>\<^verbatim>\<open>out.result <- err\<close>. After a success the loop goes on to the comparison.\<close>

definition service_answer :: "writers \<Rightarrow> writers option" where
  "service_answer s =
     (case service s of
        Answering a r \<Rightarrow>
          (case oresult (objs s a) of
             Some w \<Rightarrow>
               if results s w = None
               then Some (s\<lparr>results := (results s)(w \<mapsto> r), service := (if is_Ok r then Checking a else Ranging)\<rparr>)
               else None
           | None \<Rightarrow> None)
      | _ \<Rightarrow> None)"

text \<open>\<^verbatim>\<open>if out.frame == c.terminateAfter\<close>: the object is read again, as it is now.\<close>

definition service_check :: "writers \<Rightarrow> writers option" where
  "service_check s =
     (case service s of
        Checking a \<Rightarrow>
          Some (s\<lparr>wconn := (if map_option fst (oframe (objs s a)) = terminateAfter (wconn s) then terminate (wconn s) else wconn s),
                  service := Ranging\<rparr>)
      | _ \<Rightarrow> None)"

section \<open>Other connections\<close>

text \<open>The pool belongs to the package: other connections, and clients, take objects from it, fill in frames and channels of
  their own, and put them back.\<close>

definition foreign_get :: "nat \<Rightarrow> writers \<Rightarrow> writers option" where
  "foreign_get a s =
     (if a \<notin> set (pool s) \<and> a \<noteq> nextObj s then None
      else Some (s\<lparr>pool := remove1 a (pool s), nextObj := (if a = nextObj s then Suc a else nextObj s),
                   foreign := a # foreign s\<rparr>))"

definition foreign_use :: "nat \<Rightarrow> frame \<Rightarrow> writers \<Rightarrow> writers option" where
  "foreign_use a fr s =
     (if a \<notin> set (foreign s) then None
      else let p = nextPtr (wconn s) in
        Some (s\<lparr>wconn := (wconn s)\<lparr>nextPtr := Suc p\<rparr>,
                objs := (objs s)(a := \<lparr>oframe = Some (p, fr), oresult = None\<rparr>)\<rparr>))"

definition foreign_put :: "nat \<Rightarrow> writers \<Rightarrow> writers option" where
  "foreign_put a s =
     (if a \<notin> set (foreign s) then None
      else Some (s\<lparr>foreign := remove1 a (foreign s), pool := a # pool s\<rparr>))"

section \<open>All interleavings\<close>

text \<open>The rest of the connection reports an error and terminates (\<^verbatim>\<open>serviceReads\<close>, \<^verbatim>\<open>handlePing\<close>), terminates, or switches compression
  on. Each event is one step; \<open>None\<close> means that the step cannot be taken, as for a goroutine that waits.\<close>

datatype event =
    ECall nat frame bool | EGet nat nat | ESend nat | EReturn nat
  | EReceive | EWrite | EAnswer | ECheck
  | EFail goerr | ETerminate | EGzip
  | EForeignGet nat | EForeignUse nat frame | EForeignPut nat

fun exec :: "flate \<Rightarrow> event \<Rightarrow> writers \<Rightarrow> writers option" where
  "exec z (ECall w fr final) s = Write_call w fr final s"
| "exec z (EGet w a) s = Write_get w a s"
| "exec z (ESend w) s = Write_send w s"
| "exec z (EReturn w) s = Write_return w s"
| "exec z EReceive s = service_receive s"
| "exec z EWrite s = service_write z s"
| "exec z EAnswer s = service_answer s"
| "exec z ECheck s = service_check s"
| "exec z (EFail e) s = Some (s\<lparr>wconn := terminate ((wconn s)\<lparr>cerr := Some e\<rparr>)\<rparr>)"
| "exec z ETerminate s = Some (s\<lparr>wconn := terminate (wconn s)\<rparr>)"
| "exec z EGzip s = Some (s\<lparr>wconn := (wconn s)\<lparr>compression := CompressionMethodGzip\<rparr>\<rparr>)"
| "exec z (EForeignGet a) s = foreign_get a s"
| "exec z (EForeignUse a fr) s = foreign_use a fr s"
| "exec z (EForeignPut a) s = foreign_put a s"

fun execs :: "flate \<Rightarrow> event list \<Rightarrow> writers \<Rightarrow> writers option" where
  "execs z [] s = Some s"
| "execs z (e # es) s = Option.bind (exec z e s) (execs z es)"

inductive writing :: "flate \<Rightarrow> Conn \<Rightarrow> writers \<Rightarrow> bool" for z c where
  writing_start: "writing z c (writers_init c)"
| writing_step: "writing z c s \<Longrightarrow> exec z e s = Some s' \<Longrightarrow> writing z c s'"

lemma execs_writing: "execs z es s = Some s' \<Longrightarrow> writing z c s \<Longrightarrow> writing z c s'"
  by (induction es arbitrary: s) (auto split: bind_splits intro: writing_step)

section \<open>The invariant\<close>

text \<open>The objects that the servicing goroutine has still to answer, and those it has still to handle.\<close>

fun current :: "servicePC \<Rightarrow> nat list" where
  "current (Have a) = [a]"
| "current (Answering a r) = [a]"
| "current _ = []"

fun unread :: "servicePC \<Rightarrow> nat list" where
  "unread (Have a) = [a]"
| "unread _ = []"

definition unanswered :: "writers \<Rightarrow> nat list" where
  "unanswered s = current (service s) @ toWrite s"

definition owner :: "writers \<Rightarrow> nat \<Rightarrow> nat" where
  "owner s a = the (oresult (objs s a))"

definition store_ok :: "writers \<Rightarrow> bool" where
  "store_ok s \<longleftrightarrow> distinct (pool s @ foreign s) \<and> (\<forall>a\<in>set (pool s @ foreign s). a < nextObj s)"

definition owns :: "writers \<Rightarrow> nat \<Rightarrow> writeCall \<Rightarrow> nat \<Rightarrow> bool" where
  "owns s w k a \<longleftrightarrow> a < nextObj s \<and> a \<notin> set (pool s) \<and> a \<notin> set (foreign s) \<and>
     objs s a = \<lparr>oframe = Some (cptr k, cframe k), oresult = Some w\<rparr>"

fun call_ok :: "writers \<Rightarrow> nat \<Rightarrow> writeCall \<Rightarrow> callPC \<Rightarrow> bool" where
  "call_ok s w k Called \<longleftrightarrow> w \<notin> set (sentBy s) \<and> results s w = None"
| "call_ok s w k (Holding a) \<longleftrightarrow> owns s w k a \<and> w \<notin> set (sentBy s) \<and> results s w = None"
| "call_ok s w k (Waiting a) \<longleftrightarrow> owns s w k a \<and> w \<in> set (sentBy s) \<and>
     (case results s w of None \<Rightarrow> a \<in> set (unanswered s) | Some r \<Rightarrow> a \<notin> set (unanswered s) \<and> (w, r) \<in> set (handled s))"
| "call_ok s w k (Returned r) \<longleftrightarrow> results s w = None \<and>
     (w \<in> set (sentBy s) \<and> (w, r) \<in> set (handled s) \<or> w \<notin> set (sentBy s) \<and> r = Panic ''send on closed channel'')"

definition wcalls_ok :: "writers \<Rightarrow> bool" where
  "wcalls_ok s \<longleftrightarrow> (\<forall>w. case wcalls s w of None \<Rightarrow> w \<notin> set (sentBy s) \<and> results s w = None | Some k \<Rightarrow> call_ok s w k (cpc k))"

definition queue_ok :: "writers \<Rightarrow> bool" where
  "queue_ok s \<longleftrightarrow> distinct (unanswered s) \<and>
     (\<forall>a\<in>set (unanswered s). \<exists>w k. wcalls s w = Some k \<and> cpc k = Waiting a \<and> results s w = None)"

definition log_ok :: "writers \<Rightarrow> bool" where
  "log_ok s \<longleftrightarrow> sentBy s = map fst (handled s) @ map (owner s) (unread (service s) @ toWrite s) \<and> distinct (sentBy s) \<and>
     (\<forall>a r. service s = Answering a r \<longrightarrow> (owner s a, r) \<in> set (handled s))"

definition writers_inv :: "writers \<Rightarrow> bool" where
  "writers_inv s \<longleftrightarrow> store_ok s \<and> wcalls_ok s \<and> queue_ok s \<and> log_ok s \<and> service s \<noteq> Panicked \<and>
     (compression (wconn s) = CompressionMethodNone \<or> compression (wconn s) = CompressionMethodGzip)"

lemmas writers_inv_defs = writers_inv_def store_ok_def wcalls_ok_def queue_ok_def log_ok_def unanswered_def

lemma writers_inv_init:
  "compression c = CompressionMethodNone \<or> compression c = CompressionMethodGzip \<Longrightarrow> writers_inv (writers_init c)"
  by (simp add: writers_inv_def writers_init_def store_ok_def wcalls_ok_def queue_ok_def log_ok_def unanswered_def)

text \<open>What the invariant says of one call, and of an object on its way.\<close>

lemma inv_call: "writers_inv s \<Longrightarrow> wcalls s w = Some k \<Longrightarrow> call_ok s w k (cpc k)"
  by (auto simp: writers_inv_def wcalls_ok_def split: option.splits dest: spec [of _ w])

lemma inv_no_call: "writers_inv s \<Longrightarrow> wcalls s w = None \<Longrightarrow> w \<notin> set (sentBy s) \<and> results s w = None"
  by (auto simp: writers_inv_def wcalls_ok_def split: option.splits dest: spec [of _ w])

lemma inv_unanswered:
  assumes "writers_inv s" and "a \<in> set (unanswered s)"
  obtains w k where "wcalls s w = Some k" "cpc k = Waiting a" "results s w = None" "owns s w k a" "w \<in> set (sentBy s)"
    "owner s a = w"
proof -
  from assms obtain w k where wk: "wcalls s w = Some k" "cpc k = Waiting a" "results s w = None"
    unfolding writers_inv_def queue_ok_def by blast
  from inv_call [OF assms(1) wk(1)] wk have "owns s w k a" "w \<in> set (sentBy s)" by auto
  then show ?thesis using that wk by (simp add: owns_def owner_def)
qed

lemma unanswered_cong:
  "service s' = service s \<Longrightarrow> toWrite s' = toWrite s \<Longrightarrow> unanswered s' = unanswered s"
  by (simp add: unanswered_def)

lemma inv_log: "writers_inv s \<Longrightarrow> log_ok s" "writers_inv s \<Longrightarrow> store_ok s" "writers_inv s \<Longrightarrow> queue_ok s"
  "writers_inv s \<Longrightarrow> service s \<noteq> Panicked"
  "writers_inv s \<Longrightarrow> compression (wconn s) = CompressionMethodNone \<or> compression (wconn s) = CompressionMethodGzip"
  by (simp_all add: writers_inv_def)

lemma inv_sent:
  assumes "writers_inv s"
  shows "sentBy s = map fst (handled s) @ map (owner s) (unread (service s) @ toWrite s)" and "distinct (sentBy s)"
    and "service s = Answering a r \<Longrightarrow> (owner s a, r) \<in> set (handled s)"
  using assms unfolding writers_inv_def log_ok_def by blast+

lemma log_okI:
  assumes "sentBy s = map fst (handled s) @ map (owner s) (unread (service s) @ toWrite s)" and "distinct (sentBy s)"
    and "\<And>a r. service s = Answering a r \<Longrightarrow> (owner s a, r) \<in> set (handled s)"
  shows "log_ok s"
  using assms unfolding log_ok_def by blast

lemma log_ok_same:
  assumes "writers_inv s" and "sentBy s' = sentBy s"
    and "map fst (handled s') @ map (owner s') (unread (service s') @ toWrite s') =
      map fst (handled s) @ map (owner s) (unread (service s) @ toWrite s)"
    and "\<And>a r. service s' = Answering a r \<Longrightarrow> (owner s' a, r) \<in> set (handled s')"
  shows "log_ok s'"
  using assms(4) inv_sent(1,2) [OF assms(1)] unfolding log_ok_def assms(2,3) by blast

lemma writers_invI:
  assumes "store_ok s" and "wcalls_ok s" and "queue_ok s" and "log_ok s" and "service s \<noteq> Panicked"
    and "compression (wconn s) = CompressionMethodNone \<or> compression (wconn s) = CompressionMethodGzip"
  shows "writers_inv s"
  using assms by (simp add: writers_inv_def)

text \<open>A step of one call keeps what holds of the others.\<close>

lemma wcalls_okI:
  assumes "writers_inv s" and "wcalls s' = (wcalls s)(w \<mapsto> k')" and "call_ok s' w k' (cpc k')"
    and "\<And>v k. v \<noteq> w \<Longrightarrow> wcalls s v = Some k \<Longrightarrow> call_ok s v k (cpc k) \<Longrightarrow> call_ok s' v k (cpc k)"
    and "\<And>v. v \<noteq> w \<Longrightarrow> results s' v = results s v" and "set (sentBy s') \<subseteq> insert w (set (sentBy s))"
  shows "wcalls_ok s'"
  unfolding wcalls_ok_def
proof
  fix v
  show "case wcalls s' v of None \<Rightarrow> v \<notin> set (sentBy s') \<and> results s' v = None | Some k \<Rightarrow> call_ok s' v k (cpc k)"
  proof (cases "v = w")
    case True
    then show ?thesis using assms(2,3) by simp
  next
    case False
    show ?thesis
    proof (cases "wcalls s v")
      case None
      with False inv_no_call [OF assms(1) None] assms(2,5,6) show ?thesis by auto
    next
      case (Some k)
      with False inv_call [OF assms(1) Some] assms(2,4) show ?thesis by auto
    qed
  qed
qed

lemma call_ok_cong:
  assumes "call_ok s v k pc" and "\<And>a. owns s v k a \<Longrightarrow> pc = Holding a \<or> pc = Waiting a \<Longrightarrow> owns s' v k a"
    and "results s' v = results s v" and "v \<in> set (sentBy s') \<longleftrightarrow> v \<in> set (sentBy s)"
    and "set (handled s) \<subseteq> set (handled s')"
    and "\<And>a. pc = Waiting a \<Longrightarrow> a \<in> set (unanswered s') \<longleftrightarrow> a \<in> set (unanswered s)"
  shows "call_ok s' v k pc"
  using assms by (cases pc) (auto split: option.splits)

lemma queue_okI:
  assumes "writers_inv s" and "distinct (unanswered s')" and "set (unanswered s') \<subseteq> set (unanswered s)"
    and "\<And>w k a. a \<in> set (unanswered s') \<Longrightarrow> wcalls s w = Some k \<Longrightarrow> cpc k = Waiting a \<Longrightarrow> results s w = None \<Longrightarrow>
           wcalls s' w = Some k \<and> results s' w = None"
  shows "queue_ok s'"
  unfolding queue_ok_def
proof (intro conjI ballI)
  fix a
  assume a: "a \<in> set (unanswered s')"
  with assms(3) have "a \<in> set (unanswered s)" by blast
  then obtain w k where "wcalls s w = Some k" "cpc k = Waiting a" "results s w = None"
    using inv_unanswered [OF assms(1)] by metis
  with assms(4) [OF a] show "\<exists>w k. wcalls s' w = Some k \<and> cpc k = Waiting a \<and> results s' w = None" by blast
qed (rule assms(2))

text \<open>Objects on their way keep their contents, so they keep their owners.\<close>

lemma log_ok_cong:
  assumes "writers_inv s" and "\<And>a. a \<in> set (unanswered s) \<Longrightarrow> objs s' a = objs s a"
    and "sentBy s' = sentBy s" "handled s' = handled s" "service s' = service s" "toWrite s' = toWrite s"
  shows "log_ok s'"
proof -
  have eq: "owner s' a = owner s a" if "a \<in> set (unread (service s) @ toWrite s) \<or> service s = Answering a r" for a r
    using assms(2) [of a] that by (cases "service s") (auto simp: owner_def unanswered_def)
  have "map (owner s') (unread (service s) @ toWrite s) = map (owner s) (unread (service s) @ toWrite s)"
    by (rule map_cong) (use eq in blast)+
  moreover have "(owner s' a, r) \<in> set (handled s)" if "service s = Answering a r" for a r
    using eq [of a r] that inv_log(1) [OF assms(1)] by (auto simp: log_ok_def)
  ultimately show ?thesis using inv_log(1) [OF assms(1)] unfolding log_ok_def assms(3-) by metis
qed

lemma Write_call_inv:
  assumes inv: "writers_inv s" and ev: "Write_call w fr final s = Some s'"
  shows "writers_inv s'"
proof (rule writers_invI)
  from ev have new: "wcalls s w = None" by (simp add: Write_call_def split: option.splits)
  with ev obtain c p where s': "s' = s\<lparr>wconn := c, wcalls := (wcalls s)(w \<mapsto> \<lparr>cptr = p, cframe = fr, cpc = Called\<rparr>)\<rparr>"
    and c: "compression c = compression (wconn s)"
    by (auto simp: Write_call_def Let_def)
  show "store_ok s'" using inv_log(2) [OF inv] by (simp add: s' store_ok_def)
  show "log_ok s'" by (rule log_ok_cong [OF inv]) (simp_all add: s')
  show "wcalls_ok s'"
  proof (rule wcalls_okI [OF inv])
    show "call_ok s v k (cpc k) \<Longrightarrow> call_ok s' v k (cpc k)" for v k
      by (erule call_ok_cong) (simp_all add: s' owns_def unanswered_def)
  qed (use inv_no_call [OF inv new] in \<open>auto simp: s'\<close>)
  show "queue_ok s'"
    by (rule queue_okI [OF inv]) (use inv_log(3) [OF inv] new in \<open>auto simp: s' unanswered_def queue_ok_def\<close>)
  show "service s' \<noteq> Panicked"
    "compression (wconn s') = CompressionMethodNone \<or> compression (wconn s') = CompressionMethodGzip"
    using inv_log(4,5) [OF inv] c by (simp_all add: s')
qed

lemma owns_inj: "owns s v k a \<Longrightarrow> owns s w j a \<Longrightarrow> v = w"
  by (simp add: owns_def)

lemma Write_get_inv:
  assumes inv: "writers_inv s" and ev: "Write_get w a s = Some s'"
  shows "writers_inv s'"
proof (rule writers_invI)
  from ev obtain k where k: "wcalls s w = Some k" "cpc k = Called" and a: "a \<in> set (pool s) \<or> a = nextObj s"
    and s': "s' = set_pc w k (Holding a)
            (s\<lparr>pool := remove1 a (pool s), nextObj := (if a = nextObj s then Suc a else nextObj s),
               objs := (objs s)(a := \<lparr>oframe = Some (cptr k, cframe k), oresult = Some w\<rparr>)\<rparr>)"
    by (auto simp: Write_get_def split: option.splits if_splits)
  have free: "b \<noteq> a" if "owns s v j b" for v j b using that a by (auto simp: owns_def)
  have dst: "distinct (pool s)" "\<forall>b\<in>set (pool s) \<union> set (foreign s). b < nextObj s" "set (pool s) \<inter> set (foreign s) = {}"
    using inv_log(2) [OF inv] by (auto simp: store_ok_def)
  have na: "a \<notin> set (foreign s)" using a dst by auto
  show "store_ok s'" using inv_log(2) [OF inv] a by (auto simp: s' set_pc_def store_ok_def less_Suc_eq)
  show "log_ok s'"
  proof (rule log_ok_cong [OF inv])
    fix b
    assume "b \<in> set (unanswered s)"
    then have "b \<noteq> a" by (rule inv_unanswered [OF inv]) (use free in blast)
    then show "objs s' b = objs s b" by (simp add: s' set_pc_def)
  qed (simp_all add: s' set_pc_def)
  show "wcalls_ok s'"
  proof (rule wcalls_okI [OF inv])
    show "wcalls s' = (wcalls s)(w \<mapsto> k\<lparr>cpc := Holding a\<rparr>)" by (simp add: s' set_pc_def)
    show "call_ok s' w (k\<lparr>cpc := Holding a\<rparr>) (cpc (k\<lparr>cpc := Holding a\<rparr>))"
      using inv_call [OF inv k(1)] k(2) dst na a by (auto simp: s' set_pc_def owns_def)
    show "call_ok s v j (cpc j) \<Longrightarrow> call_ok s' v j (cpc j)" for v j
      by (erule call_ok_cong) (use free in \<open>auto simp: s' set_pc_def owns_def unanswered_def dest: notin_set_remove1\<close>)
  qed (auto simp: s' set_pc_def)
  show "queue_ok s'"
    by (rule queue_okI [OF inv]) (use inv_log(3) [OF inv] k in \<open>auto simp: s' set_pc_def unanswered_def queue_ok_def\<close>)
  show "service s' \<noteq> Panicked"
    "compression (wconn s') = CompressionMethodNone \<or> compression (wconn s') = CompressionMethodGzip"
    using inv_log(4,5) [OF inv] by (simp_all add: s' set_pc_def)
qed

lemma Write_send_inv:
  assumes inv: "writers_inv s" and ev: "Write_send w s = Some s'"
  shows "writers_inv s'"
proof -
  from ev obtain k a where k: "wcalls s w = Some k" "cpc k = Holding a"
    by (auto simp: Write_send_def split: option.splits callPC.splits)
  with inv_call [OF inv] have ok: "owns s w k a" "w \<notin> set (sentBy s)" "results s w = None" by fastforce+
  have fresh: "a \<notin> set (unanswered s)"
  proof
    assume "a \<in> set (unanswered s)"
    then obtain v j where "wcalls s v = Some j" "cpc j = Waiting a" "owns s v j a" by (rule inv_unanswered [OF inv])
    with owns_inj [OF ok(1)] k show False by auto
  qed
  show ?thesis
  proof (cases "toWriteClosed (wconn s)")
    case True
    with ev k have s': "s' = set_pc w k (Returned (Panic ''send on closed channel'')) (s\<lparr>pool := a # pool s\<rparr>)"
      by (simp add: Write_send_def)
    show ?thesis
    proof (rule writers_invI)
      show "store_ok s'" using inv_log(2) [OF inv] ok(1) by (auto simp: s' set_pc_def store_ok_def owns_def)
      show "log_ok s'" by (rule log_ok_cong [OF inv]) (simp_all add: s' set_pc_def)
      show "wcalls_ok s'"
      proof (rule wcalls_okI [OF inv])
        show "v \<noteq> w \<Longrightarrow> call_ok s v j (cpc j) \<Longrightarrow> call_ok s' v j (cpc j)" for v j
          by (erule call_ok_cong) (use owns_inj [OF ok(1)] in \<open>auto simp: s' set_pc_def owns_def unanswered_def\<close>)
      qed (use ok in \<open>auto simp: s' set_pc_def\<close>)
      show "queue_ok s'"
        by (rule queue_okI [OF inv]) (use inv_log(3) [OF inv] k in \<open>auto simp: s' set_pc_def unanswered_def queue_ok_def\<close>)
    qed (use inv_log(4,5) [OF inv] in \<open>simp_all add: s' set_pc_def\<close>)
  next
    case False
    with ev k have s': "s' = set_pc w k (Waiting a) (s\<lparr>toWrite := toWrite s @ [a], sentBy := sentBy s @ [w]\<rparr>)"
      by (simp add: Write_send_def split: if_splits)
    have un: "unanswered s' = unanswered s @ [a]" by (simp add: s' set_pc_def unanswered_def)
    show ?thesis
    proof (rule writers_invI)
      show "store_ok s'" using inv_log(2) [OF inv] by (simp add: s' set_pc_def store_ok_def)
      have ow: "owner s' = owner s" "owner s a = w" using ok(1) by (auto simp: s' set_pc_def owner_def owns_def)
      show "log_ok s'"
      proof (rule log_okI)
        show "sentBy s' = map fst (handled s') @ map (owner s') (unread (service s') @ toWrite s')"
          unfolding ow using inv_sent(1) [OF inv] ow(2) by (simp add: s' set_pc_def)
        show "distinct (sentBy s')" using inv_sent(2) [OF inv] ok(2) by (simp add: s' set_pc_def)
        show "(owner s' b, r) \<in> set (handled s')" if "service s' = Answering b r" for b r
          unfolding ow using inv_sent(3) [OF inv] that by (simp add: s' set_pc_def)
      qed
      show "wcalls_ok s'"
      proof (rule wcalls_okI [OF inv])
        fix v j
        assume v: "v \<noteq> w" and "call_ok s v j (cpc j)"
        from this(2) show "call_ok s' v j (cpc j)"
          by (rule call_ok_cong) (use v owns_inj [OF ok(1)] \<open>call_ok s v j (cpc j)\<close> in \<open>auto simp: s' set_pc_def owns_def unanswered_def\<close>)
      qed (use ok un in \<open>auto simp: s' set_pc_def owns_def\<close>)
      show "queue_ok s'" unfolding queue_ok_def
      proof (intro conjI ballI)
        show "distinct (unanswered s')" using inv_log(3) [OF inv] fresh by (simp add: un queue_ok_def)
        fix b
        assume "b \<in> set (unanswered s')"
        then consider "b = a" | "b \<in> set (unanswered s)" by (auto simp: un)
        then show "\<exists>w k. wcalls s' w = Some k \<and> cpc k = Waiting b \<and> results s' w = None"
        proof cases
          case 1
          then show ?thesis using ok(3) by (intro exI [of _ w]) (simp add: s' set_pc_def)
        next
          case 2
          then obtain v j where "wcalls s v = Some j" "cpc j = Waiting b" "results s v = None" by (rule inv_unanswered [OF inv])
          with k show ?thesis by (intro exI [of _ v] exI [of _ j]) (auto simp: s' set_pc_def)
        qed
      qed
    qed (use inv_log(4,5) [OF inv] in \<open>simp_all add: s' set_pc_def\<close>)
  qed
qed

lemma Write_return_inv:
  assumes inv: "writers_inv s" and ev: "Write_return w s = Some s'"
  shows "writers_inv s'"
proof (rule writers_invI)
  from ev obtain k a r where k: "wcalls s w = Some k" "cpc k = Waiting a" and r: "results s w = Some r"
    and s': "s' = set_pc w k (Returned r) (s\<lparr>results := (results s)(w := None), pool := a # pool s\<rparr>)"
    by (auto simp: Write_return_def split: option.splits callPC.splits)
  with inv_call [OF inv] have ok: "owns s w k a" "w \<in> set (sentBy s)" "a \<notin> set (unanswered s)" "(w, r) \<in> set (handled s)"
    by fastforce+
  show "store_ok s'" using inv_log(2) [OF inv] ok(1) by (auto simp: s' set_pc_def store_ok_def owns_def)
  show "log_ok s'" by (rule log_ok_cong [OF inv]) (simp_all add: s' set_pc_def)
  show "wcalls_ok s'"
  proof (rule wcalls_okI [OF inv])
    show "v \<noteq> w \<Longrightarrow> call_ok s v j (cpc j) \<Longrightarrow> call_ok s' v j (cpc j)" for v j
      by (erule call_ok_cong) (use owns_inj [OF ok(1)] in \<open>auto simp: s' set_pc_def owns_def unanswered_def\<close>)
  qed (use ok in \<open>auto simp: s' set_pc_def\<close>)
  show "queue_ok s'"
    by (rule queue_okI [OF inv]) (use inv_log(3) [OF inv] k r in \<open>auto simp: s' set_pc_def unanswered_def queue_ok_def\<close>)
  show "service s' \<noteq> Panicked"
    "compression (wconn s') = CompressionMethodNone \<or> compression (wconn s') = CompressionMethodGzip"
    using inv_log(4,5) [OF inv] by (simp_all add: s' set_pc_def)
qed

text \<open>Steps that change no call: the calls stay right if their objects and answers do.\<close>

lemma wcalls_ok_same:
  assumes "writers_inv s" and "wcalls s' = wcalls s"
    and "\<And>v k. wcalls s v = Some k \<Longrightarrow> call_ok s v k (cpc k) \<Longrightarrow> call_ok s' v k (cpc k)"
    and "\<And>v. wcalls s v = None \<Longrightarrow> results s' v = results s v" and "sentBy s' = sentBy s"
  shows "wcalls_ok s'"
  unfolding wcalls_ok_def
proof
  fix v
  show "case wcalls s' v of None \<Rightarrow> v \<notin> set (sentBy s') \<and> results s' v = None | Some k \<Rightarrow> call_ok s' v k (cpc k)"
    using assms inv_call [OF assms(1), of v] inv_no_call [OF assms(1), of v] by (cases "wcalls s v") auto
qed

lemma unchanged_inv:
  assumes inv: "writers_inv s" and "store_ok s'" and "unanswered s' = unanswered s" and "service s' = service s" "toWrite s' = toWrite s"
    and "wcalls s' = wcalls s" "results s' = results s" "sentBy s' = sentBy s" "handled s' = handled s"
    and "\<And>w k a. owns s w k a \<Longrightarrow> owns s' w k a"
    and "compression (wconn s') = CompressionMethodNone \<or> compression (wconn s') = CompressionMethodGzip"
  shows "writers_inv s'"
proof (rule writers_invI)
  show "log_ok s'"
  proof (rule log_ok_cong [OF inv])
    fix a
    assume "a \<in> set (unanswered s)"
    then obtain w k where "owns s w k a" by (rule inv_unanswered [OF inv])
    with assms(10) [OF this] show "objs s' a = objs s a" by (simp add: owns_def)
  qed (use assms in simp_all)
  show "wcalls_ok s'"
  proof (rule wcalls_ok_same [OF inv])
    show "call_ok s v k (cpc k) \<Longrightarrow> call_ok s' v k (cpc k)" for v k
      by (erule call_ok_cong) (use assms in auto)
  qed (use assms in simp_all)
  show "queue_ok s'" using inv_log(3) [OF inv] assms by (simp add: queue_ok_def)
qed (use inv_log(4) [OF inv] assms in simp_all)

lemma conn_inv_change:
  assumes "writers_inv s" and "compression c = CompressionMethodNone \<or> compression c = CompressionMethodGzip"
  shows "writers_inv (s\<lparr>wconn := c\<rparr>)"
  by (rule unchanged_inv [OF assms(1)])
    (use inv_log(2) [OF assms(1)] assms(2) in \<open>simp_all add: store_ok_def unanswered_def owns_def\<close>)

lemma service_receive_inv:
  assumes inv: "writers_inv s" and ev: "service_receive s = Some s'"
  shows "writers_inv s'"
proof (cases "toWrite s")
  case Nil
  with ev have s': "s' = s\<lparr>service := Ended\<rparr>" "service s = Ranging" by (simp_all add: service_receive_def split: if_splits)
  show ?thesis
  proof (rule writers_invI)
    show "wcalls_ok s'"
      by (rule wcalls_ok_same [OF inv]) (use Nil in \<open>auto simp: s' unanswered_def owns_def elim!: call_ok_cong\<close>)
    show "log_ok s'" by (rule log_ok_same [OF inv]) (simp_all add: s' Nil)
  qed (use inv_log [OF inv] in \<open>simp_all add: s' store_ok_def queue_ok_def unanswered_def\<close>)
next
  case (Cons a as)
  with ev have s': "s' = s\<lparr>toWrite := as, service := Have a\<rparr>" "service s = Ranging" by (simp_all add: service_receive_def split: if_splits)
  have un: "unanswered s' = unanswered s" by (simp add: s' unanswered_def Cons)
  have ow: "owner s' = owner s" by (simp add: s' owner_def fun_eq_iff)
  show ?thesis
  proof (rule writers_invI)
    show "wcalls_ok s'"
      by (rule wcalls_ok_same [OF inv]) (use un in \<open>auto simp: s' owns_def elim!: call_ok_cong\<close>)
    show "log_ok s'" by (rule log_ok_same [OF inv], unfold ow) (simp_all add: s' Cons)
    show "queue_ok s'" using inv_log(3) [OF inv] un by (simp add: queue_ok_def s'(1))
  qed (use inv_log [OF inv] in \<open>simp_all add: s' store_ok_def\<close>)
qed

lemma copyFrame_Ok_or_Fail:
  assumes "compression c = CompressionMethodNone \<or> compression c = CompressionMethodGzip"
  shows "returns (fst (copyFrame z fr c))" and "compression (snd (copyFrame z fr c)) = compression c"
proof -
  obtain d where d: "fst (Bytes z (compression c) fr) = Ok d" using assms by (auto simp: Bytes_def Compress_def Let_def)
  show "returns (fst (copyFrame z fr c))"
    by (cases rule: io_Write_cases [of d "cio c"]) (auto simp: copyFrame_def d split: option.splits)
  show "compression (snd (copyFrame z fr c)) = compression c"
    by (auto simp: copyFrame_def d split: option.splits prod.splits)
qed

text \<open>The frame that the goroutine reads from an object it has received is that of the call that waits with the object.\<close>

lemma service_write_eq:
  assumes inv: "writers_inv s" and ev: "service_write z s = Some s'"
  obtains a w k r c where "service s = Have a" "wcalls s w = Some k" "cpc k = Waiting a" "owns s w k a" "owner s a = w"
    "results s w = None"
    "copyFrame z (cframe k) (wconn s) = (r, c)" "returns r" "compression c = compression (wconn s)"
    "s' = s\<lparr>wconn := c, service := Answering a r, handled := handled s @ [(w, r)]\<rparr>"
proof -
  from ev obtain a where a: "service s = Have a" by (auto simp: service_write_def split: servicePC.splits)
  then have "a \<in> set (unanswered s)" by (simp add: unanswered_def)
  then obtain w k where k: "wcalls s w = Some k" "cpc k = Waiting a" "results s w = None" "owns s w k a" "owner s a = w"
    by (rule inv_unanswered [OF inv])
  obtain r c where r: "copyFrame z (cframe k) (wconn s) = (r, c)" by fastforce
  with copyFrame_Ok_or_Fail [OF inv_log(5) [OF inv], of z "cframe k"] have "returns r" "compression c = compression (wconn s)" by auto
  with ev a k r show ?thesis by (intro that [of a w k r c]) (simp_all add: service_write_def owns_def)
qed

lemma service_write_inv:
  assumes inv: "writers_inv s" and ev: "service_write z s = Some s'"
  shows "writers_inv s'"
proof (rule service_write_eq [OF inv ev])
  fix a w k r c
  assume a: "service s = Have a" and ow: "owner s a = w" and c: "compression c = compression (wconn s)"
    and s': "s' = s\<lparr>wconn := c, service := Answering a r, handled := handled s @ [(w, r)]\<rparr>"
  have un: "unanswered s' = unanswered s" by (simp add: s' unanswered_def a)
  have ow': "owner s' = owner s" by (simp add: s' owner_def fun_eq_iff)
  show ?thesis
  proof (rule writers_invI)
    show "wcalls_ok s'"
      by (rule wcalls_ok_same [OF inv]) (use a in \<open>auto simp: s' owns_def unanswered_def elim!: call_ok_cong\<close>)
    show "log_ok s'" by (rule log_ok_same [OF inv], unfold ow') (auto simp: s' a ow)
    show "queue_ok s'" using inv_log(3) [OF inv] un by (simp add: queue_ok_def s')
  qed (use inv_log [OF inv] c in \<open>simp_all add: s' store_ok_def\<close>)
qed

lemma service_answer_inv:
  assumes inv: "writers_inv s" and ev: "service_answer s = Some s'"
  shows "writers_inv s'"
proof -
  from ev obtain a r where a: "service s = Answering a r" by (auto simp: service_answer_def split: servicePC.splits)
  then have "a \<in> set (unanswered s)" by (simp add: unanswered_def)
  then obtain w k where k: "wcalls s w = Some k" "cpc k = Waiting a" "results s w = None" "owns s w k a" "owner s a = w"
    by (rule inv_unanswered [OF inv])
  obtain pc where pc: "current pc = []" "unread pc = []" "pc \<noteq> Panicked" "\<And>b r'. pc \<noteq> Answering b r'"
    and s': "s' = s\<lparr>results := (results s)(w \<mapsto> r), service := pc\<rparr>"
    using ev a k(3,4) that [of "if is_Ok r then Checking a else Ranging"] by (auto simp: service_answer_def owns_def)
  have un: "unanswered s = a # unanswered s'" by (simp add: s' unanswered_def a pc)
  with inv_log(3) [OF inv] have dst: "a \<notin> set (unanswered s')" "distinct (unanswered s')" by (auto simp: queue_ok_def)
  have hd: "(w, r) \<in> set (handled s)" using inv_sent(3) [OF inv a] k(5) by simp
  show ?thesis
  proof (rule writers_invI)
    show "wcalls_ok s'"
    proof (rule wcalls_ok_same [OF inv])
      fix v j
      assume j: "wcalls s v = Some j" "call_ok s v j (cpc j)"
      show "call_ok s' v j (cpc j)"
      proof (cases "v = w")
        case True
        with j k dst hd inv_call [OF inv k(1)] show ?thesis by (auto simp: s' owns_def)
      next
        case False
        have "b \<noteq> a" if "cpc j = Waiting b" for b using j that False owns_inj [OF k(4)] by (auto simp: owns_def)
        with j(2) False show ?thesis by (elim call_ok_cong) (auto simp: un, auto simp: s' owns_def)
      qed
    qed (use k in \<open>auto simp: s'\<close>)
    have "owner s' = owner s" by (simp add: s' owner_def fun_eq_iff)
    then show "log_ok s'" using a pc by (intro log_ok_same [OF inv]) (simp_all add: s')
    show "queue_ok s'"
    proof (rule queue_okI [OF inv])
      fix v j b
      assume b: "b \<in> set (unanswered s')" "wcalls s v = Some j" "cpc j = Waiting b" "results s v = None"
      with dst k have "v \<noteq> w" by auto
      with b show "wcalls s' v = Some j \<and> results s' v = None" by (simp add: s')
    qed (use dst un in auto)
  qed (use inv_log [OF inv] pc in \<open>simp_all add: s' store_ok_def\<close>)
qed

lemma service_check_inv:
  assumes inv: "writers_inv s" and ev: "service_check s = Some s'"
  shows "writers_inv s'"
proof -
  from ev obtain a where a: "service s = Checking a" by (auto simp: service_check_def split: servicePC.splits)
  define c where "c = (if map_option fst (oframe (objs s a)) = terminateAfter (wconn s) then terminate (wconn s) else wconn s)"
  have c: "compression c = compression (wconn s)" and s': "s' = s\<lparr>wconn := c, service := Ranging\<rparr>"
    using ev a by (simp_all add: service_check_def c_def)
  show ?thesis
  proof (rule writers_invI)
    show "wcalls_ok s'"
      by (rule wcalls_ok_same [OF inv]) (use a in \<open>auto simp: s' owns_def unanswered_def elim!: call_ok_cong\<close>)
    show "log_ok s'" by (rule log_ok_same [OF inv]) (simp_all add: s' a owner_def)
  qed (use inv_log [OF inv] a c in \<open>simp_all add: s' store_ok_def queue_ok_def unanswered_def\<close>)
qed

lemma foreign_get_inv: "writers_inv s \<Longrightarrow> foreign_get a s = Some s' \<Longrightarrow> writers_inv s'"
  by (rule unchanged_inv [of s])
    (use inv_log(2,5) [of s] in \<open>auto simp: foreign_get_def store_ok_def unanswered_def owns_def less_Suc_eq split: if_splits dest: notin_set_remove1\<close>)

lemma foreign_use_inv: "writers_inv s \<Longrightarrow> foreign_use a fr s = Some s' \<Longrightarrow> writers_inv s'"
  by (rule unchanged_inv [of s])
    (use inv_log(2,5) [of s] in \<open>auto simp: foreign_use_def store_ok_def unanswered_def owns_def Let_def split: if_splits\<close>)

lemma foreign_put_inv: "writers_inv s \<Longrightarrow> foreign_put a s = Some s' \<Longrightarrow> writers_inv s'"
  by (rule unchanged_inv [of s])
    (use inv_log(2,5) [of s] in \<open>auto simp: foreign_put_def store_ok_def unanswered_def owns_def split: if_splits dest: notin_set_remove1\<close>)

lemmas step_invs = Write_call_inv Write_get_inv Write_send_inv Write_return_inv service_receive_inv service_write_inv
  service_answer_inv service_check_inv foreign_get_inv foreign_use_inv foreign_put_inv

lemma exec_inv:
  assumes "writers_inv s" and "exec z e s = Some s'"
  shows "writers_inv s'"
proof (cases e)
  case (EFail x)
  then show ?thesis using assms conn_inv_change [OF assms(1)] inv_log(5) [OF assms(1)] by auto
next
  case ETerminate
  then show ?thesis using assms conn_inv_change [OF assms(1)] inv_log(5) [OF assms(1)] by auto
next
  case EGzip
  then show ?thesis using assms conn_inv_change [OF assms(1)] inv_log(5) [OF assms(1)] by auto
qed (use assms in \<open>auto elim: step_invs\<close>)

lemma writing_inv:
  "writing z c s \<Longrightarrow> compression c = CompressionMethodNone \<or> compression c = CompressionMethodGzip \<Longrightarrow> writers_inv s"
  by (induction rule: writing.induct) (auto intro: writers_inv_init exec_inv)

section \<open>Writes one at a time\<close>

text \<open>The specification: a call takes effect in one step, which is the body of the loop of \<^verbatim>\<open>serviceWrites\<close> for its frame, or finds the
  channel closed.\<close>

record atomic =
  aconn :: Conn
  acalls :: "nat \<Rightarrow> (nat \<times> frame) option"
  aresults :: "nat \<Rightarrow> unit outcome option"

inductive atomic_step :: "flate \<Rightarrow> atomic \<Rightarrow> atomic \<Rightarrow> bool" for z where
  atomic_call: "acalls s w = None \<Longrightarrow> p = nextPtr (aconn s) \<Longrightarrow> c = (aconn s)\<lparr>nextPtr := Suc p\<rparr> \<Longrightarrow>
     atomic_step z s (s\<lparr>aconn := (if final then c\<lparr>terminateAfter := Some p\<rparr> else c), acalls := (acalls s)(w \<mapsto> (p, fr))\<rparr>)"
| atomic_write: "acalls s w = Some (p, fr) \<Longrightarrow> aresults s w = None \<Longrightarrow> copyFrame z fr (aconn s) = (r, c) \<Longrightarrow> returns r \<Longrightarrow>
     atomic_step z s (s\<lparr>aconn := c, aresults := (aresults s)(w \<mapsto> r)\<rparr>)"
| atomic_closed: "acalls s w = Some (p, fr) \<Longrightarrow> aresults s w = None \<Longrightarrow> toWriteClosed (aconn s) \<Longrightarrow>
     atomic_step z s (s\<lparr>aresults := (aresults s)(w \<mapsto> Panic ''send on closed channel'')\<rparr>)"
| atomic_fail: "atomic_step z s (s\<lparr>aconn := terminate ((aconn s)\<lparr>cerr := Some e\<rparr>)\<rparr>)"
| atomic_terminate: "atomic_step z s (s\<lparr>aconn := terminate (aconn s)\<rparr>)"
| atomic_gzip: "atomic_step z s (s\<lparr>aconn := (aconn s)\<lparr>compression := CompressionMethodGzip\<rparr>\<rparr>)"
| atomic_new: "atomic_step z s (s\<lparr>aconn := (aconn s)\<lparr>nextPtr := Suc (nextPtr (aconn s))\<rparr>\<rparr>)"

text \<open>The abstraction forgets objects, pool, channel and the place of the goroutine. A call has a result once its frame has been
  handled.\<close>

definition result_of :: "writers \<Rightarrow> nat \<Rightarrow> unit outcome option" where
  "result_of s w =
     (case map_of (handled s) w of
        Some r \<Rightarrow> Some r
      | None \<Rightarrow> (case wcalls s w of Some k \<Rightarrow> (case cpc k of Returned r \<Rightarrow> Some r | _ \<Rightarrow> None) | None \<Rightarrow> None))"

definition atomic_of :: "writers \<Rightarrow> atomic" where
  "atomic_of s = \<lparr>aconn = wconn s, acalls = (\<lambda>w. map_option (\<lambda>k. (cptr k, cframe k)) (wcalls s w)), aresults = result_of s\<rparr>"

definition atomic_init :: "Conn \<Rightarrow> atomic" where
  "atomic_init c = \<lparr>aconn = c, acalls = (\<lambda>_. None), aresults = (\<lambda>_. None)\<rparr>"

lemma handled_sent:
  assumes "writers_inv s"
  shows "distinct (map fst (handled s))" and "(w, r) \<in> set (handled s) \<Longrightarrow> w \<in> set (sentBy s)"
proof -
  have "distinct (map fst (handled s) @ map (owner s) (unread (service s) @ toWrite s))"
    using inv_sent(1,2) [OF assms] by metis
  then show "distinct (map fst (handled s))" by simp
  show "w \<in> set (sentBy s)" if "(w, r) \<in> set (handled s)" using inv_sent(1) [OF assms] that by force
qed

lemma unread_unhandled:
  assumes "writers_inv s" and "service s = Have a"
  shows "owner s a \<notin> fst ` set (handled s)"
proof -
  have "distinct (map fst (handled s) @ map (owner s) (unread (service s) @ toWrite s))"
    using inv_sent(1,2) [OF assms(1)] by metis
  then show ?thesis using assms(2) by auto
qed

text \<open>A call that has not sent has no result yet; one that has returned has the result it returned.\<close>

lemma result_of_unsent:
  assumes "writers_inv s" and "wcalls s w = Some k" and "cpc k = Called \<or> cpc k = Holding a"
  shows "result_of s w = None"
proof -
  have "w \<notin> set (sentBy s)" using inv_call [OF assms(1,2)] assms(3) by auto
  then have "map_of (handled s) w = None" using handled_sent(2) [OF assms(1)] by (auto simp: map_of_eq_None_iff)
  then show ?thesis using assms by (auto simp: result_of_def)
qed

lemma result_of_returned:
  assumes "writers_inv s" and "wcalls s w = Some k" and "cpc k = Returned r"
  shows "result_of s w = Some r"
proof (cases "map_of (handled s) w")
  case None
  then show ?thesis using assms by (simp add: result_of_def)
next
  case (Some q)
  then have "w \<in> set (sentBy s)" using handled_sent(2) [OF assms(1)] map_of_SomeD by fastforce
  then have "(w, r) \<in> set (handled s)" using inv_call [OF assms(1,2)] assms(3) by auto
  then show ?thesis using handled_sent(1) [OF assms(1)] by (simp add: result_of_def)
qed

lemma abs_set_pc:
  assumes "wcalls s w = Some k" and "wconn t = wconn s" and "handled t = handled s" and "wcalls t = wcalls s"
    and "\<And>r. pc = Returned r \<Longrightarrow> result_of s w = Some r" and "\<And>r. cpc k \<noteq> Returned r"
  shows "atomic_of (set_pc w k pc t) = atomic_of s"
  using assms by (auto simp: atomic_of_def set_pc_def result_of_def fun_eq_iff split: option.splits callPC.splits)

lemma result_of_cong: "wcalls s' = wcalls s \<Longrightarrow> handled s' = handled s \<Longrightarrow> result_of s' = result_of s"
  by (intro ext) (simp only: result_of_def)

lemma abs_conn_only:
  "wcalls s' = wcalls s \<Longrightarrow> handled s' = handled s \<Longrightarrow> atomic_of s' = (atomic_of s)\<lparr>aconn := wconn s'\<rparr>"
  by (simp add: atomic_of_def result_of_cong [of s' s])

lemma abs_same:
  "wconn s' = wconn s \<Longrightarrow> wcalls s' = wcalls s \<Longrightarrow> handled s' = handled s \<Longrightarrow> atomic_of s' = atomic_of s"
  by (simp add: atomic_of_def result_of_cong [of s' s])

lemma abs_conn: "atomic_of (s\<lparr>wconn := c\<rparr>) = (atomic_of s)\<lparr>aconn := c\<rparr>"
  using abs_conn_only [of "s\<lparr>wconn := c\<rparr>" s] by simp

lemma Write_call_refines:
  assumes inv: "writers_inv s" and ev: "Write_call w fr final s = Some s'"
  shows "atomic_step z (atomic_of s) (atomic_of s')"
proof -
  from ev have new: "wcalls s w = None" by (simp add: Write_call_def split: option.splits)
  have "map_of (handled s) w = None"
    using inv_no_call [OF inv new] handled_sent(2) [OF inv] by (auto simp: map_of_eq_None_iff)
  with ev new have "atomic_of s' = (atomic_of s)\<lparr>aconn := wconn s', acalls := (acalls (atomic_of s))(w \<mapsto> (nextPtr (wconn s), fr))\<rparr>"
    by (auto simp: Write_call_def Let_def atomic_of_def result_of_def fun_eq_iff split: option.splits if_splits)
  moreover have "wconn s' = (let c = (aconn (atomic_of s))\<lparr>nextPtr := Suc (nextPtr (wconn s))\<rparr>
      in if final then c\<lparr>terminateAfter := Some (nextPtr (wconn s))\<rparr> else c)"
    using ev new by (auto simp: Write_call_def Let_def atomic_of_def)
  ultimately show ?thesis
    using new atomic_call [of "atomic_of s" w "nextPtr (wconn s)", where final = final and fr = fr and z = z]
    by (simp add: Let_def atomic_of_def)
qed

lemma Write_get_refines: "writers_inv s \<Longrightarrow> Write_get w a s = Some s' \<Longrightarrow> atomic_of s' = atomic_of s"
  by (auto simp: Write_get_def split: option.splits if_splits intro!: abs_set_pc)

lemma Write_return_refines:
  assumes inv: "writers_inv s" and ev: "Write_return w s = Some s'"
  shows "atomic_of s' = atomic_of s"
proof -
  from ev obtain k a r where k: "wcalls s w = Some k" "cpc k = Waiting a" "results s w = Some r"
    and s': "s' = set_pc w k (Returned r) (s\<lparr>results := (results s)(w := None), pool := a # pool s\<rparr>)"
    by (auto simp: Write_return_def split: option.splits callPC.splits)
  have "(w, r) \<in> set (handled s)" using inv_call [OF inv k(1)] k by simp
  then have "result_of s w = Some r" using handled_sent(1) [OF inv] by (simp add: result_of_def)
  with k show ?thesis unfolding s' by (intro abs_set_pc) simp_all
qed

lemma Write_send_refines:
  assumes inv: "writers_inv s" and ev: "Write_send w s = Some s'"
  shows "(atomic_step z)\<^sup>=\<^sup>= (atomic_of s) (atomic_of s')"
proof -
  from ev obtain k a where k: "wcalls s w = Some k" "cpc k = Holding a"
    by (auto simp: Write_send_def split: option.splits callPC.splits)
  show ?thesis
  proof (cases "toWriteClosed (wconn s)")
    case True
    have none: "result_of s w = None" using result_of_unsent [OF inv k(1)] k(2) by simp
    with True ev k have "atomic_of s' = (atomic_of s)\<lparr>aresults := (aresults (atomic_of s))(w \<mapsto> Panic ''send on closed channel'')\<rparr>"
      by (auto simp: Write_send_def set_pc_def atomic_of_def result_of_def fun_eq_iff split: option.splits)
    then show ?thesis using atomic_closed [of "atomic_of s" w "cptr k" "cframe k"] True none k by (simp add: atomic_of_def)
  next
    case False
    with ev k have "atomic_of s' = atomic_of s" by (auto simp: Write_send_def split: if_splits intro!: abs_set_pc)
    then show ?thesis by simp
  qed
qed

lemma service_write_refines:
  assumes inv: "writers_inv s" and ev: "service_write z s = Some s'"
  shows "atomic_step z (atomic_of s) (atomic_of s')"
proof (rule service_write_eq [OF inv ev])
  fix a w k r c
  assume a: "service s = Have a" and k: "wcalls s w = Some k" "cpc k = Waiting a" "owner s a = w"
    and cp: "copyFrame z (cframe k) (wconn s) = (r, c)" "returns r"
    and s': "s' = s\<lparr>wconn := c, service := Answering a r, handled := handled s @ [(w, r)]\<rparr>"
  have none: "map_of (handled s) w = None" using unread_unhandled [OF inv a] k(3) by (simp add: map_of_eq_None_iff)
  then have "atomic_of s' = (atomic_of s)\<lparr>aconn := c, aresults := (aresults (atomic_of s))(w \<mapsto> r)\<rparr>"
    by (auto simp: s' atomic_of_def result_of_def fun_eq_iff map_add_def split: option.splits)
  moreover have "aresults (atomic_of s) w = None" using none k by (simp add: atomic_of_def result_of_def)
  ultimately show ?thesis using atomic_write [of "atomic_of s" w "cptr k" "cframe k"] cp k(1) by (simp add: atomic_of_def)
qed

lemma service_check_refines:
  assumes "service_check s = Some s'"
  shows "(atomic_step z)\<^sup>=\<^sup>= (atomic_of s) (atomic_of s')"
proof -
  from assms have "atomic_of s' = atomic_of s \<or> atomic_of s' = (atomic_of s)\<lparr>aconn := terminate (aconn (atomic_of s))\<rparr>"
    using abs_conn_only [of s' s] abs_same [of s' s]
    by (cases "service s") (auto simp: service_check_def atomic_of_def [of s] split: if_splits)
  then show ?thesis using atomic_terminate [of z "atomic_of s"] by auto
qed

lemma silent_steps:
  "service_receive s = Some s' \<Longrightarrow> atomic_of s' = atomic_of s" "service_answer s = Some s' \<Longrightarrow> atomic_of s' = atomic_of s"
  "foreign_get a s = Some s' \<Longrightarrow> atomic_of s' = atomic_of s" "foreign_put a s = Some s' \<Longrightarrow> atomic_of s' = atomic_of s"
  by (auto simp: service_receive_def service_answer_def foreign_get_def foreign_put_def
      intro!: abs_same split: if_splits list.splits option.splits servicePC.splits)

lemma exec_refines:
  assumes inv: "writers_inv s" and ev: "exec z e s = Some s'"
  shows "(atomic_step z)\<^sup>=\<^sup>= (atomic_of s) (atomic_of s')"
proof (cases e)
  case (EFail x)
  then show ?thesis using ev atomic_fail [of z "atomic_of s" x] by (auto simp: abs_conn) (simp add: atomic_of_def)
next
  case ETerminate
  then show ?thesis using ev atomic_terminate [of z "atomic_of s"] by (auto simp: abs_conn) (simp add: atomic_of_def)
next
  case EGzip
  then show ?thesis using ev atomic_gzip [of z "atomic_of s"] by (auto simp: abs_conn) (simp add: atomic_of_def)
next
  case (EForeignUse a fr)
  then have "atomic_of s' = (atomic_of s)\<lparr>aconn := (aconn (atomic_of s))\<lparr>nextPtr := Suc (nextPtr (aconn (atomic_of s)))\<rparr>\<rparr>"
    using ev abs_conn_only [of s' s] by (auto simp: foreign_use_def Let_def atomic_of_def split: if_splits)
  then show ?thesis using atomic_new [of z "atomic_of s"] by simp
qed (use inv ev silent_steps Write_get_refines Write_return_refines in \<open>auto dest: Write_call_refines Write_send_refines
    service_write_refines service_check_refines\<close>)

lemma writing_refines:
  assumes "writing z c s" and "compression c = CompressionMethodNone \<or> compression c = CompressionMethodGzip"
  shows "(atomic_step z)\<^sup>*\<^sup>* (atomic_init c) (atomic_of s)"
  using assms(1)
proof induction
  case writing_start
  have "result_of (writers_init c) = (\<lambda>_. None)" by (simp add: result_of_def writers_init_def fun_eq_iff)
  then show ?case by (simp add: writers_init_def atomic_of_def atomic_init_def)
next
  case (writing_step s e s')
  from exec_refines [OF writing_inv [OF writing_step(1) assms(2)] writing_step(2)] writing_step(3) show ?case by auto
qed

section \<open>What is sent\<close>

text \<open>The body of the loop in the sequential model of a connection is the copy of the frame, followed by the comparison.\<close>

lemma serviceWrite_copyFrame:
  "serviceWrite z p fr c =
     bindR (copyFrame z fr c) (\<lambda>_ c. (Ok (), if terminateAfter c = Some p then terminate c else c))"
proof (cases "cerr c")
  case None
  show ?thesis
  proof (cases "fst (Bytes z (compression c) fr)")
    case (Ok d)
    with None show ?thesis by (cases rule: io_Write_cases [of d "cio c"]) (simp_all add: serviceWrite_def copyFrame_def)
  qed (use None in \<open>simp_all add: serviceWrite_def copyFrame_def\<close>)
qed (simp add: serviceWrite_def copyFrame_def)

text \<open>On a connection whose writes work, a frame is copied whole or not at all.\<close>

lemma copyFrame_whole:
  assumes "copyFrame z fr c = (Ok (), c')" and "compression c = CompressionMethodNone" and "frame_sized fr"
  shows "outp (cio c') = outp (cio c) @ frame_bytes fr \<and> faultless (cio c') = faultless (cio c)"
proof -
  from assms have "cerr c = None" by (simp add: copyFrame_def split: option.splits)
  with assms obtain io where "io_Write (frame_bytes fr) (cio c) = (Ok (), io)" "cio c' = io"
    by (cases rule: io_Write_cases [of "frame_bytes fr" "cio c"]) (auto simp: copyFrame_def Bytes_frame_bytes)
  with io_Write_Ok show ?thesis by blast
qed

lemma copyFrame_failed:
  assumes "copyFrame z fr c = (r, c')" and "faultless (cio c)" and "\<not> is_Ok r"
  shows "outp (cio c') = outp (cio c) \<and> faultless (cio c')"
proof (cases "cerr c")
  case (Some e)
  with assms(1,2) show ?thesis by (auto simp: copyFrame_def)
next
  case None
  show ?thesis
  proof (cases "fst (Bytes z (compression c) fr)")
    case (Ok d)
    show ?thesis
    proof (cases rule: io_Write_cases [of d "cio c"])
      case (2 e io)
      with None Ok assms io_Write_Fail(1) [OF 2] show ?thesis
        by (cases "ioclosed (cio c)") (auto simp: copyFrame_def io_Write_def)
    qed (use None Ok assms in \<open>auto simp: copyFrame_def\<close>)
  qed (use None assms in \<open>auto simp: copyFrame_def\<close>)
qed

text \<open>The frames of the calls that were answered without an error, in the order in which they were handled.\<close>

definition frame_of :: "writers \<Rightarrow> nat \<Rightarrow> frame" where
  "frame_of s w = cframe (the (wcalls s w))"

definition sentFrames :: "writers \<Rightarrow> frame list" where
  "sentFrames s = map (\<lambda>(w, r). frame_of s w) (filter (\<lambda>(w, r). is_Ok r) (handled s))"

lemma exec_keeps_calls:
  assumes "exec z e s = Some s'" and "wcalls s w = Some k"
  shows "frame_of s' w = frame_of s w"
  using assms
  by (cases e) (auto simp: frame_of_def Write_call_def Write_get_def Write_send_def Write_return_def set_pc_def service_receive_def
      service_write_def service_answer_def service_check_def foreign_get_def foreign_use_def foreign_put_def Let_def
      split: option.splits callPC.splits servicePC.splits list.splits if_splits prod.splits)

lemma exec_handled:
  assumes "exec z e s = Some s'" and "handled s' \<noteq> handled s"
  shows "e = EWrite"
  using assms
  by (cases e) (auto simp: Write_call_def Write_get_def Write_send_def Write_return_def set_pc_def service_receive_def
      service_answer_def service_check_def foreign_get_def foreign_use_def foreign_put_def Let_def
      split: option.splits callPC.splits servicePC.splits list.splits if_splits)

lemma exec_quiet:
  assumes "exec z e s = Some s'" and "e \<noteq> EWrite"
  shows "outp (cio (wconn s')) = outp (cio (wconn s))" and "faultless (cio (wconn s')) = faultless (cio (wconn s))"
    and "handled s' = handled s"
  using assms
  by (cases e; auto simp: Write_call_def Write_get_def Write_send_def Write_return_def set_pc_def service_receive_def
      service_answer_def service_check_def foreign_get_def foreign_use_def foreign_put_def Let_def terminate_def io_Close_def
      split: option.splits callPC.splits servicePC.splits list.splits if_splits)+

lemma exec_compression:
  assumes "writers_inv s" and "exec z e s = Some s'" and "compression (wconn s') = CompressionMethodNone"
  shows "compression (wconn s) = CompressionMethodNone"
proof (cases "e = EWrite")
  case True
  with assms(2) have "service_write z s = Some s'" by simp
  from this assms(3) show ?thesis by (auto elim!: service_write_eq [OF assms(1)])
next
  case False
  with assms show ?thesis
    by (cases e) (auto simp: Write_call_def Write_get_def Write_send_def Write_return_def set_pc_def service_receive_def
      service_answer_def service_check_def foreign_get_def foreign_use_def foreign_put_def Let_def
      split: option.splits callPC.splits servicePC.splits list.splits if_splits)
qed

lemma handled_called:
  assumes "writers_inv s" and "(w, r) \<in> set (handled s)"
  obtains k where "wcalls s w = Some k"
  using handled_sent(2) [OF assms] inv_no_call [OF assms(1), of w] that by (cases "wcalls s w") auto

lemma sentFrames_step:
  assumes inv: "writers_inv s" and ev: "exec z e s = Some s'"
  shows "map (\<lambda>(w, r). frame_of s' w) (filter (\<lambda>(w, r). is_Ok r) (handled s)) = sentFrames s"
  unfolding sentFrames_def
proof (rule map_cong [OF refl])
  fix x
  assume "x \<in> set (filter (\<lambda>(w, r). is_Ok r) (handled s))"
  moreover obtain w r where "x = (w, r)" by (cases x)
  ultimately have x: "x = (w, r)" "(w, r) \<in> set (handled s)" by simp_all
  from handled_called [OF inv x(2)] obtain k where "wcalls s w = Some k" .
  from exec_keeps_calls [OF ev this] show "(case x of (w, r) \<Rightarrow> frame_of s' w) = (case x of (w, r) \<Rightarrow> frame_of s w)" by (simp add: x)
qed

lemma writing_output:
  assumes "writing z c s" and c: "compression c = CompressionMethodNone" and io: "faultless (cio c)"
    and "compression (wconn s) = CompressionMethodNone" and "\<forall>f\<in>set (sentFrames s). frame_sized f"
  shows "outp (cio (wconn s)) = outp (cio c) @ concat (map frame_bytes (sentFrames s)) \<and> faultless (cio (wconn s))"
  using assms(1,4,5)
proof induction
  case writing_start
  then show ?case using io by (simp add: writers_init_def sentFrames_def)
next
  case (writing_step s e s')
  have inv: "writers_inv s" using writing_inv [OF writing_step(1)] c by simp
  have comp: "compression (wconn s) = CompressionMethodNone" using exec_compression [OF inv writing_step(2,4)] .
  note same = sentFrames_step [OF inv writing_step(2)]
  show ?case
  proof (cases "e = EWrite")
    case False
    note quiet = exec_quiet [OF writing_step(2) False]
    have "sentFrames s' = sentFrames s" unfolding sentFrames_def [of s'] quiet(3) by (rule same)
    with quiet writing_step(3,5) comp show ?thesis by simp
  next
    case True
    with writing_step(2) have "service_write z s = Some s'" by simp
    then show ?thesis
    proof (rule service_write_eq [OF inv])
      fix a w k r c'
      assume k: "wcalls s w = Some k" and cp: "copyFrame z (cframe k) (wconn s) = (r, c')"
        and s': "s' = s\<lparr>wconn := c', service := Answering a r, handled := handled s @ [(w, r)]\<rparr>"
      have frames: "sentFrames s' = sentFrames s @ (if is_Ok r then [cframe k] else [])"
        using same k by (simp add: sentFrames_def s' frame_of_def)
      with writing_step(3,5) comp have IH: "outp (cio (wconn s)) = outp (cio c) @ concat (map frame_bytes (sentFrames s))"
        "faultless (cio (wconn s))" by auto
      show ?thesis
      proof (cases "is_Ok r")
        case True
        with frames writing_step(5) have "frame_sized (cframe k)" by simp
        moreover from True have "r = Ok ()" by (cases r) simp_all
        ultimately show ?thesis using copyFrame_whole [of z "cframe k" "wconn s" c'] cp comp IH True by (simp add: frames) (simp add: s')
      next
        case False
        with copyFrame_failed [OF cp IH(2)] IH comp show ?thesis by (simp add: frames) (simp add: s')
      qed
    qed
  qed
qed


section \<open>Every frame is answered\<close>

text \<open>The goroutine ends only when the channel is closed and drained.\<close>

definition ended_ok :: "writers \<Rightarrow> bool" where
  "ended_ok s \<longleftrightarrow> (service s = Ended \<longrightarrow> toWrite s = [] \<and> toWriteClosed (wconn s))"

lemma copyFrame_closed: "toWriteClosed (snd (copyFrame z fr c)) = toWriteClosed c"
  by (cases "fst (Bytes z (compression c) fr)") (auto simp: copyFrame_def split: option.splits prod.splits)

lemma ended_ok_step: "ended_ok s \<Longrightarrow> exec z e s = Some s' \<Longrightarrow> ended_ok s'"
  by (cases e) (auto simp: ended_ok_def Write_call_def Write_get_def Write_send_def Write_return_def set_pc_def service_receive_def
      service_write_def service_answer_def service_check_def foreign_get_def foreign_use_def foreign_put_def Let_def terminate_def
      split: option.splits callPC.splits servicePC.splits list.splits if_splits prod.splits)

lemma writing_ended: "writing z c s \<Longrightarrow> ended_ok s"
proof (induction rule: writing.induct)
  case writing_start
  then show ?case by (simp add: writers_init_def ended_ok_def)
qed (rule ended_ok_step)

text \<open>The steps that the goroutine has to make for what it has received and what is in the channel.\<close>

fun remaining :: "servicePC \<Rightarrow> nat" where
  "remaining (Have a) = 3"
| "remaining (Answering a r) = 2"
| "remaining (Checking a) = 1"
| "remaining _ = 0"

definition work :: "writers \<Rightarrow> nat" where
  "work s = remaining (service s) + 4 * length (toWrite s)"

definition serviceEvents :: "event set" where
  "serviceEvents = {EReceive, EWrite, EAnswer, ECheck}"

lemma service_progress:
  assumes inv: "writers_inv s" and "ended_ok s" and "0 < work s"
  obtains e s' where "e \<in> serviceEvents" "exec z e s = Some s'" "work s' < work s" "wcalls s' = wcalls s"
proof (cases "service s")
  case Ranging
  with assms(3) obtain a as where "toWrite s = a # as" by (cases "toWrite s") (auto simp: work_def)
  with Ranging show ?thesis
    by (intro that [of EReceive "s\<lparr>toWrite := as, service := Have a\<rparr>"]) (simp_all add: service_receive_def work_def serviceEvents_def)
next
  case (Have a)
  then have "a \<in> set (unanswered s)" by (simp add: unanswered_def)
  then obtain w k where k: "wcalls s w = Some k" "cpc k = Waiting a" "owns s w k a" by (rule inv_unanswered [OF inv])
  obtain r c where "copyFrame z (cframe k) (wconn s) = (r, c)" by fastforce
  with Have k obtain s' where ev: "service_write z s = Some s'" by (cases "returns r") (auto simp: service_write_def owns_def)
  moreover have "work s' < work s" "wcalls s' = wcalls s"
    by (rule service_write_eq [OF inv ev], simp add: work_def)+
  ultimately show ?thesis by (intro that [of EWrite s']) (simp_all add: serviceEvents_def)
next
  case (Answering a r)
  then have "a \<in> set (unanswered s)" by (simp add: unanswered_def)
  then obtain w k where "results s w = None" "owns s w k a" by (rule inv_unanswered [OF inv])
  with Answering show ?thesis
    by (intro that [of EAnswer "s\<lparr>results := (results s)(w \<mapsto> r), service := (if is_Ok r then Checking a else Ranging)\<rparr>"])
      (simp_all add: service_answer_def owns_def work_def serviceEvents_def)
next
  case (Checking a)
  then obtain s' where "service_check s = Some s'" "work s' < work s" "wcalls s' = wcalls s"
    by (simp add: service_check_def work_def)
  then show ?thesis by (intro that [of ECheck s']) (simp_all add: serviceEvents_def)
qed (use assms in \<open>auto simp: work_def ended_ok_def writers_inv_def\<close>)

lemma service_drains:
  assumes "writers_inv s" and "ended_ok s"
  shows "\<exists>es s'. set es \<subseteq> serviceEvents \<and> length es \<le> work s \<and> execs z es s = Some s' \<and> work s' = 0 \<and>
    wcalls s' = wcalls s \<and> writers_inv s'"
  using assms
proof (induction "work s" arbitrary: s rule: less_induct)
  case less
  show ?case
  proof (cases "work s = 0")
    case True
    then show ?thesis using less.prems by (intro exI [of _ "[]"]) simp
  next
    case False
    then obtain e t where e: "e \<in> serviceEvents" "exec z e s = Some t" "work t < work s" "wcalls t = wcalls s"
      using service_progress [OF less.prems] by blast
    from less.hyps [OF e(3) exec_inv [OF less.prems(1) e(2)] ended_ok_step [OF less.prems(2) e(2)]] obtain es s'
      where "set es \<subseteq> serviceEvents" "length es \<le> work t" "execs z es t = Some s'" "work s' = 0" "wcalls s' = wcalls t" "writers_inv s'"
      by blast
    with e show ?thesis by (intro exI [of _ "e # es"]) auto
  qed
qed

lemma idle_answered:
  assumes inv: "writers_inv s" and "work s = 0" and k: "wcalls s w = Some k" "cpc k = Waiting a"
  obtains r where "results s w = Some r" "(w, r) \<in> set (handled s)"
proof -
  have "unanswered s = []" using assms(2) inv by (cases "service s") (auto simp: work_def unanswered_def writers_inv_def)
  with inv_call [OF inv k(1)] k(2) that show ?thesis by (auto split: option.splits)
qed

section \<open>The last frame\<close>

text \<open>Two runs on a connection whose writes work. In the first, the call that sent the last frame has taken its answer and put its object
  back, and the next call fills the object in before the goroutine compares: the connection stays open. In the second the call before
  the last frame has put its object back, and \<^verbatim>\<open>goAway\<close> takes it: the connection is terminated before the last frame is sent.\<close>

definition missed :: "frame \<Rightarrow> frame \<Rightarrow> event list" where
  "missed g fr = [ECall 0 g True, EGet 0 0, ESend 0, EReceive, EWrite, EAnswer, EReturn 0, ECall 1 fr False, EGet 1 0, ECheck,
     ESend 1, EReceive, EWrite, EAnswer, ECheck, EReturn 1]"

definition early :: "frame \<Rightarrow> frame \<Rightarrow> event list" where
  "early g fr = [ECall 0 fr False, EGet 0 0, ESend 0, EReceive, EWrite, EAnswer, EReturn 0, ECall 1 g True, EGet 1 0, ECheck, ESend 1]"

lemmas run_defs = writers_init_def NewConn_def Write_call_def Write_get_def Write_send_def Write_return_def set_pc_def
  service_receive_def service_write_def service_answer_def service_check_def copyFrame_def Bytes_def Compress_def io_Write_def
  toWriteCap_def Let_def terminate_def io_Close_def

lemma missed_runs:
  assumes "faultless io" and "\<not> ioclosed io"
  obtains s where "execs z (missed g fr) (writers_init (NewConn p i io)) = Some s" "wcalls s 0 = Some \<lparr>cptr = 0, cframe = g, cpc = Returned (Ok ())\<rparr>"
    "terminateAfter (wconn s) = Some 0" "running (wconn s)" "sentFrames s = [g, fr]" "service s = Ranging" "toWrite s = []"
  using assms by (simp add: missed_def run_defs faultless_def sentFrames_def frame_of_def)

lemma early_runs:
  assumes "faultless io" and "\<not> ioclosed io"
  obtains s where "execs z (early g fr) (writers_init (NewConn p i io)) = Some s" "\<not> running (wconn s)" "sentFrames s = [fr]"
    "terminateAfter (wconn s) = Some 1" "wcalls s 1 = Some \<lparr>cptr = 1, cframe = g, cpc = Returned (Panic ''send on closed channel'')\<rparr>"
  using assms by (simp add: early_def run_defs faultless_def sentFrames_def frame_of_def)

end
