(* ===== verification/Wire_Reading.thy ===== *)
theory Wire_Reading
  imports Wire_Session Wire_Writers
begin

text \<open>
  The reading goroutine of a server connection (\<^verbatim>\<open>serviceReads\<close>, \<^verbatim>\<open>src/wire/conn.go\<close>) while other goroutines run. The handlers
  of \<open>Wire_Conn\<close> are taken apart where they meet the rest of the program: at the send to the channel of the writing goroutine, at its
  answer, at each statement of \<^verbatim>\<open>terminate\<close>, between the streams that a GOAWAY frame cancels, at the queue of a stream. Between any two steps the others
  may change the connection within the bounds of \<open>rely\<close>. The theory shows that the goroutine stops, where it stops, and that only the
  termination of the connection by another goroutine makes it panic.
\<close>

section \<open>Where the goroutine is\<close>

text \<open>The statements of \<^verbatim>\<open>terminate\<close>: the test of \<^verbatim>\<open>running\<close>, its reset, the two channels and the connection to close, the
  callback.\<close>

datatype closing = TRunning | TStop | TDrop | TIo | TToWrite | TParent

text \<open>What a handler does with the answer of Write: nothing; terminate on an error; record the error and terminate; go on to the other
  streams to cancel.\<close>

datatype afterWrite = Ignoring | OrTerminate | OrRecord | Cancelling errorCode "u32 list"

text \<open>\<open>AtTerminate t brk\<close>: in \<^verbatim>\<open>terminate\<close>, called from the loop, which \<open>brk\<close> says is left after it, or from a handler.\<close>

datatype readingPC =
    AtLoop | AtRead | AtDispatch frame | AtSend frame afterWrite nat | AtAnswer frame afterWrite | AtEnqueue dataFrame
  | AtCancel errorCode "u32 list" | AtTerminate closing bool | Finished | Crashed string

text \<open>\<open>rdIn\<close> is all that the peer sends. \<open>rdOther\<close> records that another goroutine has changed what \<^verbatim>\<open>terminate\<close> changes.\<close>

record reading =
  rdIn :: reader
  rdConn :: Conn
  rdPc :: readingPC
  rdOther :: bool

section \<open>The handlers up to their first wait\<close>

definition Write_begin :: "frame \<Rightarrow> afterWrite \<Rightarrow> Conn \<Rightarrow> readingPC \<times> Conn" where
  "Write_begin fr a c = (AtSend fr a (nextPtr c), c\<lparr>nextPtr := Suc (nextPtr c)\<rparr>)"

definition goAway_begin :: "errorCode \<Rightarrow> bytes \<Rightarrow> bool \<Rightarrow> Conn \<Rightarrow> readingPC \<times> Conn" where
  "goAway_begin ec extraData final c =
     (let fr = GoAway_IntoFrame \<lparr>LastStreamID = lastStreamID c, goAwayErrorCode = ec, AdditionalData = extraData\<rparr>;
          ptr = nextPtr c;
          c = c\<lparr>nextPtr := Suc ptr\<rparr>;
          c = (if final then c\<lparr>terminateAfter := Some ptr\<rparr> else c)
      in (AtSend fr Ignoring ptr, c))"

definition protocolError_begin :: "Conn \<Rightarrow> readingPC \<times> Conn" where
  "protocolError_begin c = goAway_begin ErrorCodeProtocolError [] True c"

definition handleHello_begin :: "helloFrame \<Rightarrow> Conn \<Rightarrow> readingPC \<times> Conn" where
  "handleHello_begin conf c =
     (if configured c then protocolError_begin c
      else
        let c = (if CompressionGZip conf then c\<lparr>compression := CompressionMethodGzip\<rparr> else c);
            c = c\<lparr>configured := True\<rparr>
        in Write_begin (Hello_IntoFrame
             \<lparr>helloAck = True, CompressionGZip = CompressionGZip conf, MaxConcurrentStreams = 0\<rparr>) OrTerminate c)"

definition handlePing_begin :: "pingFrame \<Rightarrow> Conn \<Rightarrow> readingPC \<times> Conn" where
  "handlePing_begin ping c =
     (if \<not> configured c then protocolError_begin c
      else if pingAck ping then (AtLoop, c)
      else Write_begin (Ping_IntoFrame \<lparr>pingAck = True, pingPayload = pingPayload ping\<rparr>) OrRecord c)"

definition handleGoAway_begin :: "mapOrder \<Rightarrow> goAwayFrame \<Rightarrow> Conn \<Rightarrow> readingPC \<times> Conn" where
  "handleGoAway_begin ord msg c =
     (if \<not> configured c then protocolError_begin c
      else (AtCancel (goAwayErrorCode msg) (ord (map fst (streams c))), c))"

definition resetStream_begin :: "u32 \<Rightarrow> errorCode \<Rightarrow> Conn \<Rightarrow> readingPC \<times> Conn" where
  "resetStream_begin i ec c = Write_begin (ResetStream_IntoFrame \<lparr>resetStreamID = i, resetErrorCode = ec\<rparr>) Ignoring c"

text \<open>The method \<^verbatim>\<open>reset\<close> of a stream (\<^verbatim>\<open>src/wire/stream.go\<close>).\<close>

definition stream_reset_begin :: "errorCode \<Rightarrow> afterWrite \<Rightarrow> stream \<Rightarrow> Conn \<Rightarrow> readingPC \<times> Conn" where
  "stream_reset_begin ec a s c =
     Write_begin ((ResetStream_IntoFrame \<lparr>resetStreamID = strID s, resetErrorCode = ec\<rparr>)\<lparr>StreamID := strID s\<rparr>) a c"

definition handleMakeStream_begin :: "makeStreamFrame \<Rightarrow> Conn \<Rightarrow> readingPC \<times> Conn" where
  "handleMakeStream_begin req c =
     (if \<not> configured c then protocolError_begin c
      else
        let i = makeStreamID req in
        case fetchStream i c of
          Some _ \<Rightarrow> protocolError_begin c
        | None \<Rightarrow>
            (AtLoop, c\<lparr>streams := AList.update i (NewStream i) (streams c),
                       calls := calls c @ (if parent c then [ServiceStream i] else [])\<rparr>))"

definition handleResetFrame_begin :: "resetStreamFrame \<Rightarrow> Conn \<Rightarrow> readingPC \<times> Conn" where
  "handleResetFrame_begin rs c =
     (if \<not> configured c then protocolError_begin c
      else case fetchStream (resetStreamID rs) c of
          None \<Rightarrow> resetStream_begin (resetStreamID rs) ErrorCodeProtocolError c
        | Some s \<Rightarrow>
            if RecvResetStream (sstate s) \<noteq> Ok () then stream_reset_begin ErrorCodeStreamClosed Ignoring s c
            else (AtLoop, c\<lparr>streams := AList.update (resetStreamID rs)
              (s\<lparr>sstate := streamState_SetError (StreamResetError (resetErrorCode rs)) (streamState_Close (sstate s)),
                 sreader := internalClose (sreader s)\<rparr>) (streams c)\<rparr>))"

definition handleData_begin :: "dataFrame \<Rightarrow> Conn \<Rightarrow> readingPC \<times> Conn" where
  "handleData_begin d c =
     (if \<not> configured c then protocolError_begin c
      else case fetchStream (dataStreamID d) c of
          None \<Rightarrow> resetStream_begin (dataStreamID d) ErrorCodeProtocolError c
        | Some s \<Rightarrow>
            if RecvData (sstate s) \<noteq> Ok () then stream_reset_begin ErrorCodeStreamClosed Ignoring s c
            else (AtEnqueue d, c))"

definition handleWith_begin ::
  "('m \<Rightarrow> frame \<Rightarrow> unit outcome \<times> 'm) \<Rightarrow> 'm \<Rightarrow> ('m \<Rightarrow> Conn \<Rightarrow> readingPC \<times> Conn) \<Rightarrow> frame \<Rightarrow> Conn \<Rightarrow> readingPC \<times> Conn" where
  "handleWith_begin FromFrame zero handle fr c =
     (case FromFrame zero fr of
        (Ok _, m) \<Rightarrow> handle m c
      | (Fail e, m) \<Rightarrow> protocolError_begin c
      | (Panic x, m) \<Rightarrow> (Crashed x, c)
      | (Blocks, m) \<Rightarrow> (AtDispatch fr, c))"

definition dispatchFrame_begin :: "mapOrder \<Rightarrow> frame \<Rightarrow> Conn \<Rightarrow> readingPC \<times> Conn" where
  "dispatchFrame_begin ord fr c =
     (let k = FrameKind fr in
      if k = FrameKindHello then
        handleWith_begin Hello_FromFrame \<lparr>helloAck = False, CompressionGZip = False, MaxConcurrentStreams = 0\<rparr> handleHello_begin fr c
      else if k = FrameKindPing then
        handleWith_begin Ping_FromFrame \<lparr>pingAck = False, pingPayload = []\<rparr> handlePing_begin fr c
      else if k = FrameKindGoAway then
        handleWith_begin GoAway_FromFrame \<lparr>LastStreamID = 0, goAwayErrorCode = 0, AdditionalData = []\<rparr> (handleGoAway_begin ord) fr c
      else if k = FrameKindMakeStream then
        handleWith_begin MakeStream_FromFrame \<lparr>makeStreamID = 0\<rparr> handleMakeStream_begin fr c
      else if k = FrameKindResetStream then
        handleWith_begin ResetStream_FromFrame \<lparr>resetStreamID = 0, resetErrorCode = 0\<rparr> handleResetFrame_begin fr c
      else if k = FrameKindData then
        handleWith_begin Data_FromFrame \<lparr>dataStreamID = 0, EndData = False, EndStream = False, dataPayload = []\<rparr> handleData_begin fr c
      else protocolError_begin c)"

section \<open>The steps\<close>

text \<open>\<^verbatim>\<open>terminate\<close>, one statement at a time. Closing a channel a second time panics.\<close>

fun terminate_step :: "closing \<Rightarrow> bool \<Rightarrow> Conn \<Rightarrow> readingPC \<times> Conn" where
  "terminate_step TRunning brk c =
     (if \<not> running c then (if brk then Finished else AtLoop, c) else (AtTerminate TStop brk, c))"
| "terminate_step TStop brk c = (AtTerminate TDrop brk, c\<lparr>running := False\<rparr>)"
| "terminate_step TDrop brk c =
     (if dropClosed c then (Crashed ''close of closed channel'', c) else (AtTerminate TIo brk, c\<lparr>dropClosed := True\<rparr>))"
| "terminate_step TIo brk c = (AtTerminate TToWrite brk, c\<lparr>cio := io_Close (cio c)\<rparr>)"
| "terminate_step TToWrite brk c =
     (if toWriteClosed c then (Crashed ''close of closed channel'', c) else (AtTerminate TParent brk, c\<lparr>toWriteClosed := True\<rparr>))"
| "terminate_step TParent brk c =
     (if brk then Finished else AtLoop, c\<lparr>calls := calls c @ (if parent c then [ConnectionClosed (connID c)] else [])\<rparr>)"

text \<open>The answer of Write.\<close>

fun Write_end :: "afterWrite \<Rightarrow> unit outcome \<Rightarrow> Conn \<Rightarrow> readingPC \<times> Conn" where
  "Write_end a (Panic m) c = (Crashed m, c)"
| "Write_end OrTerminate (Fail e) c = (AtTerminate TRunning False, c)"
| "Write_end OrRecord (Fail e) c = (AtTerminate TRunning False, c\<lparr>cerr := Some e\<rparr>)"
| "Write_end (Cancelling ec is) out c = (AtCancel ec is, c)"
| "Write_end a out c = (AtLoop, c)"

text \<open>One stream of \<^verbatim>\<open>cancelStreams\<close>: the method \<^verbatim>\<open>Reset\<close> of the stream, up to its write.\<close>

definition cancel_step :: "errorCode \<Rightarrow> u32 \<Rightarrow> u32 list \<Rightarrow> Conn \<Rightarrow> readingPC \<times> Conn" where
  "cancel_step ec i is c =
     (case fetchStream i c of
        None \<Rightarrow> (AtCancel ec is, c)
      | Some s \<Rightarrow>
          if SendResetStream (sstate s) \<noteq> Ok () then (AtCancel ec is, c)
          else
            let s = s\<lparr>sstate := streamState_Close (sstate s), sreader := internalClose (sreader s)\<rparr>
            in stream_reset_begin ec (Cancelling ec is) s (c\<lparr>streams := AList.update i s (streams c)\<rparr>))"

text \<open>The rest of \<^verbatim>\<open>handleData\<close> of a stream; it waits for room in the queue.\<close>

definition enqueue_step :: "dataFrame \<Rightarrow> Conn \<Rightarrow> (readingPC \<times> Conn) option" where
  "enqueue_step d c =
     (case fetchStream (dataStreamID d) c of
        None \<Rightarrow> None
      | Some s \<Rightarrow>
          (case Enqueue (dataPayload d) (sreader s) of
             (Ok _, r) \<Rightarrow>
               let s = s\<lparr>sreader := r\<rparr>; s = (if EndStream d then s\<lparr>sstate := streamState_CloseRemote (sstate s)\<rparr> else s)
               in Some (AtLoop, c\<lparr>streams := AList.update (dataStreamID d) s (streams c)\<rparr>)
           | _ \<Rightarrow> None))"

text \<open>The next step without the reads of the input; \<open>None\<close> when the goroutine waits, or is over.\<close>

fun conn_step :: "flate \<Rightarrow> mapOrder \<Rightarrow> readingPC \<Rightarrow> Conn \<Rightarrow> (readingPC \<times> Conn) option" where
  "conn_step z ord AtLoop c = Some (if running c then AtRead else Finished, c)"
| "conn_step z ord AtRead c = None"
| "conn_step z ord (AtDispatch fr) c = Some (dispatchFrame_begin ord fr c)"
| "conn_step z ord (AtSend fr a p) c =
     Some (if toWriteClosed c then (Crashed ''send on closed channel'', c) else (AtAnswer fr a, c))"
| "conn_step z ord (AtAnswer fr a) c = (let (out, c) = copyFrame z fr c in Some (Write_end a out c))"
| "conn_step z ord (AtEnqueue d) c = enqueue_step d c"
| "conn_step z ord (AtCancel ec []) c = Some (AtTerminate TRunning False, c)"
| "conn_step z ord (AtCancel ec (i # is)) c = Some (cancel_step ec i is c)"
| "conn_step z ord (AtTerminate t brk) c = Some (terminate_step t brk c)"
| "conn_step z ord Finished c = None"
| "conn_step z ord (Crashed m) c = None"

text \<open>A step of the goroutine: \<^verbatim>\<open>c.reader.Read()\<close>, with the error recorded before \<^verbatim>\<open>terminate\<close>, or one of the above.\<close>

definition serviceReads_step :: "flate \<Rightarrow> mapOrder \<Rightarrow> reading \<Rightarrow> reading option" where
  "serviceReads_step z ord s =
     (if rdPc s = AtRead
      then case FrameReader_Read (rdIn s) of
          (Ok fr, r) \<Rightarrow> Some (s\<lparr>rdIn := r, rdPc := AtDispatch fr\<rparr>)
        | (Fail e, r) \<Rightarrow> Some (s\<lparr>rdIn := r, rdConn := (rdConn s)\<lparr>cerr := Some e\<rparr>, rdPc := AtTerminate TRunning True\<rparr>)
        | (Panic m, r) \<Rightarrow> Some (s\<lparr>rdIn := r, rdPc := Crashed m\<rparr>)
        | (Blocks, r) \<Rightarrow> None
      else map_option (\<lambda>(pc, c). s\<lparr>rdPc := pc, rdConn := c\<rparr>) (conn_step z ord (rdPc s) (rdConn s)))"

section \<open>The others\<close>

text \<open>
  What the other goroutines may do: anything to what has been sent, to the state and the queue of a stream, to the pointers; they stop the connection
  and close its channels and its socket, and never undo that. They leave alone what only the reading goroutine writes: the error, the compression, whether the connection is
  set up, which streams there are.
\<close>

definition rely :: "Conn \<Rightarrow> Conn \<Rightarrow> bool" where
  "rely c c' \<longleftrightarrow> (running c' \<longrightarrow> running c) \<and> (dropClosed c \<longrightarrow> dropClosed c') \<and> (toWriteClosed c \<longrightarrow> toWriteClosed c') \<and>
     (ioclosed (cio c) \<longrightarrow> ioclosed (cio c')) \<and> cerr c' = cerr c \<and> compression c' = compression c \<and>
     configured c' = configured c \<and> map fst (streams c') = map fst (streams c)"

definition shut :: "Conn \<Rightarrow> bool \<times> bool \<times> bool" where
  "shut c = (running c, dropClosed c, toWriteClosed c)"

inductive others_step :: "reading \<Rightarrow> reading \<Rightarrow> bool" where
  others: "rely (rdConn s) c \<Longrightarrow> others_step s (s\<lparr>rdConn := c, rdOther := rdOther s \<or> shut c \<noteq> shut (rdConn s)\<rparr>)"

inductive_cases others_stepE: "others_step s s'"

text \<open>The states in which the goroutine of a new connection can be, on the input \<open>r\<close>.\<close>

inductive reads :: "flate \<Rightarrow> mapOrder \<Rightarrow> reader \<Rightarrow> reading \<Rightarrow> bool" for z ord r where
  reads_start: "reads z ord r \<lparr>rdIn = r, rdConn = NewConn p i io, rdPc = AtLoop, rdOther = False\<rparr>"
| reads_own: "reads z ord r s \<Longrightarrow> serviceReads_step z ord s = Some s' \<Longrightarrow> reads z ord r s'"
| reads_others: "reads z ord r s \<Longrightarrow> others_step s s' \<Longrightarrow> reads z ord r s'"


section \<open>Invariant\<close>

definition setup_known :: "Conn \<Rightarrow> bool" where
  "setup_known c \<longleftrightarrow> compression c \<in> {CompressionMethodNone, CompressionMethodGzip}"

definition shut_open :: "Conn \<Rightarrow> bool" where
  "shut_open c \<longleftrightarrow> running c \<and> \<not> dropClosed c \<and> \<not> toWriteClosed c"

definition shut_done :: "Conn \<Rightarrow> bool" where
  "shut_done c \<longleftrightarrow> \<not> running c \<and> dropClosed c \<and> toWriteClosed c \<and> ioclosed (cio c)"

text \<open>What holds at each place, whatever the others do.\<close>

fun pc_ok :: "readingPC \<Rightarrow> Conn \<Rightarrow> bool" where
  "pc_ok (AtDispatch fr) c = frame_sized fr"
| "pc_ok (AtEnqueue d) c = (fetchStream (dataStreamID d) c \<noteq> None)"
| "pc_ok (AtTerminate t brk) c = (t = TRunning \<or> t = TStop \<or> \<not> running c)"
| "pc_ok Finished c = (\<not> running c)"
| "pc_ok (Crashed m) c = (m = ''send on closed channel'' \<and> toWriteClosed c \<or>
     m = ''close of closed channel'' \<and> (dropClosed c \<or> toWriteClosed c))"
| "pc_ok pc c = True"

text \<open>What holds as long as no other goroutine terminates the connection: it has not crashed, and the state is that of the place.\<close>

fun pc_alone :: "readingPC \<Rightarrow> Conn \<Rightarrow> bool" where
  "pc_alone AtLoop c = (shut_open c \<or> shut_done c)"
| "pc_alone (AtTerminate TRunning brk) c = (shut_open c \<or> shut_done c)"
| "pc_alone (AtTerminate TDrop brk) c = (\<not> running c \<and> \<not> dropClosed c \<and> \<not> toWriteClosed c)"
| "pc_alone (AtTerminate TIo brk) c = (\<not> running c \<and> dropClosed c \<and> \<not> toWriteClosed c)"
| "pc_alone (AtTerminate TToWrite brk) c = (\<not> running c \<and> dropClosed c \<and> \<not> toWriteClosed c \<and> ioclosed (cio c))"
| "pc_alone (AtTerminate TParent brk) c = shut_done c"
| "pc_alone Finished c = shut_done c"
| "pc_alone (Crashed m) c = False"
| "pc_alone pc c = shut_open c"

definition reading_inv :: "reading \<Rightarrow> bool" where
  "reading_inv s \<longleftrightarrow> ends (rdIn s) \<and> setup_known (rdConn s) \<and> pc_ok (rdPc s) (rdConn s) \<and>
     (\<not> rdOther s \<longrightarrow> pc_alone (rdPc s) (rdConn s))"

text \<open>Where a handler can be at its first wait, and what it has done by then.\<close>

definition begun :: "Conn \<Rightarrow> readingPC \<times> Conn \<Rightarrow> bool" where
  "begun c m \<longleftrightarrow> shut (snd m) = shut c \<and> setup_known (snd m) \<and> pc_ok (fst m) (snd m) \<and>
     (case fst m of AtLoop \<Rightarrow> True | AtSend fr a p \<Rightarrow> True | AtEnqueue d \<Rightarrow> True | AtCancel ec is \<Rightarrow> True | _ \<Rightarrow> False)"

lemma begin_begun:
  assumes "setup_known c"
  shows "begun c (protocolError_begin c)" and "begun c (handleHello_begin h c)" and "begun c (handlePing_begin p c)"
    and "begun c (handleGoAway_begin ord g c)" and "begun c (handleMakeStream_begin m c)" and "begun c (handleResetFrame_begin rs c)"
    and "begun c (handleData_begin d c)"
  using assms
  by (auto simp: begun_def shut_def setup_known_def protocolError_begin_def goAway_begin_def Write_begin_def Let_def handleHello_begin_def
      handlePing_begin_def handleGoAway_begin_def handleMakeStream_begin_def handleResetFrame_begin_def handleData_begin_def
      resetStream_begin_def stream_reset_begin_def split: option.splits)

lemma handleWith_begun:
  assumes "setup_known c" and "returns (fst (FromFrame zero fr))" and "\<And>m. begun c (handle m c)"
  shows "begun c (handleWith_begin FromFrame zero handle fr c)"
  using assms begin_begun(1) [OF assms(1)]
  by (cases "FromFrame zero fr" rule: outcome_pair_cases) (simp_all add: handleWith_begin_def)

lemma dispatchFrame_begun:
  assumes "setup_known c" and "frame_sized fr"
  shows "begun c (dispatchFrame_begin ord fr c)"
  unfolding dispatchFrame_begin_def Let_def
  using hello.from_total [OF assms(2)] ping.from_total [OF assms(2)] goaway.from_total [OF assms(2)]
    makestream.from_total [OF assms(2)] resetstream.from_total [OF assms(2)] data.from_total [OF assms(2)]
  by (auto intro!: handleWith_begun begin_begun assms)

lemma cancel_begun:
  "setup_known c \<Longrightarrow> begun c (cancel_step ec i is c)"
  by (auto simp: begun_def cancel_step_def shut_def setup_known_def stream_reset_begin_def Write_begin_def Let_def split: option.splits)

lemma begun_alone: "begun c (pc, c') \<Longrightarrow> shut_open c \<Longrightarrow> pc_alone pc c'"
  by (auto simp: begun_def shut_def shut_open_def split: readingPC.splits)

lemma copyFrame_kept:
  assumes "setup_known c"
  shows "returns (fst (copyFrame z fr c))" and "setup_known (snd (copyFrame z fr c))" and "shut (snd (copyFrame z fr c)) = shut c"
proof -
  show "returns (fst (copyFrame z fr c))" "setup_known (snd (copyFrame z fr c))"
    using copyFrame_Ok_or_Fail [of c z fr] assms by (simp_all add: setup_known_def)
  show "shut (snd (copyFrame z fr c)) = shut c"
    by (cases "fst (Bytes z (compression c) fr)") (simp_all add: copyFrame_def shut_def split: option.splits prod.splits)
qed

text \<open>After the answer.\<close>

lemma Write_end_kept:
  assumes "returns out" and "Write_end a out c = (pc, c')"
  shows "shut c' = shut c" and "setup_known c' = setup_known c" and "pc_ok pc c'" and "shut_open c \<Longrightarrow> pc_alone pc c'"
  using assms by (cases "(a, out, c)" rule: Write_end.cases; auto simp: shut_def shut_open_def setup_known_def)+

lemma terminate_step_kept:
  assumes "terminate_step t brk c = (pc, c')" and "pc_ok (AtTerminate t brk) c"
  shows "setup_known c' = setup_known c" and "pc_ok pc c'" and "pc_alone (AtTerminate t brk) c \<Longrightarrow> pc_alone pc c'"
  using assms by (cases "(t, brk, c)" rule: terminate_step.cases;
      auto simp: shut_open_def shut_done_def setup_known_def io_Close_def split: if_splits)+

lemma enqueue_step_kept:
  assumes "enqueue_step d c = Some (pc, c')"
  shows "pc = AtLoop" and "shut c' = shut c" and "setup_known c' = setup_known c"
  using assms by (auto simp: enqueue_step_def shut_def setup_known_def Let_def split: option.splits outcome.splits prod.splits)

lemma conn_step_kept:
  assumes "conn_step z ord pc c = Some (pc', c')" and "setup_known c" and "pc_ok pc c"
  shows "setup_known c' \<and> pc_ok pc' c' \<and> (pc_alone pc c \<longrightarrow> pc_alone pc' c')"
  using assms
proof (cases "(z, ord, pc, c)" rule: conn_step.cases)
  case (3 z' ord' fr c2)
  then have "begun c (pc', c')" using assms dispatchFrame_begun [of c fr ord] by simp
  then show ?thesis using begun_alone [of c pc' c'] 3 by (simp add: begun_def)
next
  case (5 z' ord' fr a c2)
  obtain out c1 where w: "copyFrame z fr c = (out, c1)" by fastforce
  with 5 assms(1) have e: "Write_end a out c1 = (pc', c')" by simp
  have "returns out" "setup_known c1" "shut c1 = shut c" using copyFrame_kept [OF assms(2), of z fr] w by simp_all
  with Write_end_kept [OF _ e] 5 show ?thesis by (auto simp: shut_def shut_open_def)
next
  case (6 z' ord' d c2)
  then show ?thesis using enqueue_step_kept [of d c pc' c'] assms by (auto simp: shut_def shut_open_def)
next
  case (8 z' ord' ec i "is" c2)
  then have "begun c (pc', c')" using assms cancel_begun [of c ec i "is"] by simp
  then show ?thesis using begun_alone [of c pc' c'] 8 by (simp add: begun_def)
next
  case (9 z' ord' t brk c2)
  then have "terminate_step t brk c = (pc', c')" using assms(1) by simp
  from terminate_step_kept [OF this] 9 assms show ?thesis by simp
qed (auto simp: shut_open_def shut_done_def split: if_splits)

lemma serviceReads_step_inv:
  assumes "serviceReads_step z ord s = Some s'" and "reading_inv s"
  shows "reading_inv s'"
proof (cases "rdPc s = AtRead")
  case True
  have "returns (fst (FrameReader_Read (rdIn s))) \<and> ends (snd (FrameReader_Read (rdIn s)))"
    using assms(2) FrameReader_Read_ends by (simp add: reading_inv_def)
  then show ?thesis using assms True FrameReader_Read_ok [of "rdIn s"]
    by (cases "FrameReader_Read (rdIn s)" rule: outcome_pair_cases)
      (auto simp: serviceReads_step_def reading_inv_def frame_ok_def setup_known_def shut_open_def)
next
  case False
  with assms(1) obtain pc c where "conn_step z ord (rdPc s) (rdConn s) = Some (pc, c)" "s' = s\<lparr>rdPc := pc, rdConn := c\<rparr>"
    by (auto simp: serviceReads_step_def)
  then show ?thesis using conn_step_kept assms(2) by (auto simp: reading_inv_def)
qed

lemma rely_fetchStream: "rely c c' \<Longrightarrow> fetchStream i c' = None \<longleftrightarrow> fetchStream i c = None"
  unfolding rely_def fetchStream_def map_of_eq_None_iff by (metis list.set_map)

lemma pc_ok_rely: "rely c c' \<Longrightarrow> pc_ok pc c \<Longrightarrow> pc_ok pc c'"
  using rely_fetchStream [of c c'] by (cases "(pc, c)" rule: pc_ok.cases) (auto simp: rely_def)

lemma pc_alone_rely: "rely c c' \<Longrightarrow> shut c' = shut c \<Longrightarrow> pc_alone pc c \<Longrightarrow> pc_alone pc c'"
  by (cases "(pc, c)" rule: pc_alone.cases) (auto simp: rely_def shut_def shut_open_def shut_done_def)

lemma others_step_inv: "others_step s s' \<Longrightarrow> reading_inv s \<Longrightarrow> reading_inv s'"
proof (elim others_stepE)
  fix c
  assume c: "rely (rdConn s) c" and s': "s' = s\<lparr>rdConn := c, rdOther := rdOther s \<or> shut c \<noteq> shut (rdConn s)\<rparr>" and inv: "reading_inv s"
  have "setup_known c" using c inv by (simp add: reading_inv_def setup_known_def rely_def)
  then show "reading_inv s'" using inv pc_ok_rely [OF c] pc_alone_rely [OF c] by (simp add: s' reading_inv_def)
qed

lemma reads_inv: "reads z ord r s \<Longrightarrow> ends r \<Longrightarrow> reading_inv s"
proof (induction rule: reads.induct)
  case (reads_start p i io)
  then show ?case by (simp add: reading_inv_def NewConn_def setup_known_def shut_open_def)
qed (blast intro: serviceReads_step_inv others_step_inv)+


section \<open>Progress\<close>

lemma enqueue_step_waits: "enqueue_step d c = None \<Longrightarrow> fetchStream (dataStreamID d) c \<noteq> None \<Longrightarrow> queue_full c"
  by (fastforce simp: enqueue_step_def Enqueue_def Let_def queue_full_def fetchStream_def dest: map_of_SomeD split: option.splits if_splits)

lemma conn_step_waits:
  "conn_step z ord pc c = None \<Longrightarrow> pc_ok pc c \<Longrightarrow> pc \<noteq> AtRead \<Longrightarrow>
     pc = Finished \<or> (\<exists>m. pc = Crashed m) \<or> (\<exists>d. pc = AtEnqueue d \<and> queue_full c)"
  by (cases "(z, ord, pc, c)" rule: conn_step.cases) (auto dest: enqueue_step_waits split: prod.splits)

lemma serviceReads_step_waits:
  assumes "reading_inv s" and "serviceReads_step z ord s = None"
  shows "rdPc s = Finished \<or> (\<exists>m. rdPc s = Crashed m) \<or> (\<exists>d. rdPc s = AtEnqueue d \<and> queue_full (rdConn s))"
proof (cases "rdPc s = AtRead")
  case True
  have "returns (fst (FrameReader_Read (rdIn s)))" using assms(1) FrameReader_Read_ends by (simp add: reading_inv_def)
  then show ?thesis using assms(2) True
    by (cases "FrameReader_Read (rdIn s)" rule: outcome_pair_cases) (simp_all add: serviceReads_step_def)
next
  case False
  then show ?thesis using assms conn_step_waits [of z ord "rdPc s" "rdConn s"] by (simp add: serviceReads_step_def reading_inv_def)
qed

section \<open>Termination\<close>

text \<open>
  Every step gets nearer to the end: the loop is left for good, or a frame has been read, or the frame has been dispatched, or the handler has
  less to do. The others change neither the place nor the input.
\<close>

fun closing_rank :: "closing \<Rightarrow> nat" where
  "closing_rank TRunning = 6"
| "closing_rank TStop = 5"
| "closing_rank TDrop = 4"
| "closing_rank TIo = 3"
| "closing_rank TToWrite = 2"
| "closing_rank TParent = 1"

fun cancels :: "afterWrite \<Rightarrow> nat" where
  "cancels (Cancelling ec is) = 3 * length is"
| "cancels a = 0"

fun pc_rank :: "readingPC \<Rightarrow> nat" where
  "pc_rank AtLoop = 1"
| "pc_rank (AtTerminate t brk) = 1 + closing_rank t"
| "pc_rank (AtCancel ec is) = 8 + 3 * length is"
| "pc_rank (AtAnswer fr a) = 9 + cancels a"
| "pc_rank (AtSend fr a p) = 10 + cancels a"
| "pc_rank (AtEnqueue d) = 2"
| "pc_rank _ = 0"

fun in_loop :: "readingPC \<Rightarrow> bool" where
  "in_loop (AtTerminate t brk) = (\<not> brk)"
| "in_loop Finished = False"
| "in_loop (Crashed m) = False"
| "in_loop pc = True"

definition is_dispatch :: "readingPC \<Rightarrow> bool" where
  "is_dispatch pc \<longleftrightarrow> (\<exists>fr. pc = AtDispatch fr)"

definition pc_less :: "readingPC \<Rightarrow> readingPC \<Rightarrow> bool" where
  "pc_less pc' pc \<longleftrightarrow> (in_loop pc \<and> \<not> in_loop pc') \<or> (in_loop pc' = in_loop pc \<and>
     (is_dispatch pc \<and> \<not> is_dispatch pc' \<or> is_dispatch pc' = is_dispatch pc \<and> pc_rank pc' < pc_rank pc))"

definition to_do :: "reading \<Rightarrow> nat \<times> nat \<times> nat \<times> nat" where
  "to_do s = (of_bool (in_loop (rdPc s)), if in_loop (rdPc s) then rsize (rdIn s) else 0, of_bool (is_dispatch (rdPc s)), pc_rank (rdPc s))"

definition to_do_less :: "((nat \<times> nat \<times> nat \<times> nat) \<times> (nat \<times> nat \<times> nat \<times> nat)) set" where
  "to_do_less = less_than <*lex*> less_than <*lex*> less_than <*lex*> less_than"

lemma wf_to_do_less: "wf to_do_less"
  by (simp add: to_do_less_def wf_lex_prod)

lemma begun_less: "begun c (pc', c') \<Longrightarrow> pc_less pc' (AtDispatch fr)"
  by (auto simp: begun_def pc_less_def is_dispatch_def split: readingPC.splits)

lemma conn_step_less:
  assumes "conn_step z ord pc c = Some (pc', c')" and "pc_ok pc c" and "setup_known c"
  shows "pc_less pc' pc"
  using assms
proof (cases "(z, ord, pc, c)" rule: conn_step.cases)
  case (3 z' ord' fr c2)
  then show ?thesis using assms dispatchFrame_begun [of c fr ord] begun_less by simp
next
  case (5 z' ord' fr a c2)
  obtain out c1 where w: "copyFrame z fr c = (out, c1)" by fastforce
  with 5 assms(1) have e: "Write_end a out c1 = (pc', c')" by simp
  then have "pc_less pc' (AtAnswer fr a)"
    by (cases "(a, out, c1)" rule: Write_end.cases) (auto simp: pc_less_def is_dispatch_def)
  then show ?thesis using 5 by simp
next
  case (6 z' ord' d c2)
  then show ?thesis using enqueue_step_kept(1) [of d c pc' c'] assms(1) by (simp add: pc_less_def is_dispatch_def)
next
  case (8 z' ord' ec i "is" c2)
  then show ?thesis using assms(1)
    by (auto simp: cancel_step_def stream_reset_begin_def Write_begin_def Let_def pc_less_def is_dispatch_def split: option.splits if_splits)
next
  case (9 z' ord' t brk c2)
  then have "terminate_step t brk c = (pc', c')" using assms(1) by simp
  then have "pc_less pc' (AtTerminate t brk)"
    by (cases "(t, brk, c)" rule: terminate_step.cases) (auto simp: pc_less_def is_dispatch_def split: if_splits)
  then show ?thesis using 9 by simp
qed (auto simp: pc_less_def is_dispatch_def split: if_splits)

lemma serviceReads_step_less:
  assumes "serviceReads_step z ord s = Some s'" and "reading_inv s"
  shows "(to_do s', to_do s) \<in> to_do_less"
proof (cases "rdPc s = AtRead")
  case True
  then show ?thesis using assms(1) FrameReader_Read_shrinks [of "rdIn s"]
    by (auto simp: serviceReads_step_def to_do_def to_do_less_def is_dispatch_def split: prod.splits outcome.splits)
next
  case False
  with assms(1) obtain pc c where st: "conn_step z ord (rdPc s) (rdConn s) = Some (pc, c)" "s' = s\<lparr>rdPc := pc, rdConn := c\<rparr>"
    by (auto simp: serviceReads_step_def)
  have "pc_less pc (rdPc s)" using conn_step_less [OF st(1)] assms(2) by (simp add: reading_inv_def)
  then show ?thesis by (auto simp: st(2) to_do_def to_do_less_def pc_less_def)
qed

text \<open>A step of the goroutine after any steps of the others.\<close>

definition round_step :: "flate \<Rightarrow> mapOrder \<Rightarrow> reading \<Rightarrow> reading \<Rightarrow> bool" where
  "round_step z ord s s' \<longleftrightarrow> (\<exists>t. others_step\<^sup>*\<^sup>* s t \<and> serviceReads_step z ord t = Some s')"

lemma others_step_to_do: "others_step s t \<Longrightarrow> to_do t = to_do s"
  by (elim others_stepE) (simp add: to_do_def)

lemma others_steps_kept: "others_step\<^sup>*\<^sup>* s t \<Longrightarrow> to_do t = to_do s \<and> (reading_inv s \<longrightarrow> reading_inv t)"
  by (induction rule: rtranclp_induct) (simp_all add: others_step_to_do others_step_inv)

lemma rounds_end: "reading_inv s \<Longrightarrow> termip (round_step z ord) s"
proof (induction "to_do s" arbitrary: s rule: wf_induct_rule [OF wf_to_do_less])
  case (1 s)
  show ?case
  proof (rule accpI)
    fix s'
    assume "(round_step z ord)\<inverse>\<inverse> s' s"
    then obtain t where t: "others_step\<^sup>*\<^sup>* s t" and s': "serviceReads_step z ord t = Some s'" by (auto simp: round_step_def)
    note kept = others_steps_kept [OF t]
    have "(to_do s', to_do s) \<in> to_do_less" using serviceReads_step_less [OF s'] kept 1(2) by simp
    moreover have "reading_inv s'" using serviceReads_step_inv [OF s'] kept 1(2) by simp
    ultimately show "termip (round_step z ord) s'" using 1(1) by simp
  qed
qed


section \<open>What the others do\<close>

text \<open>The goroutines of the program keep to \<open>rely\<close>: the writing goroutine that compares and terminates, an application that calls a stream, a server that shuts
  down.\<close>

lemma rely_refl: "rely c c"
  by (simp add: rely_def)

lemma rely_trans: "rely c c1 \<Longrightarrow> rely c1 c2 \<Longrightarrow> rely c c2"
  by (auto simp: rely_def)

lemma rely_terminate: "rely c (terminate c)"
  by (auto simp: rely_def terminate_def io_Close_def)

lemma io_Write_ioclosed: "ioclosed (snd (io_Write d io)) = ioclosed io"
  by (auto simp: io_Write_def split: option.splits)

lemma rely_copyFrame: "rely c (snd (copyFrame z fr c))"
proof (cases "cerr c")
  case None
  then show ?thesis
  proof (cases "fst (Bytes z (compression c) fr)")
    case (Ok d)
    then show ?thesis using None io_Write_ioclosed [of d "cio c"] by (cases "io_Write d (cio c)") (simp add: copyFrame_def rely_def)
  qed (simp_all add: copyFrame_def rely_def)
qed (simp add: copyFrame_def rely_def)

lemma rely_WritePtr: "rely c (snd (Conn_WritePtr z p fr c))"
  using rely_copyFrame [of c z fr] rely_trans [OF _ rely_terminate]
  by (cases "copyFrame z fr c" rule: outcome_pair_cases) (auto simp: Conn_WritePtr_def serviceWrite_copyFrame rely_refl)

lemma rely_nextPtr: "rely c (c\<lparr>nextPtr := n\<rparr>)" "rely c (c\<lparr>nextPtr := n, terminateAfter := p\<rparr>)"
  by (simp_all add: rely_def)

lemma rely_Write: "rely c (snd (Conn_Write z fr c))"
  unfolding Conn_Write_def by (rule rely_trans [OF rely_nextPtr(1) rely_WritePtr])

lemma rely_goAway: "rely c (snd (goAway z ec d final c))"
proof -
  have "rely c (if final then c\<lparr>nextPtr := n, terminateAfter := p\<rparr> else c\<lparr>nextPtr := n\<rparr>)" for n p
    by (simp add: rely_nextPtr)
  from rely_trans [OF this rely_WritePtr] show ?thesis by (simp only: goAway_def Let_def snd_ignoreErr)
qed

interpretation crl: write_keeps "Conn_Write z" "rely c0" for z c0
  by unfold_locales (rule rely_trans [OF _ rely_Write])

lemma rely_app:
  assumes "fetchStream i c = Some s"
  shows "rely c (snd (on_stream (app_call (Conn_Write z) op) i s c))"
proof -
  obtain out s' c' where op: "app_call (Conn_Write z) op (s, c) = (out, s', c')" by (metis prod_cases3)
  then have c': "rely c c'" using crl.app_call_keeps [of c c z op s] by (simp add: rely_refl)
  have "i \<in> fst ` set (streams c')" using c' assms rely_fetchStream [of c c' i] by (auto simp: fetchStream_def map_of_eq_None_iff)
  then have "rely c' (c'\<lparr>streams := AList.update i s' (streams c')\<rparr>)" by (simp add: rely_def keys_update)
  then show ?thesis using c' op by (auto simp: on_stream_def intro: rely_trans)
qed


section \<open>The undisturbed goroutine\<close>

text \<open>
  \<open>serviceReads\<close> of \<open>Wire_Conn\<close>, which runs a handler with its write, the answer and the comparison of the writing goroutine as one step, is one of
  the runs here: the one in which the writing goroutine, after each answer, compares before the reading goroutine goes on.
\<close>

definition any_step :: "flate \<Rightarrow> mapOrder \<Rightarrow> reading \<Rightarrow> reading \<Rightarrow> bool" where
  "any_step z ord s s' \<longleftrightarrow> serviceReads_step z ord s = Some s' \<or> others_step s s'"

definition runs :: "flate \<Rightarrow> mapOrder \<Rightarrow> readingPC \<times> Conn \<Rightarrow> Conn \<Rightarrow> bool" where
  "runs z ord m c' \<longleftrightarrow> (\<forall>r b. \<exists>b'. (any_step z ord)\<^sup>*\<^sup>*
     \<lparr>rdIn = r, rdConn = snd m, rdPc = fst m, rdOther = b\<rparr> \<lparr>rdIn = r, rdConn = c', rdPc = AtLoop, rdOther = b'\<rparr>)"

lemma runs_refl: "runs z ord (AtLoop, c) c"
  by (auto simp: runs_def)

lemma runs_step:
  assumes "conn_step z ord pc c = Some m" and "runs z ord m c'"
  shows "runs z ord (pc, c) c'"
proof -
  have "pc \<noteq> AtRead" using assms(1) by auto
  then have "any_step z ord \<lparr>rdIn = r, rdConn = c, rdPc = pc, rdOther = b\<rparr> \<lparr>rdIn = r, rdConn = snd m, rdPc = fst m, rdOther = b\<rparr>" for r b
    using assms(1) by (simp add: any_step_def serviceReads_step_def split: prod.splits)
  then show ?thesis using assms(2) unfolding runs_def by (metis converse_rtranclp_into_rtranclp fst_conv snd_conv)
qed

lemma runs_rely:
  assumes "rely c c1" and "runs z ord (pc, c1) c'"
  shows "runs z ord (pc, c) c'"
proof -
  have "\<exists>b'. any_step z ord \<lparr>rdIn = r, rdConn = c, rdPc = pc, rdOther = b\<rparr> \<lparr>rdIn = r, rdConn = c1, rdPc = pc, rdOther = b'\<rparr>" for r b
    using others [of "\<lparr>rdIn = r, rdConn = c, rdPc = pc, rdOther = b\<rparr>" c1] assms(1) by (auto simp: any_step_def)
  then show ?thesis using assms(2) unfolding runs_def by (metis converse_rtranclp_into_rtranclp fst_conv snd_conv)
qed

lemma steps_terminate:
  assumes "shut_flags c"
  shows "(any_step z ord)\<^sup>*\<^sup>* \<lparr>rdIn = r, rdConn = c, rdPc = AtTerminate TRunning brk, rdOther = b\<rparr>
    \<lparr>rdIn = r, rdConn = terminate c, rdPc = (if brk then Finished else AtLoop), rdOther = b\<rparr>"
proof -
  define leads where "leads pc c1 = (any_step z ord)\<^sup>*\<^sup>* \<lparr>rdIn = r, rdConn = c1, rdPc = pc, rdOther = b\<rparr>
    \<lparr>rdIn = r, rdConn = terminate c, rdPc = (if brk then Finished else AtLoop), rdOther = b\<rparr>" for pc c1
  have more: "leads (AtTerminate t brk) c1" if "leads pc c2" and "terminate_step t brk c1 = (pc, c2)" for t c1 pc c2
  proof -
    have "any_step z ord \<lparr>rdIn = r, rdConn = c1, rdPc = AtTerminate t brk, rdOther = b\<rparr> \<lparr>rdIn = r, rdConn = c2, rdPc = pc, rdOther = b\<rparr>"
      using that(2) by (simp add: any_step_def serviceReads_step_def)
    then show ?thesis using that(1) unfolding leads_def by (rule converse_rtranclp_into_rtranclp)
  qed
  have fin: "leads (if brk then Finished else AtLoop) (terminate c)" by (simp add: leads_def)
  have "leads (AtTerminate TRunning brk) c"
  proof (cases "running c")
    case False
    then show ?thesis using more [OF fin, of TRunning c] by (simp add: terminate_def)
  next
    case True
    let ?c2 = "c\<lparr>running := False, dropClosed := True\<rparr>"
    let ?c3 = "?c2\<lparr>cio := io_Close (cio c)\<rparr>"
    have "leads (AtTerminate TParent brk) (?c3\<lparr>toWriteClosed := True\<rparr>)" by (rule more [OF fin]) (simp add: terminate_def True)
    then have "leads (AtTerminate TToWrite brk) ?c3" by (rule more) (use True assms in \<open>simp add: shut_flags_def\<close>)
    then have "leads (AtTerminate TIo brk) ?c2" by (rule more) simp
    then have "leads (AtTerminate TDrop brk) (c\<lparr>running := False\<rparr>)" by (rule more) (use True assms in \<open>simp add: shut_flags_def\<close>)
    then have "leads (AtTerminate TStop brk) c" by (rule more) simp
    then show ?thesis by (rule more) (simp add: True)
  qed
  then show ?thesis by (simp add: leads_def)
qed

lemma runs_terminate: "shut_flags c \<Longrightarrow> runs z ord (AtTerminate TRunning False, c) (terminate c)"
  using steps_terminate [of c _ _ _ False] by (fastforce simp: runs_def)

text \<open>A write, its answer, and the comparison.\<close>

lemma runs_write:
  assumes w: "Conn_WritePtr z p fr c = (out, c1)" and ret: "returns out" and rest: "runs z ord (Write_end a out c1) c'"
  shows "runs z ord (AtSend fr a p, c) c'"
proof -
  have opn: "\<not> toWriteClosed c" using w ret by (auto simp: Conn_WritePtr_def)
  obtain o0 c0 where cp: "copyFrame z fr c = (o0, c0)" by fastforce
  have b: "bindR (o0, c0) (\<lambda>_ c. (Ok (), if terminateAfter c = Some p then terminate c else c)) = (out, c1)"
    using w opn cp by (simp add: Conn_WritePtr_def serviceWrite_copyFrame)
  have "runs z ord (Write_end a o0 c0) c'"
  proof (cases o0)
    case (Ok u)
    then have out: "out = Ok ()" and c1: "c1 = (if terminateAfter c0 = Some p then terminate c0 else c0)" using b by auto
    have "rely c0 c1" by (simp add: c1 rely_refl rely_terminate)
    moreover obtain pc where "Write_end a (Ok u) c = (pc, c)" for c by (cases a) auto
    ultimately show ?thesis using rest runs_rely Ok out by (metis old.unit.exhaust)
  qed (use b rest ret in auto)
  then have "runs z ord (AtAnswer fr a, c) c'" by (rule runs_step [rotated]) (simp add: cp)
  then show ?thesis by (rule runs_step [rotated]) (simp add: opn)
qed


lemma ignoreErr_eq_Ok: "ignoreErr m = (Ok (), c) \<Longrightarrow> \<exists>out. m = (out, c) \<and> returns out"
  by (cases m rule: ignoreErr.cases) auto

lemma Write_end_Ignoring: "returns out \<Longrightarrow> Write_end Ignoring out c = (AtLoop, c)"
  by (cases out) simp_all

lemma runs_Write:
  assumes "Conn_Write z fr c = (out, c1)" and "returns out" and "runs z ord (Write_end a out c1) c'"
  shows "runs z ord (Write_begin fr a c) c'"
  using runs_write [OF assms(1) [unfolded Conn_Write_def] assms(2,3)] by (simp add: Write_begin_def)

lemma runs_protocolError:
  assumes "protocolError z c = (Ok (), c')"
  shows "runs z ord (protocolError_begin c) c'"
proof -
  from ignoreErr_eq_Ok [OF assms [unfolded protocolError_def goAway_def Let_def]] obtain out
    where w: "Conn_WritePtr z (nextPtr c) (GoAway_IntoFrame \<lparr>LastStreamID = lastStreamID c, goAwayErrorCode = ErrorCodeProtocolError, AdditionalData = []\<rparr>)
      (c\<lparr>nextPtr := Suc (nextPtr c), terminateAfter := Some (nextPtr c)\<rparr>) = (out, c')" and "returns out" by auto
  then show ?thesis using runs_write [OF w, where a = Ignoring]
    by (simp add: protocolError_begin_def goAway_begin_def Let_def Write_end_Ignoring runs_refl)
qed

lemma runs_resetStream:
  assumes "resetStream z i ec c = (Ok (), c')"
  shows "runs z ord (resetStream_begin i ec c) c'"
proof -
  from ignoreErr_eq_Ok [OF assms [unfolded resetStream_def]] obtain out
    where "Conn_Write z (ResetStream_IntoFrame \<lparr>resetStreamID = i, resetErrorCode = ec\<rparr>) c = (out, c')" "returns out" by auto
  then show ?thesis using runs_Write [of z _ c out c' ord Ignoring]
    by (simp add: resetStream_begin_def Write_end_Ignoring runs_refl)
qed

lemma runs_stream_reset:
  assumes "stream_reset (Conn_Write z) ec (s, c) = (out, s', c1)" and "returns out" and "runs z ord (Write_end a out c1) c'"
  shows "runs z ord (stream_reset_begin ec a s c) c'"
  using assms runs_Write [OF _ assms(2,3)]
  by (auto simp: stream_reset_def stream_write_def stream_reset_begin_def split: prod.splits)

lemma runs_hello:
  assumes "conn_inv c" and "handleHello z h c = (Ok (), c')"
  shows "runs z ord (handleHello_begin h c) c'"
proof (cases "configured c")
  case True
  then show ?thesis using assms runs_protocolError by (simp add: handleHello_def handleHello_begin_def)
next
  case False
  let ?c = "(if CompressionGZip h then c\<lparr>compression := CompressionMethodGzip\<rparr> else c)\<lparr>configured := True\<rparr>"
  let ?f = "Hello_IntoFrame \<lparr>helloAck = True, CompressionGZip = CompressionGZip h, MaxConcurrentStreams = 0\<rparr>"
  have beg: "handleHello_begin h c = Write_begin ?f OrTerminate ?c" using False by (simp add: handleHello_begin_def Let_def)
  have fin: "(case Conn_Write z ?f ?c of (Fail e, c) \<Rightarrow> (Ok (), terminate c) | (out, c) \<Rightarrow> (out, c)) = (Ok (), c')"
    using assms(2) False by (simp add: handleHello_def Let_def)
  have inv: "conn_inv (snd (Conn_Write z ?f ?c))" using Conn_Write_keeps [OF hello_setup_inv [OF assms(1) False] hello_frame_ok] by blast
  show ?thesis unfolding beg
  proof (cases "Conn_Write z ?f ?c" rule: outcome_pair_cases)
    case (Ok u c1)
    then show "runs z ord (Write_begin ?f OrTerminate ?c) c'" using fin by (intro runs_Write [OF Ok]) (simp_all add: runs_refl)
  next
    case (Fail e c1)
    then have "shut_flags c1" "c' = terminate c1" using fin inv by (simp_all add: conn_inv_def)
    then show "runs z ord (Write_begin ?f OrTerminate ?c) c'" by (intro runs_Write [OF Fail]) (simp_all add: runs_terminate)
  qed (use fin in simp_all)
qed

lemma runs_ping:
  assumes "conn_inv c" and "length (pingPayload p) < 65536" and "handlePing z p c = (Ok (), c')"
  shows "runs z ord (handlePing_begin p c) c'"
proof (cases "configured c \<and> \<not> pingAck p")
  case False
  then show ?thesis using assms runs_protocolError by (auto simp: handlePing_def handlePing_begin_def runs_refl split: if_splits)
next
  case True
  let ?f = "Ping_IntoFrame \<lparr>pingAck = True, pingPayload = pingPayload p\<rparr>"
  have beg: "handlePing_begin p c = Write_begin ?f OrRecord c" using True by (simp add: handlePing_begin_def)
  have fin: "(case Conn_Write z ?f c of (Fail e, c) \<Rightarrow> (Ok (), terminate (c\<lparr>cerr := Some e\<rparr>)) | (out, c) \<Rightarrow> (out, c)) = (Ok (), c')"
    using assms(3) True by (simp add: handlePing_def)
  have inv: "conn_inv (snd (Conn_Write z ?f c))" using Conn_Write_keeps [OF assms(1) ping_frame_ok] assms(2) by simp
  show ?thesis unfolding beg
  proof (cases "Conn_Write z ?f c" rule: outcome_pair_cases)
    case (Ok u c1)
    then show "runs z ord (Write_begin ?f OrRecord c) c'" using fin by (intro runs_Write [OF Ok]) (simp_all add: runs_refl)
  next
    case (Fail e c1)
    then have "shut_flags (c1\<lparr>cerr := Some e\<rparr>)" "c' = terminate (c1\<lparr>cerr := Some e\<rparr>)"
      using fin inv by (simp_all add: conn_inv_def shut_flags_def)
    then show "runs z ord (Write_begin ?f OrRecord c) c'" by (intro runs_Write [OF Fail]) (simp_all add: runs_terminate)
  qed (use fin in simp_all)
qed

lemma update_same: "map_of al k = Some v \<Longrightarrow> AList.update k v al = al"
  by (induction al) (auto split: if_splits)

lemma runs_refused:
  assumes get: "fetchStream i c = Some s" and inv: "conn_inv c"
    and op: "on_stream (\<lambda>sc. ignoreErr (stream_reset (Conn_Write z) ec sc)) i s c = (Ok (), c')"
  shows "runs z ord (stream_reset_begin ec Ignoring s c) c'"
proof -
  obtain out s1 c1 where w: "stream_reset (Conn_Write z) ec (s, c) = (out, s1, c1)" by (metis prod_cases3)
  have ret: "returns out" and c': "c' = c1\<lparr>streams := AList.update i s1 (streams c1)\<rparr>"
    using op w by (cases out; auto simp: on_stream_def)+
  have s1: "s1 = s" using w by (auto simp: stream_reset_def stream_write_def split: prod.splits)
  have "streams c1 = streams c" using cw.stream_reset_keeps [of "(s, c)" c z ec] w inv by (simp add: write_frame_def)
  then have "c' = c1" using c' s1 get by (simp add: fetchStream_def update_same)
  then show ?thesis using runs_stream_reset [OF w ret] ret by (simp add: Write_end_Ignoring runs_refl)
qed

lemma runs_makeStream:
  "handleMakeStream z m c = (Ok (), c') \<Longrightarrow> runs z ord (handleMakeStream_begin m c) c'"
  by (auto simp: handleMakeStream_def handleMakeStream_begin_def Let_def runs_refl runs_protocolError split: if_splits option.splits)


lemma runs_resetFrame:
  assumes "conn_inv c" and "handleResetFrame z rs c = (Ok (), c')"
  shows "runs z ord (handleResetFrame_begin rs c) c'"
proof (cases "configured c")
  case True
  show ?thesis
  proof (cases "fetchStream (resetStreamID rs) c")
    case None
    then show ?thesis using assms True runs_resetStream by (simp add: handleResetFrame_def handleResetFrame_begin_def)
  next
    case (Some s)
    then have op: "on_stream (stream_handleResetStream (Conn_Write z) rs) (resetStreamID rs) s c = (Ok (), c')"
      using assms True by (simp add: handleResetFrame_def)
    then show ?thesis using runs_refused [OF Some assms(1)] Some True
      by (auto simp: handleResetFrame_begin_def stream_handleResetStream_def on_stream_def runs_refl split: if_splits)
  qed
qed (use assms runs_protocolError in \<open>simp add: handleResetFrame_def handleResetFrame_begin_def\<close>)

lemma runs_data:
  assumes "conn_inv c" and "handleData z d c = (Ok (), c')"
  shows "runs z ord (handleData_begin d c) c'"
proof (cases "configured c")
  case True
  show ?thesis
  proof (cases "fetchStream (dataStreamID d) c")
    case None
    then show ?thesis using assms True runs_resetStream by (simp add: handleData_def handleData_begin_def)
  next
    case (Some s)
    then have op: "on_stream (stream_handleData (Conn_Write z) d) (dataStreamID d) s c = (Ok (), c')"
      using assms True by (simp add: handleData_def)
    show ?thesis
    proof (cases "RecvData (sstate s) = Ok ()")
      case False
      then show ?thesis using runs_refused [OF Some assms(1)] op Some True
        by (simp add: handleData_begin_def stream_handleData_def on_stream_def)
    next
      case rcv: True
      obtain out q where q: "Enqueue (dataPayload d) (sreader s) = (out, q)" by fastforce
      then have "out = Ok ()" using op rcv by (cases out) (auto simp: stream_handleData_def on_stream_def)
      then have "enqueue_step d c = Some (AtLoop, c')"
        using op rcv q Some by (auto simp: enqueue_step_def stream_handleData_def on_stream_def Let_def)
      then have "runs z ord (AtEnqueue d, c) c'" by (intro runs_step [OF _ runs_refl]) simp
      then show ?thesis using rcv Some True by (simp add: handleData_begin_def)
    qed
  qed
qed (use assms runs_protocolError in \<open>simp add: handleData_def handleData_begin_def\<close>)

text \<open>The table of streams and a write do not see each other.\<close>

lemma WritePtr_streams:
  "Conn_WritePtr z p fr (c\<lparr>streams := ss\<rparr>) = (fst (Conn_WritePtr z p fr c), (snd (Conn_WritePtr z p fr c))\<lparr>streams := ss\<rparr>)"
proof (cases "fst (Bytes z (compression c) fr)")
  case (Ok d)
  then show ?thesis
    by (cases rule: io_Write_cases [of d "cio c"]; cases "cerr c") (auto simp: Conn_WritePtr_def serviceWrite_def terminate_def)
qed (cases "cerr c"; simp add: Conn_WritePtr_def serviceWrite_def)+

lemma Write_streams:
  "Conn_Write z fr (c\<lparr>streams := ss\<rparr>) = (fst (Conn_Write z fr c), (snd (Conn_Write z fr c))\<lparr>streams := ss\<rparr>)"
proof -
  have "nextPtr (c\<lparr>streams := ss\<rparr>) = nextPtr c"
    and "c\<lparr>streams := ss, nextPtr := n\<rparr> = c\<lparr>nextPtr := n, streams := ss\<rparr>" for n by simp_all
  with WritePtr_streams [where c = "c\<lparr>nextPtr := Suc (nextPtr c)\<rparr>" and ss = ss, of z "nextPtr c" fr] show ?thesis
    by (simp only: Conn_Write_def)
qed

lemma stream_reset_streams:
  "stream_reset (Conn_Write z) ec (s, c\<lparr>streams := ss\<rparr>) =
     (fst (stream_reset (Conn_Write z) ec (s, c)), s, (snd (snd (stream_reset (Conn_Write z) ec (s, c))))\<lparr>streams := ss\<rparr>)"
  by (simp add: stream_reset_def stream_write_def Write_streams split: prod.splits)

lemma Write_end_Cancelling: "returns out \<Longrightarrow> Write_end (Cancelling ec is) out c = (AtCancel ec is, c)"
  by (cases out) simp_all

text \<open>One stream of \<^verbatim>\<open>cancelStreams\<close>.\<close>

lemma runs_cancel_one:
  assumes inv: "conn_inv c" and run: "running c" and get: "fetchStream i c = Some s"
    and op: "on_stream (stream_Reset (Conn_Write z) ec) i s c = (out, c2)" and rest: "runs z ord (AtCancel ec is, c2) c'"
  shows "runs z ord (AtCancel ec (i # is), c) c'"
proof (cases "SendResetStream (sstate s) = Ok ()")
  case False
  then have "c2 = c" using op get by (cases "SendResetStream (sstate s)") (auto simp: stream_Reset_def on_stream_def fetchStream_def update_same)
  moreover have "conn_step z ord (AtCancel ec (i # is)) c = Some (AtCancel ec is, c)" using get False by (simp add: cancel_step_def)
  ultimately show ?thesis using rest runs_step by blast
next
  case True
  let ?s = "s\<lparr>sstate := streamState_Close (sstate s), sreader := internalClose (sreader s)\<rparr>"
  let ?ss = "AList.update i ?s (streams c)"
  obtain out1 s1 c3 where w: "stream_reset (Conn_Write z) ec (?s, c) = (out1, s1, c3)" by (metis prod_cases3)
  have s1: "s1 = ?s" using w by (auto simp: stream_reset_def stream_write_def split: prod.splits)
  have ret: "returns out1" using cwr.stream_reset_returns [of "(?s, c)" z ec] w inv run by simp
  have "streams c3 = streams c" using cw.stream_reset_keeps [of "(?s, c)" c z ec] w inv by (simp add: write_frame_def)
  then have c2: "c2 = c3\<lparr>streams := ?ss\<rparr>" using op w s1 True by (simp add: stream_Reset_def on_stream_def)
  have w': "stream_reset (Conn_Write z) ec (?s, c\<lparr>streams := ?ss\<rparr>) = (out1, ?s, c2)"
    unfolding stream_reset_streams by (simp add: w c2)
  have "runs z ord (stream_reset_begin ec (Cancelling ec is) ?s (c\<lparr>streams := ?ss\<rparr>)) c'"
    by (rule runs_stream_reset [OF w' ret]) (use ret rest in \<open>simp add: Write_end_Cancelling\<close>)
  then show ?thesis by (rule runs_step [rotated]) (use get True in \<open>simp add: cancel_step_def Let_def\<close>)
qed

lemma runs_cancel:
  "conn_inv c \<Longrightarrow> running c \<Longrightarrow> cancelStreams_loop z ec is c = (Ok (), c1) \<Longrightarrow> runs z ord (AtCancel ec is, c) (terminate c1)"
proof (induction "is" arbitrary: c)
  case Nil
  then have "shut_flags c" by (simp add: conn_inv_def)
  moreover have "c1 = c" using Nil.prems(3) by simp
  ultimately show ?case using runs_step [OF _ runs_terminate, of z ord "AtCancel ec []" c c] by simp
next
  case (Cons i "is")
  show ?case
  proof (cases "fetchStream i c")
    case None
    then have "conn_step z ord (AtCancel ec (i # is)) c = Some (AtCancel ec is, c)" and "cancelStreams_loop z ec is c = (Ok (), c1)"
      using Cons.prems(3) by (simp_all add: cancel_step_def)
    then show ?thesis using Cons.IH [OF Cons.prems(1,2)] runs_step by blast
  next
    case (Some s)
    obtain out c2 where op: "on_stream (stream_Reset (Conn_Write z) ec) i s c = (out, c2)" by fastforce
    with Cons.prems(3) Some have rest: "cancelStreams_loop z ec is c2 = (Ok (), c1)" by (cases out) auto
    have "running c2" using cwr.stream_Reset_keeps [of c z ec s] Cons.prems(1,2) op running_on_stream [of "stream_Reset (Conn_Write z) ec" i s c]
      by simp
    moreover have "conn_inv c2"
      using on_stream_inv [OF Cons.prems(1) Some, of "stream_Reset (Conn_Write z) ec"] cw.stream_Reset_keeps [of c c z ec s]
        stream_ops_kept(4) [of s "Conn_Write z" ec c] Cons.prems(1) op by simp
    ultimately show ?thesis using Cons.IH rest runs_cancel_one [OF Cons.prems(1,2) Some op] by blast
  qed
qed

lemma runs_goAway:
  assumes "conn_inv c" and "running c" and "handleGoAway z ord g c = (Ok (), c')"
  shows "runs z ord (handleGoAway_begin ord g c) c'"
proof (cases "configured c")
  case True
  then obtain c1 where "cancelStreams_loop z (goAwayErrorCode g) (ord (map fst (streams c))) c = (Ok (), c1)" "c' = terminate c1"
    using assms(3) by (auto simp: handleGoAway_def cancelStreams_def bindR_eq_Ok_iff)
  then show ?thesis using runs_cancel [OF assms(1,2)] True by (simp add: handleGoAway_begin_def)
qed (use assms runs_protocolError in \<open>simp add: handleGoAway_def handleGoAway_begin_def\<close>)

lemma runs_handleWith:
  assumes "handleWith FromFrame zero handle z fr c = (Ok (), c')"
    and "\<And>m. FromFrame zero fr = (Ok (), m) \<Longrightarrow> handle m c = (Ok (), c') \<Longrightarrow> runs z ord (handle_begin m c) c'"
  shows "runs z ord (handleWith_begin FromFrame zero handle_begin fr c) c'"
  using assms runs_protocolError
  by (cases "FromFrame zero fr" rule: outcome_pair_cases) (simp_all add: handleWith_def handleWith_begin_def)

lemma runs_dispatchFrame:
  assumes "conn_inv c" and "running c" and "frame_sized fr" and "dispatchFrame z ord fr c = (Ok (), c')"
  shows "runs z ord (dispatchFrame_begin ord fr c) c'"
  using assms(4) unfolding dispatchFrame_def dispatchFrame_begin_def Let_def
  by (auto intro!: runs_handleWith runs_protocolError runs_hello runs_ping runs_goAway runs_makeStream runs_resetFrame runs_data assms(1,2)
      dest: Ping_FromFrame_payload [OF _ assms(3)] split: if_splits)

text \<open>Every run of the one-step model that returns is a run here.\<close>

lemma serviceReads_runs:
  assumes "conn_inv c" and "serviceReads z ord r c = (Ok (), r', c')"
  shows "\<exists>b'. (any_step z ord)\<^sup>*\<^sup>* \<lparr>rdIn = r, rdConn = c, rdPc = AtLoop, rdOther = b\<rparr> \<lparr>rdIn = r', rdConn = c', rdPc = Finished, rdOther = b'\<rparr>"
  using assms
proof (induction z ord r c arbitrary: b rule: serviceReads.induct)
  case (1 z ord r c)
  note def = serviceReads.simps [of z ord r c]
  let ?at = "\<lambda>pc r c. \<lparr>rdIn = r, rdConn = c, rdPc = pc, rdOther = b\<rparr>"
  have loop: "any_step z ord (?at AtLoop r c) (?at (if running c then AtRead else Finished) r c)"
    by (simp add: any_step_def serviceReads_step_def)
  show ?case
  proof (cases "running c")
    case False
    then show ?thesis using loop "1.prems" by (auto simp: def)
  next
    case run: True
    show ?thesis
    proof (cases "FrameReader_Read r" rule: outcome_pair_cases)
      case (Ok fr r1)
      have fr: "frame_sized fr" using FrameReader_Read_ok [OF Ok] by (simp add: frame_ok_def)
      obtain c1 where d: "dispatchFrame z ord fr c = (Ok (), c1)"
        using "1.prems"(2) run Ok by (cases "dispatchFrame z ord fr c" rule: outcome_pair_cases) (auto simp: def)
      have inv1: "conn_inv c1" using dispatchFrame_inv [OF "1.prems"(1) fr, of z ord] d by simp
      have rest: "serviceReads z ord r1 c1 = (Ok (), r', c')" using "1.prems"(2) run Ok d by (simp add: def)
      have "any_step z ord (?at AtRead r c) (?at (AtDispatch fr) r1 c)" by (simp add: any_step_def serviceReads_step_def Ok)
      moreover have "runs z ord (AtDispatch fr, c) c1"
        using runs_dispatchFrame [OF "1.prems"(1) run fr d] by (intro runs_step [of z ord]) simp_all
      then obtain b1 where "(any_step z ord)\<^sup>*\<^sup>* (?at (AtDispatch fr) r1 c) \<lparr>rdIn = r1, rdConn = c1, rdPc = AtLoop, rdOther = b1\<rparr>"
        by (auto simp: runs_def)
      ultimately have "(any_step z ord)\<^sup>*\<^sup>* (?at AtLoop r c) \<lparr>rdIn = r1, rdConn = c1, rdPc = AtLoop, rdOther = b1\<rparr>"
        using loop run by (auto intro: converse_rtranclp_into_rtranclp)
      then show ?thesis using "1.IH" [OF _ Ok [symmetric] refl d [symmetric] refl inv1 rest, of b1] run by (auto intro: rtranclp_trans)
    next
      case (Fail e r1)
      let ?c = "c\<lparr>cerr := Some e\<rparr>"
      have "any_step z ord (?at AtRead r c) (?at (AtTerminate TRunning True) r1 ?c)" by (simp add: any_step_def serviceReads_step_def Fail)
      moreover have "shut_flags ?c" using "1.prems"(1) by (simp add: conn_inv_def shut_flags_def)
      moreover have "c' = terminate ?c" "r' = r1" using "1.prems"(2) run Fail by (auto simp: def)
      ultimately show ?thesis using loop run steps_terminate [of ?c z ord r1 True b]
        by (auto intro!: exI [of _ b] intro: converse_rtranclp_into_rtranclp)
    qed (use "1.prems"(2) run in \<open>auto simp: def\<close>)
  qed
qed


lemma any_steps_reads: "(any_step z ord)\<^sup>*\<^sup>* s s' \<Longrightarrow> reads z ord r s \<Longrightarrow> reads z ord r s'"
  by (induction rule: rtranclp_induct) (auto simp: any_step_def intro: reads_own reads_others)


section \<open>Two goroutines in terminate\<close>

text \<open>The test of \<^verbatim>\<open>running\<close> is not synchronised: the reading goroutine meets the end of the input and passes it, another goroutine
  terminates the connection, and the reading goroutine closes \<^verbatim>\<open>drop\<close> a second time.\<close>

lemma terminate_races:
  assumes "FrameReader_Read r = (Fail e, r')"
  shows "\<exists>s. reads z ord r s \<and> rdPc s = Crashed ''close of closed channel''"
proof -
  define at where "at pc r c b = \<lparr>rdIn = r, rdConn = c, rdPc = pc, rdOther = b\<rparr>" for pc r c b
  let ?c = "NewConn True 0 \<lparr>outp = [], writes = 0, fault = \<lambda>_. None, ioclosed = False\<rparr>"
  let ?c1 = "?c\<lparr>cerr := Some e\<rparr>"
  have "reads z ord r (at AtLoop r ?c False)" unfolding at_def by (rule reads_start)
  then have "reads z ord r (at AtRead r ?c False)" by (rule reads_own) (simp add: at_def serviceReads_step_def NewConn_def)
  then have "reads z ord r (at (AtTerminate TRunning True) r' ?c1 False)" by (rule reads_own) (simp add: at_def serviceReads_step_def assms)
  then have "reads z ord r (at (AtTerminate TStop True) r' ?c1 False)" by (rule reads_own) (simp add: at_def serviceReads_step_def NewConn_def)
  moreover have "others_step (at (AtTerminate TStop True) r' ?c1 False) (at (AtTerminate TStop True) r' (terminate ?c1) True)"
    using others [of "at (AtTerminate TStop True) r' ?c1 False" "terminate ?c1"] rely_terminate [of ?c1]
    by (simp add: at_def shut_def terminate_def NewConn_def)
  ultimately have "reads z ord r (at (AtTerminate TStop True) r' (terminate ?c1) True)" by (rule reads_others)
  then have "reads z ord r (at (AtTerminate TDrop True) r' ((terminate ?c1)\<lparr>running := False\<rparr>) True)"
    by (rule reads_own) (simp add: at_def serviceReads_step_def)
  then have "reads z ord r (at (Crashed ''close of closed channel'') r' ((terminate ?c1)\<lparr>running := False\<rparr>) True)"
    by (rule reads_own) (simp add: at_def serviceReads_step_def terminate_def NewConn_def)
  then show ?thesis by (auto simp: at_def intro: exI)
qed

end
