(* ===== verification/Wire_Growth.thy ===== *)
theory Wire_Growth
  imports Wire_Session
begin

text \<open>
  The output of a connection only grows: every step of a server connection and of a client appends to what it has
  sent, sends nothing once it has closed the connection below, and never goes back from compressed to uncompressed
  frames.
\<close>

section \<open>What a side has sent only grows\<close>

text \<open>One connection after another: more has been sent, nothing once it is closed; it fails as before.\<close>

definition io_grows :: "netio \<Rightarrow> netio \<Rightarrow> bool" where
  "io_grows io io' \<longleftrightarrow> prefix (outp io) (outp io') \<and> fault io' = fault io \<and>
     (ioclosed io \<longrightarrow> ioclosed io' \<and> outp io' = outp io)"

lemma io_grows_refl [simp]: "io_grows io io"
  by (simp add: io_grows_def)

lemma io_grows_trans [trans]: "io_grows a b \<Longrightarrow> io_grows b c \<Longrightarrow> io_grows a c"
  by (auto simp: io_grows_def intro: prefix_order.trans)

lemma io_grows_faultless: "io_grows a b \<Longrightarrow> faultless b = faultless a"
  by (simp add: io_grows_def faultless_def)

lemma io_Write_io_grows: "io_grows io (snd (io_Write d io))"
  by (auto simp: io_grows_def io_Write_def split: option.splits)

lemma io_Close_io_grows [simp]: "io_grows io (io_Close io)"
  by (simp add: io_grows_def io_Close_def)

text \<open>A connection moreover never goes back to sending uncompressed frames.\<close>

definition Conn_grows :: "Conn \<Rightarrow> Conn \<Rightarrow> bool" where
  "Conn_grows c c' \<longleftrightarrow> io_grows (cio c) (cio c') \<and> (compression c' = CompressionMethodNone \<longrightarrow> compression c = CompressionMethodNone)"

lemma Conn_grows_refl [simp]: "Conn_grows c c"
  by (simp add: Conn_grows_def)

lemma Conn_grows_trans [trans]: "Conn_grows a b \<Longrightarrow> Conn_grows b c \<Longrightarrow> Conn_grows a c"
  by (auto simp: Conn_grows_def intro: io_grows_trans)

lemma Conn_grows_same: "cio c' = cio c \<Longrightarrow> compression c' = compression c \<Longrightarrow> Conn_grows c0 c \<Longrightarrow> Conn_grows c0 c'"
  by (simp add: Conn_grows_def)

lemma terminate_grows: "Conn_grows c0 c \<Longrightarrow> Conn_grows c0 (terminate c)"
  by (auto simp: Conn_grows_def terminate_def intro: io_grows_trans)

lemma serviceWrite_grows: "Conn_grows c (snd (serviceWrite z p f c))"
proof (cases "cerr c")
  case None
  show ?thesis
  proof (cases "fst (Bytes z (compression c) f)")
    case (Ok d)
    have "Conn_grows c (c\<lparr>cio := snd (io_Write d (cio c))\<rparr>)" by (simp add: Conn_grows_def io_Write_io_grows)
    then show ?thesis
      by (cases rule: io_Write_cases [of d "cio c"]) (simp_all add: serviceWrite_def None Ok terminate_grows)
  qed (simp_all add: serviceWrite_def None)
qed (simp add: serviceWrite_def)

lemma Conn_WritePtr_grows: "Conn_grows c0 c \<Longrightarrow> Conn_grows c0 (snd (Conn_WritePtr z p f c))"
  using serviceWrite_grows Conn_grows_trans by (auto simp: Conn_WritePtr_def)

lemma Conn_Write_grows: "Conn_grows c0 c \<Longrightarrow> Conn_grows c0 (snd (Conn_Write z f c))"
  by (simp add: Conn_Write_def Conn_WritePtr_grows Conn_grows_same [of "c\<lparr>nextPtr := Suc (nextPtr c)\<rparr>" c])

interpretation cg: write_keeps "Conn_Write z" "Conn_grows c0" for z c0
  by unfold_locales (rule Conn_Write_grows)

lemma goAway_grows: "Conn_grows c0 c \<Longrightarrow> Conn_grows c0 (snd (goAway z ec d t c))"
  by (auto simp: goAway_def Let_def Conn_grows_def intro!: Conn_WritePtr_grows [unfolded Conn_grows_def])

lemma protocolError_grows: "Conn_grows c0 c \<Longrightarrow> Conn_grows c0 (snd (protocolError z c))"
  by (simp add: protocolError_def goAway_grows)

lemma on_stream_grows:
  assumes "Conn_grows c0 (snd (snd (op (s, c))))"
  shows "Conn_grows c0 (snd (on_stream op i s c))"
  using assms by (auto simp: on_stream_def Conn_grows_def split: prod.splits)

lemma handleHello_grows:
  assumes "Conn_grows c0 c"
  shows "Conn_grows c0 (snd (handleHello z h c))"
proof (cases "configured c")
  case False
  let ?c = "(if CompressionGZip h then c\<lparr>compression := CompressionMethodGzip\<rparr> else c)\<lparr>configured := True\<rparr>"
  let ?w = "Conn_Write z (Hello_IntoFrame \<lparr>helloAck = True, CompressionGZip = CompressionGZip h, MaxConcurrentStreams = 0\<rparr>) ?c"
  have "Conn_grows c0 ?c" using assms by (auto simp: Conn_grows_def)
  then have "Conn_grows c0 (snd ?w)" by (rule Conn_Write_grows)
  with False show ?thesis by (cases ?w rule: outcome_pair_cases) (simp_all add: handleHello_def Let_def terminate_grows)
qed (use assms in \<open>simp add: handleHello_def protocolError_grows\<close>)

lemma handlePing_grows:
  assumes "Conn_grows c0 c"
  shows "Conn_grows c0 (snd (handlePing z p c))"
proof -
  let ?w = "Conn_Write z (Ping_IntoFrame \<lparr>pingAck = True, pingPayload = pingPayload p\<rparr>) c"
  have w: "Conn_grows c0 (snd ?w)" using assms by (rule Conn_Write_grows)
  have "Conn_grows c0 (c'\<lparr>cerr := Some e\<rparr>)" if "Conn_grows c0 c'" for c' e using that by (simp add: Conn_grows_def)
  with w assms show ?thesis
    by (cases ?w rule: outcome_pair_cases) (simp_all add: handlePing_def protocolError_grows terminate_grows)
qed

lemma cancelStreams_loop_grows: "Conn_grows c0 c \<Longrightarrow> Conn_grows c0 (snd (cancelStreams_loop z ec is c))"
proof (induction "is" arbitrary: c)
  case (Cons i "is")
  show ?case
  proof (cases "fetchStream i c")
    case (Some s)
    have "Conn_grows c0 (snd (ignoreErr (on_stream (stream_Reset (Conn_Write z) ec) i s c)))"
      using Cons.prems by (simp add: on_stream_grows cg.stream_Reset_keeps)
    then have "Conn_grows c0 (snd (bindR (ignoreErr (on_stream (stream_Reset (Conn_Write z) ec) i s c)) (\<lambda>_. cancelStreams_loop z ec is)))"
      by (rule bindR_keeps) (rule Cons.IH)
    with Some show ?thesis by simp
  qed (use Cons in simp)
qed simp

lemma handlers_grow:
  assumes "Conn_grows c0 c"
  shows "Conn_grows c0 (snd (handleGoAway z ord g c))" and "Conn_grows c0 (snd (handleMakeStream z m c))"
    and "Conn_grows c0 (snd (handleResetFrame z rs c))" and "Conn_grows c0 (snd (handleData z d c))"
proof -
  note perr = protocolError_grows [OF assms]
  show "Conn_grows c0 (snd (handleGoAway z ord g c))"
    using perr cancelStreams_loop_grows [OF assms, of z "goAwayErrorCode g" "ord (map fst (streams c))"]
    by (cases "cancelStreams z ord (goAwayErrorCode g) c" rule: outcome_pair_cases)
      (simp_all add: handleGoAway_def cancelStreams_def terminate_grows)
  show "Conn_grows c0 (snd (handleMakeStream z m c))"
    using perr assms by (auto simp: handleMakeStream_def Let_def Conn_grows_def split: option.splits)
  show "Conn_grows c0 (snd (handleResetFrame z rs c))"
    using perr assms by (auto simp: handleResetFrame_def resetStream_def Conn_Write_grows on_stream_grows
        cg.stream_handleResetStream_keeps split: option.splits)
  show "Conn_grows c0 (snd (handleData z d c))"
    using perr assms by (auto simp: handleData_def resetStream_def Conn_Write_grows on_stream_grows
        cg.stream_handleData_keeps split: option.splits)
qed

lemma handleWith_grows:
  assumes "Conn_grows c0 c" and "\<And>m. Conn_grows c0 (snd (handle m c))"
  shows "Conn_grows c0 (snd (handleWith FromFrame zero handle z fr c))"
  using assms by (cases "FromFrame zero fr" rule: outcome_pair_cases) (simp_all add: handleWith_def protocolError_grows)

lemma dispatchFrame_grows: "Conn_grows c0 c \<Longrightarrow> Conn_grows c0 (snd (dispatchFrame z ord fr c))"
  by (auto simp: dispatchFrame_def Let_def
      intro!: handleWith_grows handlers_grow handleHello_grows handlePing_grows protocolError_grows)

lemma session_step_grows: "session_step z ord (r, c) (r', c') \<Longrightarrow> Conn_grows c c'"
proof (induction "(r, c)" "(r', c')" rule: session_step.induct)
  case (recv fr)
  then show ?case using dispatchFrame_grows [of c c z ord fr] by simp
next
  case (recv_end e)
  have "Conn_grows c (terminate (c\<lparr>cerr := Some e\<rparr>))"
    by (rule terminate_grows) (simp add: Conn_grows_def)
  with recv_end show ?case by simp
next
  case (app i s op out)
  then show ?case
    using on_stream_grows [of c "app_call (Conn_Write z) op" s c i] cg.app_call_keeps [of c c z op s] by simp
next
  case shutdown
  then show ?case using goAway_grows [of c c z ErrorCodeNoError "[]" True] by simp
qed simp

text \<open>The same for a client.\<close>

definition client_grows :: "client \<Rightarrow> client \<Rightarrow> bool" where
  "client_grows c c' \<longleftrightarrow> io_grows (clio c) (clio c') \<and>
     (clCompression c' = CompressionMethodNone \<longrightarrow> clCompression c = CompressionMethodNone)"

lemma client_grows_refl [simp]: "client_grows c c"
  by (simp add: client_grows_def)

lemma client_grows_trans [trans]: "client_grows a b \<Longrightarrow> client_grows b c \<Longrightarrow> client_grows a c"
  by (auto simp: client_grows_def intro: io_grows_trans)

lemma client_neutral_grows [simp]:
  "client_grows c0 (c\<lparr>clErr := e\<rparr>) = client_grows c0 c" "client_grows c0 (c\<lparr>clRunning := b\<rparr>) = client_grows c0 c"
  "client_grows c0 (c\<lparr>clStreams := ss\<rparr>) = client_grows c0 c" "client_grows c0 (c\<lparr>clLastStreamID := i\<rparr>) = client_grows c0 c"
  "client_grows c0 (client_terminate c) = client_grows c0 c" "client_grows c0 (client_service_end er c) = client_grows c0 c"
  by (simp_all add: client_grows_def client_terminate_def client_service_end_def Let_def)

lemma client_io_Write_grows: "client_grows c0 c \<Longrightarrow> client_grows c0 (c\<lparr>clio := snd (io_Write d (clio c))\<rparr>)"
  using io_Write_io_grows [of "clio c" d] by (auto simp: client_grows_def intro: io_grows_trans)

lemma client_Write_grows:
  assumes "client_grows c0 c"
  shows "client_grows c0 (snd (client_Write z f c))"
proof -
  have "client_grows c0 (snd (client_serviceWrite z f c))"
  proof (cases "fst (Bytes z (clCompression c) f)")
    case (Ok d)
    from client_io_Write_grows [OF assms] show ?thesis by (simp add: client_serviceWrite_state [OF Ok])
  qed (use assms in \<open>simp_all add: client_serviceWrite_def\<close>)
  with assms show ?thesis by (simp add: client_Write_def split: option.splits)
qed

interpretation clg: write_keeps "client_Write z" "client_grows c0" for z c0
  by unfold_locales (rule client_Write_grows)

lemma client_on_stream_grows:
  "client_grows c0 (snd (snd (op (s, c)))) \<Longrightarrow> client_grows c0 (snd (client_on_stream op i s c))"
  by (auto simp: client_on_stream_def split: prod.splits)

lemma client_handlers_grow:
  assumes "client_grows c0 c"
  shows "client_grows c0 (snd (client_handleData z d c))" and "client_grows c0 (snd (client_handleResetStream z rs c))"
    and "client_grows c0 (snd (client_handlePing z p c))" and "client_grows c0 (snd (client_handleGoAway g c))"
    and "client_grows c0 (snd (client_reset z ec msg c))" and "client_grows c0 (snd (client_handleHello z h c))"
proof -
  show "client_grows c0 (snd (client_handleData z d c))"
    using assms by (simp add: client_handleData_def client_resetStream_def client_Write_grows client_on_stream_grows
        clg.stream_handleData_keeps split: option.splits)
  show "client_grows c0 (snd (client_handleResetStream z rs c))"
    using assms by (simp add: client_handleResetStream_def client_resetStream_def client_Write_grows client_on_stream_grows
        clg.stream_handleResetStream_keeps split: option.splits)
  show "client_grows c0 (snd (client_handlePing z p c))"
  proof (cases "fst (Bytes z (clCompression c) (Ping_IntoFrame \<lparr>pingAck = True, pingPayload = pingPayload p\<rparr>))")
    case (Ok b)
    from client_io_Write_grows [OF assms, of b] show ?thesis
      using assms by (cases "io_Write b (clio c)") (simp add: client_handlePing_def Ok)
  qed (use assms in \<open>simp_all add: client_handlePing_def\<close>)
  show "client_grows c0 (snd (client_handleGoAway g c))"
    using assms by (simp add: client_handleGoAway_def Let_def)
  show reset: "client_grows c0 (snd (client_reset z ec msg c))" for ec msg
    using assms by (simp add: client_reset_def)
  show "client_grows c0 (snd (client_handleHello z h c))"
    unfolding client_handleHello_def
    by (rule bindR_keeps) (use assms reset in \<open>auto simp: client_grows_def Let_def\<close>)
qed

lemma dispatch_grows: "client_grows c0 c \<Longrightarrow> client_grows c0 (snd (dispatch z fr c))"
proof -
  assume c: "client_grows c0 c"
  have w: "client_grows c0 (snd (client_handleWith FromFrame zero handle fr c))"
    if "\<And>m. client_grows c0 (snd (handle m c))" for FromFrame and zero :: 'm and handle
    using that c by (cases "FromFrame zero fr" rule: outcome_pair_cases) (simp_all add: client_handleWith_def)
  from c show ?thesis by (auto simp: dispatch_def Let_def client_handlers_grow intro!: w)
qed

lemma client_calls_grow:
  "client_grows c (snd (Configure_send z m c))" "client_grows c (snd (client_NewStream z c))"
  "client_grows c (snd (client_Terminate z reason c))" "client_grows c (snd (client_Close c))"
proof -
  let ?c = "c\<lparr>clLastStreamID := clLastStreamID c + 1\<rparr>"
  let ?w = "client_Write z (MakeStream_IntoFrame \<lparr>makeStreamID = clLastStreamID c + 1\<rparr>) ?c"
  have "client_grows c (snd ?w)" by (simp add: client_Write_grows)
  then show "client_grows c (snd (client_NewStream z c))"
    by (cases ?w rule: outcome_pair_cases) (simp_all add: client_NewStream_def Let_def split: option.splits)
  show "client_grows c (snd (client_Close c))" by (simp add: client_Close_def client_grows_def)
qed (simp_all add: Configure_send_def client_Terminate_def client_Write_grows split: option.splits)

lemma client_step_grows: "client_step z (r, c) (r', c') \<Longrightarrow> client_grows c c'"
proof (induction "(r, c)" "(r', c')" rule: client_step.induct)
  case (client_recv fr)
  then show ?case using dispatch_grows [of c c z fr] by simp
next
  case (client_recv_error fr e c1)
  then show ?case using dispatch_grows [of c c z fr] by auto
next
  case (client_recv_end e)
  then show ?case by auto
next
  case (client_configure m out)
  then show ?case using client_calls_grow(1) [of c z m] by simp
next
  case (client_open out)
  then show ?case using client_calls_grow(2) [of c z] by simp
next
  case (client_goodbye reason out)
  then show ?case using client_calls_grow(3) [of c z reason] by simp
next
  case (client_close out)
  then show ?case using client_calls_grow(4) [of c] by simp
next
  case (client_app i s op out)
  then show ?case
    using client_on_stream_grows [of c "app_call (client_Write z) op" s c i] clg.app_call_keeps [of c c z op s] by simp
qed simp

end
