(* ===== verification/Wire_Mux.thy ===== *)
theory Wire_Mux
  imports Wire_Session
begin

text \<open>
  Many streams on one connection: for every stream of a server connection, what the service has read and what is ready
  to be read is a prefix of the data of the DATA frames received for that stream since its MAKE_STREAM frame,
  whatever frames of other streams came in between, and all of it while the stream takes data.
\<close>

section \<open>The data of a stream\<close>

definition stream_data :: "u32 \<Rightarrow> frame list \<Rightarrow> bytes" where
  "stream_data i fs = concat (map Payload (filter (\<lambda>f. FrameKind f = FrameKindData \<and> StreamID f = i) fs))"

lemma stream_data_append [simp]: "stream_data i (fs @ gs) = stream_data i fs @ stream_data i gs"
  by (simp add: stream_data_def)

lemma stream_data_Nil [simp]: "stream_data i [] = []"
  by (simp add: stream_data_def)

lemma stream_data_single: "stream_data i [f] = (if FrameKind f = FrameKindData \<and> StreamID f = i then Payload f else [])"
  by (simp add: stream_data_def)

text \<open>A stream takes further data: the peer has not ended it, and neither side has reset it.\<close>

definition receiving :: "stream \<Rightarrow> bool" where
  "receiving s \<longleftrightarrow> RecvData (sstate s) = Ok () \<and> \<not> closed (sreader s)"

lemma receiving_duplex: "receiving s \<longleftrightarrow> remoteOpen (duplex_of (sstate s)) \<and> serr (sstate s) = None \<and> \<not> closed (sreader s)"
  by (auto simp: receiving_def duplex_of_checks permits_Ok_iff) (simp_all add: duplex_of_def)

text \<open>
  \<open>h\<close> is what has been read from the stream, \<open>fs\<close> are the frames received since it was made: what has been read
  and what is ready to be read is a prefix of the data received for it, and all of it while the stream
  takes data.
\<close>

definition faithful :: "bytes \<Rightarrow> frame list \<Rightarrow> stream \<Rightarrow> bool" where
  "faithful h fs s \<longleftrightarrow> prefix (h @ concat (stream_chunks s)) (stream_data (strID s) fs) \<and>
     (receiving s \<longrightarrow> h @ concat (stream_chunks s) = stream_data (strID s) fs)"

lemma faithful_New: "faithful [] [] (NewStream i)"
  by (simp add: faithful_def NewStream_def stream_chunks_def streamState_zero_def NewBlockReader_def)

text \<open>What an operation other than receiving data may do: hand out the bytes \<open>bs\<close>, or give up on the rest.\<close>

definition hands_out :: "stream \<Rightarrow> bytes \<Rightarrow> stream \<Rightarrow> bool" where
  "hands_out s bs s' \<longleftrightarrow> strID s' = strID s \<and> prefix (bs @ concat (stream_chunks s')) (concat (stream_chunks s)) \<and>
     (receiving s' \<longrightarrow> receiving s \<and> bs @ concat (stream_chunks s') = concat (stream_chunks s))"

lemma hands_out_refl [simp]: "hands_out s [] s"
  by (simp add: hands_out_def)

lemma hands_out_trans: "hands_out s [] t \<Longrightarrow> hands_out t [] u \<Longrightarrow> hands_out s [] u"
  by (auto simp: hands_out_def intro: prefix_order.trans)

lemma faithful_hands_out:
  assumes "faithful h fs s" and "hands_out s bs s'"
  shows "faithful (h @ bs) fs s'"
proof -
  have "prefix (h @ bs @ concat (stream_chunks s')) (h @ concat (stream_chunks s))"
    using assms(2) by (simp add: hands_out_def)
  moreover have "prefix (h @ concat (stream_chunks s)) (stream_data (strID s) fs)"
    using assms(1) by (simp add: faithful_def)
  ultimately have "prefix (h @ bs @ concat (stream_chunks s')) (stream_data (strID s) fs)" by (rule prefix_order.trans)
  then show ?thesis using assms by (auto simp: faithful_def hands_out_def)
qed

lemma chunks_state [simp]:
  "stream_chunks (s\<lparr>sstate := streamState_CloseLocal (sstate s)\<rparr>) = stream_chunks s"
  "receiving (s\<lparr>sstate := streamState_CloseLocal (sstate s)\<rparr>) = receiving s"
  "stream_chunks (s\<lparr>sstate := streamState_CloseRemote (sstate s)\<rparr>) = stream_chunks s"
  "\<not> receiving (s\<lparr>sstate := streamState_CloseRemote (sstate s)\<rparr>)"
  by (auto simp: stream_chunks_def receiving_duplex duplex_of_def streamState_CloseLocal_def streamState_CloseRemote_def
      split: streamStateCode.splits)

lemma hands_out_CloseLocal: "hands_out s [] (s\<lparr>sstate := streamState_CloseLocal (sstate s)\<rparr>)"
  by (simp add: hands_out_def)

lemma hands_out_closed:
  "hands_out s [] (s\<lparr>sstate := streamState_Close (sstate s), sreader := internalClose (sreader s)\<rparr>)"
  "hands_out s [] (s\<lparr>sstate := streamState_SetError e (streamState_Close (sstate s)), sreader := internalClose (sreader s)\<rparr>)"
  by (auto simp: hands_out_def receiving_duplex stream_chunks_def streamState_Close_def streamState_SetError_def split: option.splits)

lemma hands_out_ops:
  "hands_out s [] (fst (snd (stream_Write wr d e (s, c))))"
  "hands_out s [] (fst (snd (stream_Reset wr ec (s, c))))"
  "hands_out s [] (fst (snd (stream_CloseLocal wr (s, c))))"
  "hands_out s [] (fst (snd (stream_handleResetStream wr rs (s, c))))"
proof -
  have same: "t = s" if "stream_writeAll wr frs (s, c) = (out, t, c')" for frs out t c'
    using stream_writeAll_kept [of wr frs "(s, c)"] that by simp
  show "hands_out s [] (fst (snd (stream_Write wr d e (s, c))))"
    unfolding stream_Write_def
    by (intro bindR_keeps [where Q = "\<lambda>sc. hands_out s [] (fst sc)"])
      (auto intro!: bindR_keeps [where Q = "\<lambda>sc. hands_out s [] (fst sc)"] simp: stream_writeAll_kept hands_out_CloseLocal dest: same)
  show "hands_out s [] (fst (snd (stream_Reset wr ec (s, c))))"
    by (cases "SendResetStream (sstate s)") (simp_all add: stream_Reset_def stream_reset_def stream_write_kept hands_out_closed)
  show "hands_out s [] (fst (snd (stream_CloseLocal wr (s, c))))"
    by (cases "SendData (sstate s)") (simp_all add: stream_CloseLocal_def stream_write_kept hands_out_CloseLocal)
  show "hands_out s [] (fst (snd (stream_handleResetStream wr rs (s, c))))"
    by (simp add: stream_handleResetStream_def stream_reset_def stream_write_kept hands_out_closed)
qed

text \<open>What a call of the application reads.\<close>

definition call_reads :: "appOp \<Rightarrow> stream \<Rightarrow> bytes" where
  "call_reads op s = (case op of AppRead n \<Rightarrow> (case fst (stream_Read n s) of Ok bs \<Rightarrow> bs | _ \<Rightarrow> []) | _ \<Rightarrow> [])"

lemma hands_out_Read:
  assumes "stream_inv s"
  shows "hands_out s (call_reads (AppRead n) s) (snd (stream_Read n s))"
proof -
  obtain out s' where rd: "stream_Read n s = (out, s')" by fastforce
  then show ?thesis
  proof (cases rule: stream_Read_cases)
    case (Some b r bs r')
    have "closed r' = closed (sreader s)" using Some(4,5) copy_out_contents(4) [OF Some(4)] by auto
    then have "receiving s' = receiving s" "strID s' = strID s" by (simp_all add: Some(3) receiving_def)
    moreover have "concat (stream_chunks s) = bs @ concat (stream_chunks s')"
      using strm.read_in_order [OF assms, of n bs s'] rd Some(2) by simp
    ultimately show ?thesis by (simp add: hands_out_def call_reads_def rd Some(2))
  qed (simp_all add: rd call_reads_def)
qed

lemma hands_out_call:
  assumes "stream_inv s"
  shows "hands_out s (call_reads op s) (fst (snd (app_call wr op (s, c))))"
proof (cases op)
  case (AppRead n)
  then show ?thesis using hands_out_Read [OF assms] by simp
next
  case (AppSetExternalID x)
  then show ?thesis by (simp add: call_reads_def SetExternalID_def hands_out_def stream_chunks_def receiving_def)
qed (simp_all add: call_reads_def hands_out_ops)

text \<open>Receiving data.\<close>

lemma faithful_other: "faithful h fs s \<Longrightarrow> stream_data (strID s) [f] = [] \<Longrightarrow> faithful h (fs @ [f]) s"
  by (simp add: faithful_def)

lemma faithful_end: "faithful h fs s \<Longrightarrow> faithful h fs (s\<lparr>sstate := streamState_CloseRemote (sstate s)\<rparr>)"
  by (simp add: faithful_def)

lemma faithful_stopped: "faithful h fs s \<Longrightarrow> \<not> receiving s \<Longrightarrow> faithful h (fs @ gs) s"
  by (simp add: faithful_def)

lemma faithful_Enqueue:
  assumes "faithful h fs s" and "Enqueue d (sreader s) = (Ok (), r)" and "stream_data (strID s) [f] = d"
    and "RecvData (sstate s) = Ok ()"
  shows "faithful h (fs @ [f]) (s\<lparr>sreader := r\<rparr>)"
proof -
  consider "d = []" "r = sreader s" | "closed (sreader s)" "r = sreader s"
    | "\<not> closed (sreader s)" "r = (sreader s)\<lparr>blocks := blocks (sreader s) @ [d]\<rparr>"
    using assms(2) by (rule Enqueue_Ok) blast+
  then show ?thesis
  proof cases
    case 1
    with assms(3) have "stream_data (strID s) [f] = []" by simp
    with 1 assms(1) show ?thesis by (simp add: faithful_other)
  next
    case 2
    then have "\<not> receiving s" by (simp add: receiving_def)
    with 2 assms(1) show ?thesis by (simp add: faithful_stopped)
  next
    case 3
    then have rec: "receiving s" using assms(4) by (simp add: receiving_def)
    then have "serr (sstate s) = None" by (simp add: receiving_duplex)
    then have "concat (stream_chunks (s\<lparr>sreader := r\<rparr>)) = concat (stream_chunks s) @ d"
      using 3 by (simp add: stream_chunks_def)
    moreover have "h @ concat (stream_chunks s) = stream_data (strID s) fs" using assms(1) rec by (simp add: faithful_def)
    ultimately have "h @ concat (stream_chunks (s\<lparr>sreader := r\<rparr>)) = stream_data (strID s) (fs @ [f])"
      using assms(3) by (metis append.assoc stream_data_append)
    then show ?thesis by (simp add: faithful_def)
  qed
qed

lemma faithful_data:
  assumes "faithful h fs s" and "stream_handleData wr d (s, c) = (Ok (), s', c')" and "stream_data (strID s) [f] = dataPayload d"
  shows "faithful h (fs @ [f]) s'"
proof (cases "RecvData (sstate s) = Ok ()")
  case True
  with assms(2) obtain r where r: "Enqueue (dataPayload d) (sreader s) = (Ok (), r)"
    and s': "s' = (if EndStream d then s\<lparr>sreader := r, sstate := streamState_CloseRemote (sstate s)\<rparr> else s\<lparr>sreader := r\<rparr>)"
    by (auto simp: stream_handleData_def bindR_eq_Ok_iff split: prod.splits)
  from faithful_Enqueue [OF assms(1) r assms(3) True] faithful_end [of h "fs @ [f]" "s\<lparr>sreader := r\<rparr>"] s'
  show ?thesis by simp
next
  case False
  then have "s' = s"
    using assms(2) stream_write_kept [of wr _ "(s, c)"] by (auto simp: stream_handleData_refused stream_reset_def dest: arg_cong [where f = "\<lambda>x. fst (snd x)"]) 
  then show ?thesis using assms(1) False by (simp add: faithful_stopped receiving_def)
qed

section \<open>The streams of a connection\<close>

text \<open>Every stream is there as before, except that data may have been given up.\<close>

definition table_keeps :: "(u32 \<times> stream) list \<Rightarrow> (u32 \<times> stream) list \<Rightarrow> bool" where
  "table_keeps ss ss' \<longleftrightarrow> (\<forall>i. rel_option (\<lambda>s s'. hands_out s [] s') (map_of ss i) (map_of ss' i))"

lemma table_keeps_refl [simp]: "table_keeps ss ss"
  by (simp add: table_keeps_def option.rel_refl)

lemma table_keeps_trans:
  assumes "table_keeps a b" and "table_keeps b c"
  shows "table_keeps a c"
  unfolding table_keeps_def
proof
  fix i
  from assms have "rel_option (\<lambda>s s'. hands_out s [] s') (map_of a i) (map_of b i)" "rel_option (\<lambda>s s'. hands_out s [] s') (map_of b i) (map_of c i)"
    by (simp_all add: table_keeps_def)
  then show "rel_option (\<lambda>s s'. hands_out s [] s') (map_of a i) (map_of c i)"
    by (auto simp: option_rel_Some1 elim!: option.rel_cases intro: hands_out_trans)
qed

lemma table_keeps_update: "map_of ss i = Some s \<Longrightarrow> hands_out s [] s' \<Longrightarrow> table_keeps ss (AList.update i s' ss)"
  by (auto simp: table_keeps_def update_conv' option.rel_refl)

lemma streams_written [simp]: "streams (snd (Conn_WritePtr z p f c)) = streams c" "streams (snd (Conn_Write z f c)) = streams c"
proof -
  have "streams (snd (serviceWrite z p f c)) = streams c" for p c
  proof (cases "cerr c")
    case None
    show ?thesis
    proof (cases "fst (Bytes z (compression c) f)")
      case (Ok d)
      show ?thesis
        by (cases rule: io_Write_cases [of d "cio c"]) (simp_all add: serviceWrite_def None Ok)
    qed (simp_all add: serviceWrite_def None)
  qed (simp add: serviceWrite_def)
  then show "streams (snd (Conn_WritePtr z p f c)) = streams c" "streams (snd (Conn_Write z f c)) = streams c"
    by (simp_all add: Conn_Write_def Conn_WritePtr_def)
qed

interpretation cs: write_keeps "Conn_Write z" "\<lambda>c. streams c = ss" for z ss
  by unfold_locales simp

lemma streams_goAway [simp]: "streams (snd (goAway z ec d t c)) = streams c" "streams (snd (protocolError z c)) = streams c"
  by (simp_all add: goAway_def Let_def protocolError_def)

lemma streams_on_stream: 
  assumes "streams (snd (snd (op (s, c)))) = streams c"
  shows "streams (snd (on_stream op i s c)) = AList.update i (fst (snd (op (s, c)))) (streams c)"
  using assms by (auto simp: on_stream_def split: prod.splits)

lemma handleHello_streams: "streams (snd (handleHello z h c)) = streams c"
proof (cases "configured c")
  case False
  let ?c = "(if CompressionGZip h then c\<lparr>compression := CompressionMethodGzip\<rparr> else c)\<lparr>configured := True\<rparr>"
  let ?w = "Conn_Write z (Hello_IntoFrame \<lparr>helloAck = True, CompressionGZip = CompressionGZip h, MaxConcurrentStreams = 0\<rparr>) ?c"
  have "streams (snd ?w) = streams c" by simp
  with False show ?thesis by (cases ?w rule: outcome_pair_cases) (simp_all add: handleHello_def Let_def)
qed (simp add: handleHello_def)

lemma handlePing_streams: "streams (snd (handlePing z p c)) = streams c"
proof -
  let ?w = "Conn_Write z (Ping_IntoFrame \<lparr>pingAck = True, pingPayload = pingPayload p\<rparr>) c"
  have "streams (snd ?w) = streams c" by simp
  then show ?thesis by (cases ?w rule: outcome_pair_cases) (simp_all add: handlePing_def)
qed

lemma cancelStreams_loop_streams: "table_keeps ss (streams c) \<Longrightarrow> table_keeps ss (streams (snd (cancelStreams_loop z ec is c)))"
proof (induction "is" arbitrary: c)
  case (Cons i "is")
  show ?case
  proof (cases "fetchStream i c")
    case (Some s)
    have "streams (snd (on_stream (stream_Reset (Conn_Write z) ec) i s c)) = AList.update i (fst (snd (stream_Reset (Conn_Write z) ec (s, c)))) (streams c)"
      by (rule streams_on_stream) (rule cs.stream_Reset_keeps, simp)
    then have "table_keeps ss (streams (snd (ignoreErr (on_stream (stream_Reset (Conn_Write z) ec) i s c))))"
      using table_keeps_trans [OF Cons.prems table_keeps_update [of "streams c" i s]] Some by (simp add: fetchStream_def hands_out_ops)
    then have "table_keeps ss (streams (snd (bindR (ignoreErr (on_stream (stream_Reset (Conn_Write z) ec) i s c)) (\<lambda>_. cancelStreams_loop z ec is))))"
      by (rule bindR_keeps) (rule Cons.IH)
    with Some show ?thesis by simp
  qed (use Cons in simp)
qed simp

lemma handleGoAway_streams: "table_keeps (streams c) (streams (snd (handleGoAway z ord g c)))"
  using cancelStreams_loop_streams [of "streams c" c z "goAwayErrorCode g" "ord (map fst (streams c))"]
  by (cases "cancelStreams z ord (goAwayErrorCode g) c" rule: outcome_pair_cases) (simp_all add: handleGoAway_def cancelStreams_def)

lemma handleResetFrame_streams: "table_keeps (streams c) (streams (snd (handleResetFrame z rs c)))"
proof (cases "fetchStream (resetStreamID rs) c")
  case (Some s)
  have "streams (snd (on_stream (stream_handleResetStream (Conn_Write z) rs) (resetStreamID rs) s c)) =
      AList.update (resetStreamID rs) (fst (snd (stream_handleResetStream (Conn_Write z) rs (s, c)))) (streams c)"
    by (rule streams_on_stream) (rule cs.stream_handleResetStream_keeps, simp)
  with Some show ?thesis
    using table_keeps_update [of "streams c" "resetStreamID rs" s] by (simp add: handleResetFrame_def fetchStream_def hands_out_ops)
qed (simp add: handleResetFrame_def resetStream_def)

lemma handleWith_streams:
  assumes "\<And>m. table_keeps (streams c) (streams (snd (handle m c)))"
  shows "table_keeps (streams c) (streams (snd (handleWith FromFrame zero handle z fr c)))"
  using assms by (cases "FromFrame zero fr" rule: outcome_pair_cases) (simp_all add: handleWith_def)

lemma dispatchFrame_streams:
  "FrameKind f \<noteq> FrameKindMakeStream \<Longrightarrow> FrameKind f \<noteq> FrameKindData \<Longrightarrow> table_keeps (streams c) (streams (snd (dispatchFrame z ord f c)))"
  unfolding dispatchFrame_def Let_def
  by (auto intro!: handleWith_streams handleGoAway_streams handleResetFrame_streams simp: handleHello_streams handlePing_streams)

text \<open>
  A stream after the frames \<open>fs\<close>, with \<open>h\<close> read from it: it was made by one of the frames and is faithful to
  those after it. In a table every stream is so, and nothing has been read from others.
\<close>

definition stream_ok :: "u32 \<Rightarrow> bytes \<Rightarrow> frame list \<Rightarrow> stream \<Rightarrow> bool" where
  "stream_ok i h fs s \<longleftrightarrow> strID s = i \<and>
     (\<exists>early m late. fs = early @ m # late \<and> FrameKind m = FrameKindMakeStream \<and> StreamID m = i \<and> faithful h late s)"

definition mux_ok :: "(u32 \<times> stream) list \<Rightarrow> (u32 \<Rightarrow> bytes) \<Rightarrow> frame list \<Rightarrow> bool" where
  "mux_ok ss h fs \<longleftrightarrow> (\<forall>i. (map_of ss i = None \<longrightarrow> h i = []) \<and> (\<forall>s. map_of ss i = Some s \<longrightarrow> stream_ok i (h i) fs s))"

lemma stream_ok_hands_out: "stream_ok i h fs s \<Longrightarrow> hands_out s bs s' \<Longrightarrow> stream_ok i (h @ bs) fs s'"
  unfolding stream_ok_def using faithful_hands_out [of h _ s bs s'] by (auto simp: hands_out_def)

lemma stream_ok_extend:
  assumes "stream_ok i h fs s" and "\<And>late. faithful h late s \<Longrightarrow> faithful h (late @ gs) s'" and "strID s' = strID s"
  shows "stream_ok i h (fs @ gs) s'"
proof -
  from assms(1) obtain early m late where m: "strID s = i" "fs = early @ m # late" "FrameKind m = FrameKindMakeStream" "StreamID m = i"
    "faithful h late s" by (auto simp: stream_ok_def)
  have "fs @ gs = early @ m # (late @ gs)" using m(2) by simp
  with m assms(2) [OF m(5)] assms(3) show ?thesis unfolding stream_ok_def by blast
qed

lemma stream_ok_other: "stream_ok i h fs s \<Longrightarrow> stream_data i gs = [] \<Longrightarrow> stream_ok i h (fs @ gs) s"
  by (rule stream_ok_extend) (auto simp: faithful_def stream_ok_def)

lemma mux_ok_start: "mux_ok [] (\<lambda>i. []) []"
  by (simp add: mux_ok_def)

lemma mux_ok_keeps:
  assumes "mux_ok ss h fs" and "table_keeps ss ss'"
  shows "mux_ok ss' h fs"
  unfolding mux_ok_def
proof
  fix i
  have "rel_option (\<lambda>s s'. hands_out s [] s') (map_of ss i) (map_of ss' i)" using assms(2) by (simp add: table_keeps_def)
  moreover have "(map_of ss i = None \<longrightarrow> h i = []) \<and> (\<forall>s. map_of ss i = Some s \<longrightarrow> stream_ok i (h i) fs s)"
    using assms(1) unfolding mux_ok_def by blast
  ultimately show "(map_of ss' i = None \<longrightarrow> h i = []) \<and> (\<forall>s. map_of ss' i = Some s \<longrightarrow> stream_ok i (h i) fs s)"
    using stream_ok_hands_out [of i "h i" fs _ "[]"] by (auto elim!: option.rel_cases)
qed

text \<open>One stream changes, and the frames \<open>gs\<close> carry nothing for the others.\<close>

lemma mux_ok_update:
  assumes "mux_ok ss h fs" and "stream_ok i (h i @ bs) (fs @ gs) s'" and "\<And>j. j \<noteq> i \<Longrightarrow> map_of ss j \<noteq> None \<Longrightarrow> stream_data j gs = []"
  shows "mux_ok (AList.update i s' ss) (h(i := h i @ bs)) (fs @ gs)"
  using assms stream_ok_other unfolding mux_ok_def by (auto simp: update_conv')

lemma mux_ok_other:
  assumes "mux_ok ss h fs" and "\<And>j. map_of ss j \<noteq> None \<Longrightarrow> stream_data j gs = []"
  shows "mux_ok ss h (fs @ gs)"
  using assms stream_ok_other unfolding mux_ok_def by auto

lemma mux_ok_call:
  assumes "mux_ok ss h fs" and "map_of ss i = Some s" and "hands_out s bs s'"
  shows "mux_ok (AList.update i s' ss) (h(i := h i @ bs)) fs"
proof -
  have "stream_ok i (h i) fs s" using assms(1,2) by (simp add: mux_ok_def)
  then have "stream_ok i (h i @ bs) (fs @ []) s'" using stream_ok_hands_out assms(3) by simp
  from mux_ok_update [OF assms(1) this] show ?thesis by simp
qed

section \<open>Frames and calls\<close>

lemma handleMakeStream_mux:
  assumes "mux_ok (streams c) h fs" and "FrameKind f = FrameKindMakeStream" and "StreamID f = makeStreamID m"
  shows "mux_ok (streams (snd (handleMakeStream z m c))) h (fs @ [f])"
proof -
  have none: "stream_data j [f] = []" for j using assms(2) by (simp add: stream_data_single)
  show ?thesis
  proof (cases "configured c \<and> fetchStream (makeStreamID m) c = None")
    case True
    then have "h (makeStreamID m) = []" using assms(1) by (simp add: mux_ok_def fetchStream_def)
    moreover have "stream_ok (makeStreamID m) [] (fs @ [f]) (NewStream (makeStreamID m))"
      unfolding stream_ok_def using assms(2,3) faithful_New [of "makeStreamID m"]
      by (intro conjI exI [of _ fs] exI [of _ f] exI [of _ "[]"]) (simp_all add: NewStream_def)
    ultimately show ?thesis
      using mux_ok_update [OF assms(1), of "makeStreamID m" "[]" "[f]" "NewStream (makeStreamID m)"] True none
      by (simp add: handleMakeStream_def Let_def fun_upd_idem)
  next
    case False
    then have "streams (snd (handleMakeStream z m c)) = streams c" by (auto simp: handleMakeStream_def Let_def)
    with mux_ok_other [OF assms(1)] none show ?thesis by simp
  qed
qed

lemma handleData_mux:
  assumes "mux_ok (streams c) h fs" and "conn_inv c" and "handleData z d c = (Ok (), c')"
    and f: "FrameKind f = FrameKindData" "StreamID f = dataStreamID d" "Payload f = dataPayload d"
  shows "mux_ok (streams c') h (fs @ [f])"
proof -
  have other: "stream_data j [f] = []" if "j \<noteq> dataStreamID d" for j using f that by (simp add: stream_data_single)
  show ?thesis
  proof (cases "configured c \<and> fetchStream (dataStreamID d) c \<noteq> None")
    case True
    then obtain s where s: "fetchStream (dataStreamID d) c = Some s" by auto
    obtain s' c1 where op: "stream_handleData (Conn_Write z) d (s, c) = (Ok (), s', c1)" and c': "c' = c1\<lparr>streams := AList.update (dataStreamID d) s' (streams c1)\<rparr>"
      using assms(3) True s by (auto simp: handleData_def on_stream_def split: prod.splits)
    have same: "streams c1 = streams c" using cs.stream_handleData_keeps [of c "streams c" z d s] op by simp
    have ok: "stream_ok (dataStreamID d) (h (dataStreamID d)) fs s" using assms(1) s by (simp add: mux_ok_def fetchStream_def)
    then have "strID s = dataStreamID d" by (simp add: stream_ok_def)
    then have "stream_data (strID s) [f] = dataPayload d" using f by (simp add: stream_data_single)
    moreover have "strID s' = strID s" using stream_ops_kept(2) [of s "Conn_Write z" d c] op by (simp add: stream_kept_def)
    ultimately have "stream_ok (dataStreamID d) (h (dataStreamID d) @ []) (fs @ [f]) s'"
      using stream_ok_extend [OF ok] faithful_data [OF _ op] by simp
    from mux_ok_update [OF assms(1) this other] show ?thesis by (simp add: c' same)
  next
    case False
    have none: "map_of (streams c) (dataStreamID d) = None"
      using False assms(2) by (auto simp: conn_inv_def setup_ok_def fetchStream_def)
    have "streams (snd (handleData z d c)) = streams c"
      using False by (auto simp: handleData_def resetStream_def split: option.splits)
    moreover have "mux_ok (streams c) h (fs @ [f])" using mux_ok_other [OF assms(1)] other none by metis
    ultimately show ?thesis using assms(3) by simp
  qed
qed

lemma dispatchFrame_mux:
  assumes ok: "mux_ok (streams c) h fs" and inv: "conn_inv c" and d: "dispatchFrame z ord f c = (Ok (), c')"
  shows "mux_ok (streams c') h (fs @ [f])"
proof -
  consider (make) "FrameKind f = FrameKindMakeStream" | (data) "FrameKind f = FrameKindData"
    | (other) "FrameKind f \<noteq> FrameKindMakeStream" "FrameKind f \<noteq> FrameKindData" by blast
  then show ?thesis
  proof cases
    case make
    have none: "stream_data j [f] = []" for j using make by (simp add: stream_data_single)
    let ?p = "MakeStream_FromFrame \<lparr>makeStreamID = 0\<rparr> f"
    show ?thesis
    proof (cases ?p rule: outcome_pair_cases)
      case (Ok u m)
      then have "StreamID f = makeStreamID m" by (auto simp: MakeStream_FromFrame_def bindR_eq_Ok_iff)
      from handleMakeStream_mux [OF ok make this, of z] d make Ok show ?thesis by (simp add: dispatchFrame_def handleWith_def)
    next
      case (Fail e m)
      with d make have "streams c' = streams c" using streams_goAway(2) [of z c] by (simp add: dispatchFrame_def handleWith_def)
      with mux_ok_other [OF ok] none show ?thesis by simp
    qed (use d make in \<open>simp_all add: dispatchFrame_def handleWith_def\<close>)
  next
    case data
    let ?p = "Data_FromFrame \<lparr>dataStreamID = 0, EndData = False, EndStream = False, dataPayload = []\<rparr> f"
    show ?thesis
    proof (cases ?p rule: outcome_pair_cases)
      case (Ok u m)
      then have "StreamID f = dataStreamID m" "Payload f = dataPayload m" by (auto simp: Data_FromFrame_def bindR_eq_Ok_iff)
      moreover have "handleData z m c = (Ok (), c')" using d data Ok by (simp add: dispatchFrame_def handleWith_def)
      ultimately show ?thesis using handleData_mux [OF ok inv _ data] by blast
    next
      case (Fail e m)
      then have "StreamID f = 0" using data by (auto simp: Data_FromFrame_def ValidateKind_def split: if_splits)
      moreover have "map_of (streams c) 0 = None"
        using inv table_ok_lookup [of "streams c" 0] by (cases "map_of (streams c) 0") (auto simp: conn_inv_def)
      ultimately have "stream_data j [f] = []" if "map_of (streams c) j \<noteq> None" for j using that by (auto simp: stream_data_single)
      moreover have "streams c' = streams c"
        using Fail d data streams_goAway(2) [of z c] by (simp add: dispatchFrame_def handleWith_def)
      ultimately show ?thesis using mux_ok_other [OF ok] by simp
    qed (use d data in \<open>simp_all add: dispatchFrame_def handleWith_def\<close>)
  next
    case other
    then have "stream_data j [f] = []" for j by (simp add: stream_data_single)
    with mux_ok_other [OF mux_ok_keeps [OF ok dispatchFrame_streams [OF other, of c z ord]]] d show ?thesis by simp
  qed
qed

lemma app_call_mux:
  assumes "mux_ok (streams c) h fs" and "conn_inv c" and "fetchStream i c = Some s"
    and "on_stream (app_call (Conn_Write z) op) i s c = (out, c')"
  shows "mux_ok (streams c') (h(i := h i @ call_reads op s)) fs"
proof -
  have "stream_inv s" using table_ok_lookup [of "streams c" i s] assms(2,3) by (simp add: conn_inv_def fetchStream_def)
  then have ho: "hands_out s (call_reads op s) (fst (snd (app_call (Conn_Write z) op (s, c))))" by (rule hands_out_call)
  have "streams (snd (on_stream (app_call (Conn_Write z) op) i s c)) = AList.update i (fst (snd (app_call (Conn_Write z) op (s, c)))) (streams c)"
    by (rule streams_on_stream) (rule cs.app_call_keeps, simp)
  with mux_ok_call [OF assms(1) _ ho] assms(3,4) show ?thesis by (simp add: fetchStream_def)
qed

end
