(* ===== verification/Wire_Sends.thy ===== *)
theory Wire_Sends
  imports Wire_Mux
begin

text \<open>
  The frames a client sends without compression on a connection that does not fail: a Write to a stream sends all of its
  DATA frames or none, everything else sends no data, and no data is sent for a stream before its MAKE_STREAM
  frame.
\<close>

section \<open>What a client sends\<close>

definition emits :: "client \<Rightarrow> frame list \<Rightarrow> client \<Rightarrow> bool" where
  "emits c gs c' \<longleftrightarrow> client_out c' = client_out c @ concat (map frame_bytes gs) \<and> (\<forall>f\<in>set gs. frame_ok f) \<and>
     clLastStreamID c' = clLastStreamID c"

text \<open>Frames that neither make a stream nor carry data.\<close>

definition quiet :: "frame \<Rightarrow> bool" where
  "quiet f \<longleftrightarrow> FrameKind f \<noteq> FrameKindMakeStream \<and> (FrameKind f = FrameKindData \<longrightarrow> Payload f = [])"

lemma emits_refl [simp]: "emits c [] c"
  by (simp add: emits_def)

lemma emits_trans: "emits a gs b \<Longrightarrow> emits b hs c \<Longrightarrow> emits a (gs @ hs) c"
  by (auto simp: emits_def)

lemma quiet_frames:
  "quiet ((ResetStream_IntoFrame r)\<lparr>StreamID := i\<rparr>)" "quiet (ResetStream_IntoFrame r)" "quiet (Hello_IntoFrame h)" "quiet (Ping_IntoFrame p)"
  "quiet (GoAway_IntoFrame g)" "quiet ((Data_IntoFrame (mkDataFrame j a b []))\<lparr>StreamID := i\<rparr>)"
  by (simp_all add: quiet_def ResetStream_IntoFrame_def Hello_IntoFrame_def Ping_IntoFrame_def GoAway_IntoFrame_def Data_IntoFrame_def Let_def)

text \<open>A client that sends frames as they are, and one whose writes succeed.\<close>

definition plain :: "client \<Rightarrow> bool" where
  "plain c \<longleftrightarrow> faultless (clio c) \<and> clCompression c = CompressionMethodNone"

definition ready :: "client \<Rightarrow> bool" where
  "ready c \<longleftrightarrow> plain c \<and> clErr c = None \<and> \<not> clToWriteClosed c \<and> \<not> ioclosed (clio c)"

lemma io_Write_faultless:
  assumes "faultless io"
  shows "io_Write d io = (if ioclosed io then (Fail (IOError ''use of closed network connection''), io)
    else (Ok (), io\<lparr>outp := outp io @ d, writes := Suc (writes io)\<rparr>))"
  using assms by (simp add: io_Write_def faultless_def)

lemma client_Write_ready:
  assumes "ready c" and "frame_ok f"
  shows "\<exists>c'. client_Write z f c = (Ok (), c') \<and> emits c [f] c' \<and> ready c'"
  using assms by (auto simp: ready_def plain_def client_Write_def client_serviceWrite_def Bytes_frame_bytes frame_ok_def io_Write_faultless
      emits_def client_out_def)

lemma client_Write_stopped:
  assumes "plain c" and "\<not> ready c" and "frame_ok f"
  shows "\<not> is_Ok (fst (client_Write z f c)) \<and> snd (client_Write z f c) = c"
  using assms by (auto simp: ready_def plain_def client_Write_def client_serviceWrite_def Bytes_frame_bytes frame_ok_def io_Write_faultless
      split: option.splits)

text \<open>Only quiet frames have been sent since \<open>c0\<close>.\<close>

definition quiet_since :: "client \<Rightarrow> client \<Rightarrow> bool" where
  "quiet_since c0 c \<longleftrightarrow> plain c \<and> (\<exists>gs. emits c0 gs c \<and> (\<forall>f\<in>set gs. quiet f))"

lemma quiet_since_refl: "plain c \<Longrightarrow> quiet_since c c"
  unfolding quiet_since_def by (auto intro: exI [of _ "[]"])

lemma client_Write_quiet:
  assumes "quiet_since c0 c" and "frame_ok f" and "quiet f"
  shows "quiet_since c0 (snd (client_Write z f c))"
proof (cases "ready c")
  case True
  with client_Write_ready [OF True assms(2), of z] obtain c' where "client_Write z f c = (Ok (), c')" "emits c [f] c'" "ready c'" by blast
  moreover obtain gs where "emits c0 gs c" "\<forall>f\<in>set gs. quiet f" using assms(1) by (auto simp: quiet_since_def)
  ultimately show ?thesis using emits_trans [of c0 gs c "[f]" c'] assms(3) unfolding quiet_since_def
    by (auto simp: ready_def intro!: exI [of _ "gs @ [f]"])
next
  case False
  with client_Write_stopped [of c f z] assms show ?thesis by (simp add: quiet_since_def)
qed

locale quiet_writes =
  fixes Write :: "'c writer" and P :: "'c \<Rightarrow> bool"
  assumes keeps: "P c \<Longrightarrow> frame_ok f \<Longrightarrow> quiet f \<Longrightarrow> P (snd (Write f c))"
begin

lemma reset_quiet: "P (snd sc) \<Longrightarrow> P (snd (snd (stream_reset Write ec sc)))"
  using keeps [of "snd sc" "(ResetStream_IntoFrame \<lparr>resetStreamID = strID (fst sc), resetErrorCode = ec\<rparr>)\<lparr>StreamID := strID (fst sc)\<rparr>"]
  by (auto simp: stream_reset_def stream_write_def Let_def quiet_def frame_ok_def frame_known_def frame_sized_def ResetStream_IntoFrame_def frameFromByte_def
      split: prod.splits) 

lemma ops_quiet:
  assumes "P c"
  shows "P (snd (snd (stream_Reset Write ec (s, c))))" and "P (snd (snd (stream_handleResetStream Write rs (s, c))))"
    and "P (snd (snd (stream_handleData Write d (s, c))))" and "P (snd (snd (stream_CloseLocal Write (s, c))))"
proof -
  show "P (snd (snd (stream_Reset Write ec (s, c))))"
    using assms by (cases "SendResetStream (sstate s)") (simp_all add: stream_Reset_def reset_quiet)
  show "P (snd (snd (stream_handleResetStream Write rs (s, c))))"
    using assms by (simp add: stream_handleResetStream_def reset_quiet)
  show "P (snd (snd (stream_handleData Write d (s, c))))"
    using assms by (cases "fst (Enqueue (dataPayload d) (sreader s))")
      (auto simp: stream_handleData_def reset_quiet Let_def split: prod.splits)
  have "P (snd (Write ((Data_IntoFrame (mkDataFrame (strID s) True True []))\<lparr>StreamID := strID s\<rparr>) c))"
    by (rule keeps) (use assms quiet_frames in \<open>simp_all add: frame_ok_def frame_known_def frame_sized_def Data_IntoFrame_def frameFromByte_def\<close>)
  with assms show "P (snd (snd (stream_CloseLocal Write (s, c))))"
    by (cases "SendData (sstate s)") (auto simp: stream_CloseLocal_def stream_write_def Let_def split: prod.splits)
qed

end

interpretation clq: quiet_writes "client_Write z" "quiet_since c0" for z c0
  by unfold_locales (rule client_Write_quiet)

lemma client_on_stream_sel:
  "client_out (snd (client_on_stream op i s c)) = client_out (snd (snd (op (s, c))))"
  "clLastStreamID (snd (client_on_stream op i s c)) = clLastStreamID (snd (snd (op (s, c))))"
  by (simp_all add: client_on_stream_def client_out_def split: prod.splits)

text \<open>Handling a frame sends only quiet frames.\<close>

definition quietly :: "client \<Rightarrow> client \<Rightarrow> bool" where
  "quietly c c' \<longleftrightarrow> (\<exists>gs. emits c gs c' \<and> (\<forall>f\<in>set gs. quiet f))"

lemma quietly_same: "client_out c' = client_out c \<Longrightarrow> clLastStreamID c' = clLastStreamID c \<Longrightarrow> quietly c c'"
  unfolding quietly_def by (rule exI [of _ "[]"]) (simp add: emits_def)

lemma quietly_update:
  "quietly c c1 \<Longrightarrow> client_out c2 = client_out c1 \<Longrightarrow> clLastStreamID c2 = clLastStreamID c1 \<Longrightarrow> quietly c c2"
  by (auto simp: quietly_def emits_def)

lemma quietly_on_stream: "quietly c (snd (snd (op (s, c)))) \<Longrightarrow> quietly c (snd (client_on_stream op i s c))"
  using quietly_update client_on_stream_sel by blast

lemma quiet_since_quietly: "quiet_since c c' \<Longrightarrow> quietly c c'"
  by (auto simp: quiet_since_def quietly_def)

lemma client_Write_quietly: "plain c \<Longrightarrow> frame_ok f \<Longrightarrow> quiet f \<Longrightarrow> quietly c (snd (client_Write z f c))"
  by (intro quiet_since_quietly client_Write_quiet quiet_since_refl)

lemma client_handlers_quiet:
  assumes "plain c"
  shows "quietly c (snd (client_handleData z d c))" and "quietly c (snd (client_handleResetStream z rs c))"
    and "length (pingPayload p) < 65536 \<Longrightarrow> quietly c (snd (client_handlePing z p c))" and "quietly c (snd (client_handleGoAway g c))"
    and "quietly c (snd (client_reset z ec msg c))" and "quietly c (snd (client_handleHello z h c))"
proof -
  note since = quiet_since_refl [OF assms]
  have rs: "quietly c (snd (client_resetStream z i ec c))" for i ec
    unfolding client_resetStream_def by (rule client_Write_quietly [OF assms clw.reset_frame_ok quiet_frames(2)])
  show "quietly c (snd (client_handleData z d c))"
    using rs quiet_since_quietly [OF clq.ops_quiet(3) [OF since]]
    by (auto simp: client_handleData_def split: option.splits intro: quietly_on_stream)
  show "quietly c (snd (client_handleResetStream z rs c))"
    using rs quiet_since_quietly [OF clq.ops_quiet(2) [OF since]]
    by (auto simp: client_handleResetStream_def split: option.splits intro: quietly_on_stream)
  show "quietly c (snd (client_handleGoAway g c))"
    by (rule quietly_same) (simp_all add: client_handleGoAway_def Let_def client_out_def client_terminate_def)
  show reset: "quietly c (snd (client_reset z ec msg c))" for ec msg
    by (rule quietly_same) (simp_all add: client_reset_def client_out_def)
  show "quietly c (snd (client_handleHello z h c))"
    by (rule quietly_same) (simp_all add: client_handleHello_def client_reset_def client_out_def Let_def)
  show "quietly c (snd (client_handlePing z p c))" if "length (pingPayload p) < 65536"
  proof (cases "pingAck p")
    case False
    let ?f = "Ping_IntoFrame \<lparr>pingAck = True, pingPayload = pingPayload p\<rparr>"
    have f: "frame_ok ?f" using that by (simp add: ping_frame_ok)
    then have b: "fst (Bytes z (clCompression c) ?f) = Ok (frame_bytes ?f)"
      using assms by (simp add: plain_def Bytes_frame_bytes frame_ok_def)
    have io: "faultless (clio c)" using assms by (simp add: plain_def)
    show ?thesis
    proof (cases "ioclosed (clio c)")
      case True
      then show ?thesis by (intro quietly_same) (simp_all add: client_handlePing_def False b io_Write_faultless [OF io] client_out_def)
    next
      case opn: False
      have "emits c [?f] (snd (client_handlePing z p c))"
        using f by (simp add: client_handlePing_def False b io_Write_faultless [OF io] opn emits_def client_out_def)
      then show ?thesis unfolding quietly_def using quiet_frames(4) by (intro exI [of _ "[?f]"]) simp
    qed
  qed (simp add: client_handlePing_def quietly_same)
qed

lemma dispatch_quiet:
  assumes "plain c" and "frame_sized fr"
  shows "quietly c (snd (dispatch z fr c))"
proof -
  have w: "quietly c (snd (client_handleWith FromFrame zero handle fr c))"
    if "\<And>m. FromFrame zero fr = (Ok (), m) \<Longrightarrow> quietly c (snd (handle m c))" for FromFrame and zero :: 'm and handle
    using that by (cases "FromFrame zero fr" rule: outcome_pair_cases) (simp_all add: client_handleWith_def quietly_same)
  have last: "quietly c (client_terminate c)" by (rule quietly_same) (simp_all add: client_terminate_def client_out_def)
  show ?thesis
    by (auto simp: dispatch_def Let_def client_handlers_quiet [OF assms(1)] last intro!: w dest: Ping_FromFrame_payload [OF _ assms(2)])
qed

text \<open>A write to a stream sends all of its frames or none.\<close>

lemma stream_writeAll_ready:
  "ready c \<Longrightarrow> \<forall>f\<in>set frs. frame_ok f \<and> StreamID f = strID s \<Longrightarrow>
     \<exists>c'. stream_writeAll (client_Write z) frs (s, c) = (Ok (), s, c') \<and> emits c frs c'"
proof (induction frs arbitrary: c)
  case (Cons f frs)
  then have f: "frame_ok f" "f\<lparr>StreamID := strID s\<rparr> = f" by auto
  obtain c1 where c1: "client_Write z f c = (Ok (), c1)" "emits c [f] c1" "ready c1"
    using client_Write_ready [OF Cons.prems(1) f(1)] by blast
  from Cons.IH [OF c1(3)] Cons.prems(2) obtain c' where "stream_writeAll (client_Write z) frs (s, c1) = (Ok (), s, c')" "emits c1 frs c'"
    by auto
  with c1 f(2) emits_trans [OF c1(2)] show ?case by (auto simp: stream_write_def)
qed simp

lemma data_stream_data:
  assumes "\<forall>d\<in>set ds. dataStreamID d = i"
  shows "stream_data j (map Data_IntoFrame ds) = (if j = i then concat (map dataPayload ds) else [])"
  using assms by (induction ds) (auto simp: stream_data_def Data_IntoFrame_def Let_def)

lemma stream_Write_emits:
  assumes "plain c"
  shows "\<exists>gs. emits c gs (snd (snd (stream_Write (client_Write z) d e (s, c)))) \<and> (\<forall>f\<in>set gs. FrameKind f \<noteq> FrameKindMakeStream) \<and>
    (\<forall>j. stream_data j gs = (if j = strID s \<and> fst (stream_Write (client_Write z) d e (s, c)) = Ok () then d else []))"
proof (cases "SendData (sstate s) = Ok () \<and> ready c")
  case True
  let ?ds = "DataFramesFromBuffer (strID s) e d"
  let ?frs = "map Data_IntoFrame ?ds"
  have ids: "\<forall>x\<in>set ?ds. dataStreamID x = strID s" using DataFrames_frames by blast
  have "\<forall>f\<in>set ?frs. frame_ok f \<and> StreamID f = strID s"
    by (auto simp: maxPayload_def Data_IntoFrame_def Let_def frame_ok_def frame_known_def frame_sized_def frameFromByte_def unat_of_nat_small
        dest!: DataFrames_frames)
  then obtain c' where w: "stream_writeAll (client_Write z) ?frs (s, c) = (Ok (), s, c')" "emits c ?frs c'"
    using stream_writeAll_ready [of c ?frs s z] True by blast
  have kinds: "\<forall>f\<in>set ?frs. FrameKind f \<noteq> FrameKindMakeStream" by (auto simp: Data_IntoFrame_def Let_def)
  have "stream_Write (client_Write z) d e (s, c) = (Ok (), if e then s\<lparr>sstate := streamState_CloseLocal (sstate s)\<rparr> else s, c')"
    using True w(1) by (simp add: stream_Write_def)
  with w(2) kinds data_stream_data [OF ids] show ?thesis
    by (intro exI [of _ ?frs]) (simp add: DataFrames_payload)
next
  case False
  have "\<not> is_Ok (fst (stream_Write (client_Write z) d e (s, c))) \<and> snd (snd (stream_Write (client_Write z) d e (s, c))) = c"
  proof (cases "SendData (sstate s) = Ok ()")
    case True
    then have nr: "\<not> ready c" using False by simp
    obtain x xs where ds: "DataFramesFromBuffer (strID s) e d = x # xs"
      using last_ends_nonempty [OF DataFrames_EndData] by (metis neq_Nil_conv)
    then have "frame_ok ((Data_IntoFrame x)\<lparr>StreamID := strID s\<rparr>)"
      using DataFrames_frames [of x "strID s" e d]
      by (auto simp: maxPayload_def Data_IntoFrame_def Let_def frame_ok_def frame_known_def frame_sized_def frameFromByte_def unat_of_nat_small)
    from client_Write_stopped [OF assms nr this, of z]
    show ?thesis
      by (cases "client_Write z ((Data_IntoFrame x)\<lparr>StreamID := strID s\<rparr>) c" rule: outcome_pair_cases)
        (simp_all add: stream_Write_def True ds stream_write_def)
  next
    case False
    then show ?thesis by (cases "SendData (sstate s)") (simp_all add: stream_Write_def)
  qed
  then show ?thesis by (intro exI [of _ "[]"]) auto
qed

text \<open>What a call of the application writes.\<close>

definition call_writes :: "appOp \<Rightarrow> unit outcome \<Rightarrow> bytes" where
  "call_writes op out = (case op of AppWrite d e \<Rightarrow> if out = Ok () then d else [] | _ \<Rightarrow> [])"

lemma quiet_stream_data: "\<forall>f\<in>set gs. quiet f \<Longrightarrow> stream_data j gs = []"
  by (auto simp: stream_data_def quiet_def)

lemma app_call_emits:
  assumes "plain c"
  shows "\<exists>gs. emits c gs (snd (snd (app_call (client_Write z) op (s, c)))) \<and> (\<forall>f\<in>set gs. FrameKind f \<noteq> FrameKindMakeStream) \<and>
    (\<forall>j. stream_data j gs = (if j = strID s then call_writes op (fst (app_call (client_Write z) op (s, c))) else []))"
proof -
  have q: "?thesis" if "quietly c (snd (snd (app_call (client_Write z) op (s, c))))" "\<And>out. call_writes op out = []"
    using that quiet_stream_data by (auto simp: quietly_def quiet_def)
  note ops = clq.ops_quiet [OF quiet_since_refl [OF assms], THEN quiet_since_quietly]
  show ?thesis
  proof (cases op)
    case (AppWrite d e)
    then show ?thesis using stream_Write_emits [OF assms, of z d e s] by (auto simp: call_writes_def)
  qed (rule q; simp add: ops call_writes_def quietly_same)+
qed

section \<open>The frames a client has sent\<close>

text \<open>
  \<open>w i\<close> is what the application has written to stream \<open>i\<close>: the frames carry exactly that, and nothing for a stream
  before it was made.
\<close>

definition client_sent :: "(u32 \<Rightarrow> bytes) \<Rightarrow> client \<Rightarrow> bool" where
  "client_sent w c \<longleftrightarrow> (\<forall>i. unat (clLastStreamID c) < unat i \<longrightarrow> w i = []) \<and>
     (\<exists>fs. client_out c = concat (map frame_bytes fs) \<and> (\<forall>f\<in>set fs. frame_ok f) \<and> (\<forall>i. stream_data i fs = w i) \<and>
       (\<forall>early m late. fs = early @ m # late \<longrightarrow> FrameKind m = FrameKindMakeStream \<longrightarrow> stream_data (StreamID m) early = []))"

lemma client_sent_start: "outp io = [] \<Longrightarrow> client_sent (\<lambda>i. []) (NewClient io)"
  unfolding client_sent_def by (auto simp: NewClient_def client_out_def intro!: exI [of _ "[]"])

lemma split_before: "fs @ gs = early @ m # late \<Longrightarrow> m \<notin> set gs \<Longrightarrow> \<exists>late'. fs = early @ m # late'"
  by (auto simp: append_eq_append_conv2 append_eq_Cons_conv Cons_eq_append_conv)

lemma client_sent_emits:
  assumes "client_sent w c" and "emits c gs c'" and "\<forall>f\<in>set gs. FrameKind f \<noteq> FrameKindMakeStream"
    and "\<forall>j. stream_data j gs = (if j = i then d else [])" and "d \<noteq> [] \<longrightarrow> unat i \<le> unat (clLastStreamID c)"
  shows "client_sent (w(i := w i @ d)) c'"
proof -
  from assms(1) obtain fs where fs: "client_out c = concat (map frame_bytes fs)" "\<forall>f\<in>set fs. frame_ok f" "\<forall>i. stream_data i fs = w i"
    "\<forall>early m late. fs = early @ m # late \<longrightarrow> FrameKind m = FrameKindMakeStream \<longrightarrow> stream_data (StreamID m) early = []"
    by (auto simp: client_sent_def)
  have "\<forall>early m late. fs @ gs = early @ m # late \<longrightarrow> FrameKind m = FrameKindMakeStream \<longrightarrow> stream_data (StreamID m) early = []"
    using fs(4) split_before [of fs gs] assms(3) by metis
  moreover have "\<forall>i'. unat (clLastStreamID c') < unat i' \<longrightarrow> (w(i := w i @ d)) i' = []"
    using assms(1,2,5) by (auto simp: client_sent_def emits_def)
  ultimately show ?thesis unfolding client_sent_def using fs assms(2,4)
    by (intro conjI exI [of _ "fs @ gs"]) (auto simp: emits_def)
qed

lemma client_sent_quiet: "client_sent w c \<Longrightarrow> quietly c c' \<Longrightarrow> client_sent w c'"
  using client_sent_emits [of w c _ c' 0 "[]"] quiet_stream_data by (auto simp: quietly_def quiet_def)

lemma client_sent_make:
  assumes "client_sent w c" and "unat i = Suc (unat (clLastStreamID c))" and "emits (c\<lparr>clLastStreamID := i\<rparr>) [makestream_frame i] c'"
  shows "client_sent w c'"
proof -
  from assms(1) obtain fs where fs: "client_out c = concat (map frame_bytes fs)" "\<forall>f\<in>set fs. frame_ok f" "\<forall>i. stream_data i fs = w i"
    "\<forall>early m late. fs = early @ m # late \<longrightarrow> FrameKind m = FrameKindMakeStream \<longrightarrow> stream_data (StreamID m) early = []"
    by (auto simp: client_sent_def)
  let ?m = "makestream_frame i"
  have m: "stream_data j [?m] = []" "StreamID ?m = i" for j by (simp_all add: stream_data_single makestream_frame_def MakeStream_IntoFrame_def)
  have new: "stream_data i fs = []" using fs(3) assms(1,2) by (simp add: client_sent_def)
  have "stream_data (StreamID x) early = []" if "fs @ [?m] = early @ x # late" "FrameKind x = FrameKindMakeStream" for early x late
  proof (cases late rule: rev_cases)
    case Nil
    then show ?thesis using that new m(2) by simp
  next
    case (snoc late' y)
    then show ?thesis using that fs(4) by auto
  qed
  moreover have "\<forall>j. unat (clLastStreamID c') < unat j \<longrightarrow> w j = []" using assms by (auto simp: client_sent_def emits_def)
  ultimately show ?thesis unfolding client_sent_def using fs assms(3) m
    by (intro conjI exI [of _ "fs @ [?m]"]) (auto simp: emits_def client_out_def)
qed

text \<open>The steps of a client.\<close>

lemma client_calls_sent:
  assumes "client_sent w c" and "plain c"
  shows "client_sent w (snd (Configure_send z m c))" and "client_sent w (snd (client_Terminate z reason c))"
    and "client_sent w (snd (client_Close c))" and "clLastStreamID c \<noteq> - 1 \<Longrightarrow> client_sent w (snd (client_NewStream z c))"
proof -
  show "client_sent w (snd (Configure_send z m c))"
    unfolding Configure_send_def
    by (rule client_sent_quiet [OF assms(1) client_Write_quietly [OF assms(2) hello_frame_ok quiet_frames(3)]])
  show "client_sent w (snd (client_Terminate z reason c))"
    using client_sent_quiet [OF assms(1) client_Write_quietly [OF assms(2) goAway_frame_ok quiet_frames(5)]] assms(1)
    by (simp add: client_Terminate_def split: option.split)
  show "client_sent w (snd (client_Close c))"
    by (rule client_sent_quiet [OF assms(1) quietly_same]) (simp_all add: client_Close_def client_out_def io_Close_def)
  assume last: "clLastStreamID c \<noteq> - 1"
  let ?i = "clLastStreamID c + 1"
  let ?c = "c\<lparr>clLastStreamID := ?i\<rparr>"
  have nz: "?i \<noteq> 0" using last by (metis add.inverse_unique add.commute)
  then have up: "unat ?i = Suc (unat (clLastStreamID c))" using unatSuc [of "clLastStreamID c"] by (simp add: add.commute)
  have p: "plain ?c" using assms(2) by (simp add: plain_def)
  note ok = makestream_frame_ok [OF nz]
  show "client_sent w (snd (client_NewStream z c))"
  proof (cases "ready ?c")
    case True
    obtain c' where c': "client_Write z (makestream_frame ?i) ?c = (Ok (), c')" "emits ?c [makestream_frame ?i] c'"
      using client_Write_ready [OF True ok] by blast
    have "emits ?c [makestream_frame ?i] (c'\<lparr>clStreams := AList.update ?i (NewStream ?i) (clStreams c')\<rparr>)"
      using c'(2) by (simp add: emits_def client_out_def)
    from client_sent_make [OF assms(1) up this] c'(1) True show ?thesis
      by (simp add: client_NewStream_def makestream_frame_def ready_def Let_def)
  next
    case False
    from client_Write_stopped [OF p False ok, of z] have w: "\<not> is_Ok (fst (client_Write z (makestream_frame ?i) ?c))"
      "snd (client_Write z (makestream_frame ?i) ?c) = ?c" by simp_all
    have "client_sent w ?c" using assms(1) up by (auto simp: client_sent_def client_out_def)
    with w assms(1) show ?thesis
      by (cases "client_Write z (makestream_frame ?i) ?c" rule: outcome_pair_cases)
        (auto simp: client_NewStream_def makestream_frame_def Let_def split: option.splits)
  qed
qed

lemma app_call_sent:
  assumes "client_sent w c" and "plain c" and "client_inv c" and "client_fetchStream i c = Some s"
    and "client_on_stream (app_call (client_Write z) op) i s c = (out, c')"
  shows "client_sent (w(i := w i @ call_writes op out)) c'"
proof -
  have s: "strID s = i" "unat i \<le> unat (clLastStreamID c)"
    using assms(3,4) table_ok_lookup [of "clStreams c" i s]
    by (force simp: client_inv_def client_table_ok_def client_fetchStream_def dest: map_of_SomeD)+
  from app_call_emits [OF assms(2), of z op s] obtain gs where gs: "emits c gs (snd (snd (app_call (client_Write z) op (s, c))))"
    "\<forall>f\<in>set gs. FrameKind f \<noteq> FrameKindMakeStream"
    "\<forall>j. stream_data j gs = (if j = i then call_writes op (fst (app_call (client_Write z) op (s, c))) else [])" using s(1) by blast
  have "emits c gs c'" using gs(1) client_on_stream_sel [of "app_call (client_Write z) op" i s c] assms(5) by (simp add: emits_def)
  moreover have "out = fst (app_call (client_Write z) op (s, c))" using assms(5) by (auto simp: client_on_stream_def split: prod.splits)
  ultimately show ?thesis using client_sent_emits [OF assms(1) _ gs(2), of c' i] gs(3) s(2) by simp
qed

end
