(* ===== verification/Wire_Net.thy ===== *)
theory Wire_Net
  imports Wire_Growth Wire_Sends
begin

text \<open>
  A client and a server connection joined by a network that delivers the bytes of each side in order, in chunks of
  any size and at any time. One direction is a channel: its invariant says that the frames read are the
  frames sent. The network's invariant puts the two directions and the streams together.
\<close>

section \<open>One direction\<close>

text \<open>
  \<open>io\<close> is the sender's connection, \<open>r\<close> the receiver's, which has received the first \<open>n\<close> of the bytes sent;
  \<open>gs\<close> are the frames it has read. The end is reported when the sender has closed and everything has arrived.
\<close>

definition channel_ok :: "netio \<Rightarrow> nat \<Rightarrow> reader \<Rightarrow> frame list \<Rightarrow> bool" where
  "channel_ok io n r gs \<longleftrightarrow> wire_ok (outp io) \<and> n \<le> length (outp io) \<and> (\<forall>f\<in>set gs. frame_ok f) \<and>
     take n (outp io) = concat (map frame_bytes gs) @ rflat r \<and>
     (source None r \<or> source (Some EOF) r \<and> ioclosed io \<and> n = length (outp io))"

lemma channel_start: "outp io = [] \<Longrightarrow> channel_ok io 0 (Base [] None) []"
  by (auto simp: channel_ok_def source_def wire_ok_Nil)

lemma channel_grow:
  assumes "channel_ok io n r gs" and "io_grows io io'" and "wire_ok (outp io')"
  shows "channel_ok io' n r gs"
proof -
  obtain more where more: "outp io' = outp io @ more" using assms(2) by (auto simp: io_grows_def prefix_def)
  then show ?thesis using assms by (auto simp: channel_ok_def io_grows_def)
qed

lemma channel_deliver:
  assumes "channel_ok io n (Base cs None) gs" and "n + k \<le> length (outp io)"
  shows "channel_ok io (n + k) (Base (cs @ [take k (drop n (outp io))]) None) gs"
  using assms by (auto simp: channel_ok_def source_def take_add)

lemma channel_close:
  "channel_ok io n (Base cs None) gs \<Longrightarrow> ioclosed io \<Longrightarrow> n = length (outp io) \<Longrightarrow> channel_ok io n (Base cs (Some EOF)) gs"
  by (auto simp: channel_ok_def source_def)

text \<open>
  What the receiver's next read does: it returns the next of the frames that were sent; or it waits, because
  not everything has arrived or because there is no further frame; or it meets the end, after the last frame.
\<close>

definition in_order :: "netio \<Rightarrow> nat \<Rightarrow> reader \<Rightarrow> frame list \<Rightarrow> bool" where
  "in_order io n r gs \<longleftrightarrow> (\<exists>fs. outp io = concat (map frame_bytes fs) \<and> (\<forall>f\<in>set fs. frame_ok f) \<and> prefix gs fs \<and>
     (case fst (FrameReader_Read r) of
        Ok f \<Rightarrow> prefix (gs @ [f]) fs
      | Blocks \<Rightarrow> n < length (outp io) \<or> gs = fs
      | Fail e \<Rightarrow> e = EOF \<and> ioclosed io \<and> gs = fs
      | Panic m \<Rightarrow> False))"

lemma in_orderD:
  assumes "in_order io n r gs"
  shows "\<exists>fs. outp io = concat (map frame_bytes fs) \<and> (\<forall>f\<in>set fs. frame_ok f) \<and> prefix gs fs \<and>
    (fst (FrameReader_Read r) = Blocks \<longrightarrow> n < length (outp io) \<or> gs = fs)"
proof -
  from assms obtain fs where fs: "outp io = concat (map frame_bytes fs)" "\<forall>f\<in>set fs. frame_ok f" "prefix gs fs"
    and next_read: "case fst (FrameReader_Read r) of Ok f \<Rightarrow> prefix (gs @ [f]) fs | Blocks \<Rightarrow> n < length (outp io) \<or> gs = fs
      | Fail e \<Rightarrow> e = EOF \<and> ioclosed io \<and> gs = fs | Panic m \<Rightarrow> False" unfolding in_order_def by blast
  have "fst (FrameReader_Read r) = Blocks \<longrightarrow> n < length (outp io) \<or> gs = fs" using next_read by auto
  with fs show ?thesis by blast
qed

lemma in_orderI:
  assumes "outp io = concat (map frame_bytes (gs @ rest))" and "\<forall>f\<in>set (gs @ rest). frame_ok f"
    and "case fst (FrameReader_Read r) of
        Ok f \<Rightarrow> prefix (gs @ [f]) (gs @ rest)
      | Blocks \<Rightarrow> n < length (outp io) \<or> rest = []
      | Fail e \<Rightarrow> e = EOF \<and> ioclosed io \<and> rest = []
      | Panic m \<Rightarrow> False"
  shows "in_order io n r gs"
  unfolding in_order_def
  by (rule exI [of _ "gs @ rest"]) (use assms in \<open>auto split: outcome.splits\<close>)

lemma channel_rest:
  assumes ch: "channel_ok io n r gs"
  obtains rest where "outp io = concat (map frame_bytes (gs @ rest))" "\<forall>f\<in>set (gs @ rest). frame_ok f"
    "concat (map frame_bytes rest) = rflat r @ drop n (outp io)"
proof -
  from ch obtain fs where fs: "outp io = concat (map frame_bytes fs)" "\<forall>f\<in>set fs. frame_ok f"
    by (auto simp: channel_ok_def wire_ok_def)
  have split: "outp io = concat (map frame_bytes gs) @ (rflat r @ drop n (outp io))"
    using ch append_take_drop_id [of n "outp io"] by (simp add: channel_ok_def)
  then have eq: "concat (map frame_bytes fs) = concat (map frame_bytes gs) @ (rflat r @ drop n (outp io))" using fs(1) by metis
  with fs(2) ch have "prefix gs fs" by (intro frames_prefix [OF _ _ eq]) (simp_all add: channel_ok_def)
  then obtain rest where rest: "fs = gs @ rest" by (auto simp: prefix_def)
  with eq have "concat (map frame_bytes rest) = rflat r @ drop n (outp io)" by simp
  with fs rest show ?thesis by (intro that [of rest]) simp_all
qed

lemma channel_read:
  assumes ch: "channel_ok io n r gs"
  shows "in_order io n r gs \<and>
    (case FrameReader_Read r of (Ok f, r') \<Rightarrow> channel_ok io n r' (gs @ [f]) | (Fail e, r') \<Rightarrow> channel_ok io n r' gs | _ \<Rightarrow> True)"
proof -
  from ch obtain rest where out: "outp io = concat (map frame_bytes (gs @ rest))" and ok: "\<forall>f\<in>set (gs @ rest). frame_ok f"
    and rest: "concat (map frame_bytes rest) = rflat r @ drop n (outp io)" by (rule channel_rest)
  consider (empty) "rest = []" | (frame) f fs ys where "rest = f # fs" "rflat r = frame_bytes f @ ys"
    | (part) f fs ys where "rest = f # fs" "frame_bytes f = rflat r @ ys" "ys \<noteq> []"
  proof (cases rest)
    case (Cons f fs)
    show ?thesis
    proof (cases "length (frame_bytes f) \<le> length (rflat r)")
      case True
      then show ?thesis using frame [OF Cons] rest Cons append_longer [of "frame_bytes f" _ "rflat r"] by auto
    next
      case False
      then obtain ys where "frame_bytes f = rflat r @ ys"
        using append_longer [of "rflat r" _ "frame_bytes f"] rest Cons by (metis concat.simps(2) linear list.simps(9))
      with False part [OF Cons] show ?thesis by auto
    qed
  qed (use empty in simp)
  then show ?thesis
  proof cases
    case empty
    then have r: "rflat r = []" "drop n (outp io) = []" using rest by simp_all
    from ch consider "source None r" | "source (Some EOF) r" "ioclosed io" by (auto simp: channel_ok_def)
    then show ?thesis
    proof cases
      case 1
      then have "fst (FrameReader_Read r) = Blocks"
        using FrameReader_Read_waits [of "hello_frame False False" r "frame_bytes (hello_frame False False)"] r(1)
        by (simp add: hello_frame_def hello_frame_ok frame_bytes_def magic_def)
      with in_orderI [OF out ok] empty show ?thesis by (cases "FrameReader_Read r") auto
    next
      case 2
      have "source (Some EOF) (snd (FrameReader_Read r))" using 2(1) by (rule FrameReader_Read_source)
      with FrameReader_Read_end [OF 2(1) r(1)] in_orderI [OF out ok] empty 2 ch r show ?thesis
        by (cases "FrameReader_Read r") (auto simp: channel_ok_def)
    qed
  next
    case frame
    then obtain r' where rd: "FrameReader_Read r = (Ok f, r')" "rflat r' = ys"
      using framerd.dec_flat [of f r ys] ok by auto
    have "prefix (gs @ [f]) (gs @ rest)" using frame(1) by simp
    then have "in_order io n r gs" using in_orderI [OF out ok] rd by simp
    moreover have "source t r'" if "source t r" for t using FrameReader_Read_source [OF that] rd by simp
    then have "channel_ok io n r' (gs @ [f])" using ch frame(2) rd ok frame(1) by (auto simp: channel_ok_def)
    ultimately show ?thesis using rd by simp
  next
    case part
    have "length (rflat r) < length (concat (map frame_bytes rest))" using part by simp
    then have more: "n < length (outp io)" using rest by simp
    with ch have "source None r" by (auto simp: channel_ok_def)
    with part ok have "fst (FrameReader_Read r) = Blocks" using FrameReader_Read_waits [of f r ys] by simp
    with in_orderI [OF out ok] more show ?thesis by (cases "FrameReader_Read r") auto
  qed
qed

section \<open>The two sides\<close>

text \<open>
  A server connection and a client, joined by the network. Besides the state of the two sides and what each of them
  has received and not yet read, \<open>upCount\<close> and \<open>downCount\<close> count the bytes that have arrived at the server and at
  the client, \<open>svFrames\<close> and \<open>clFrames\<close> record the frames each of them has read, \<open>svBytes\<close> what the service has
  read from each stream, and \<open>clBytes\<close> what the client's application has written to it.
\<close>

record net =
  svIn :: reader
  netServer :: Conn
  clIn :: reader
  netClient :: client
  upCount :: nat
  downCount :: nat
  svFrames :: "frame list"
  clFrames :: "frame list"
  svBytes :: "u32 \<Rightarrow> bytes"
  clBytes :: "u32 \<Rightarrow> bytes"

definition net_start :: "bool \<Rightarrow> int \<Rightarrow> netio \<Rightarrow> netio \<Rightarrow> net" where
  "net_start p i ios ioc =
     \<lparr>svIn = Base [] None, netServer = NewConn p i ios, clIn = Base [] None, netClient = NewClient ioc, upCount = 0, downCount = 0,
      svFrames = [], clFrames = [], svBytes = \<lambda>i. [], clBytes = \<lambda>i. []\<rparr>"

text \<open>
  The network delivers any number of the next bytes one side has sent, and reports the end when that side has closed
  and everything has arrived. A side takes a step of its session: it reads a frame, it meets the end, or it does
  something else and leaves its input alone.
\<close>

inductive net_step :: "flate \<Rightarrow> mapOrder \<Rightarrow> net \<Rightarrow> net \<Rightarrow> bool" for z ord where
  up: "svIn n = Base cs None \<Longrightarrow> upCount n + k \<le> length (client_out (netClient n)) \<Longrightarrow>
     net_step z ord n (n\<lparr>svIn := Base (cs @ [take k (drop (upCount n) (client_out (netClient n)))]) None, upCount := upCount n + k\<rparr>)"
| down: "clIn n = Base cs None \<Longrightarrow> downCount n + k \<le> length (Conn_out (netServer n)) \<Longrightarrow>
     net_step z ord n (n\<lparr>clIn := Base (cs @ [take k (drop (downCount n) (Conn_out (netServer n)))]) None, downCount := downCount n + k\<rparr>)"
| up_end: "svIn n = Base cs None \<Longrightarrow> ioclosed (clio (netClient n)) \<Longrightarrow> upCount n = length (client_out (netClient n)) \<Longrightarrow>
     net_step z ord n (n\<lparr>svIn := Base cs (Some EOF)\<rparr>)"
| down_end: "clIn n = Base cs None \<Longrightarrow> ioclosed (cio (netServer n)) \<Longrightarrow> downCount n = length (Conn_out (netServer n)) \<Longrightarrow>
     net_step z ord n (n\<lparr>clIn := Base cs (Some EOF)\<rparr>)"
| sv_frame: "running (netServer n) \<Longrightarrow> FrameReader_Read (svIn n) = (Ok f, r) \<Longrightarrow> dispatchFrame z ord f (netServer n) = (Ok (), c) \<Longrightarrow>
     net_step z ord n (n\<lparr>svIn := r, netServer := c, svFrames := svFrames n @ [f]\<rparr>)"
| sv_end: "running (netServer n) \<Longrightarrow> FrameReader_Read (svIn n) = (Fail e, r) \<Longrightarrow>
     net_step z ord n (n\<lparr>svIn := r, netServer := terminate ((netServer n)\<lparr>cerr := Some e\<rparr>)\<rparr>)"
| sv_call: "fetchStream i (netServer n) = Some s \<Longrightarrow> on_stream (app_call (Conn_Write z) op) i s (netServer n) = (out, c) \<Longrightarrow> returns out \<Longrightarrow>
     net_step z ord n (n\<lparr>netServer := c, svBytes := (svBytes n)(i := svBytes n i @ call_reads op s)\<rparr>)"
| sv_shutdown: "goAway z ErrorCodeNoError [] True (netServer n) = (Ok (), c) \<Longrightarrow> net_step z ord n (n\<lparr>netServer := c\<rparr>)"
| cl_frame: "FrameReader_Read (clIn n) = (Ok f, r) \<Longrightarrow> dispatch z f (netClient n) = (Ok (), d) \<Longrightarrow>
     net_step z ord n (n\<lparr>clIn := r, netClient := d, clFrames := clFrames n @ [f]\<rparr>)"
| cl_refused: "FrameReader_Read (clIn n) = (Ok f, r) \<Longrightarrow> dispatch z f (netClient n) = (Fail e, d) \<Longrightarrow>
     net_step z ord n (n\<lparr>clIn := r, netClient := if \<not> clRunning d then d else client_service_end e d, clFrames := clFrames n @ [f]\<rparr>)"
| cl_end: "FrameReader_Read (clIn n) = (Fail e, r) \<Longrightarrow>
     net_step z ord n (n\<lparr>clIn := r, netClient := if \<not> clRunning (netClient n) then netClient n else client_service_end e (netClient n)\<rparr>)"
| cl_configure: "Configure_send z m (netClient n) = (out, d) \<Longrightarrow> returns out \<Longrightarrow> net_step z ord n (n\<lparr>netClient := d\<rparr>)"
| cl_open: "clLastStreamID (netClient n) \<noteq> - 1 \<Longrightarrow> client_NewStream z (netClient n) = (i, d) \<Longrightarrow> returns i \<Longrightarrow> net_step z ord n (n\<lparr>netClient := d\<rparr>)"
| cl_goodbye: "client_Terminate z reason (netClient n) = (out, d) \<Longrightarrow> returns out \<Longrightarrow> net_step z ord n (n\<lparr>netClient := d\<rparr>)"
| cl_close: "client_Close (netClient n) = (out, d) \<Longrightarrow> net_step z ord n (n\<lparr>netClient := d\<rparr>)"
| cl_call: "client_fetchStream i (netClient n) = Some s \<Longrightarrow> client_on_stream (app_call (client_Write z) op) i s (netClient n) = (out, d) \<Longrightarrow> returns out \<Longrightarrow>
     net_step z ord n (n\<lparr>netClient := d, clBytes := (clBytes n)(i := clBytes n i @ call_writes op out)\<rparr>)"

inductive net_run :: "flate \<Rightarrow> mapOrder \<Rightarrow> net \<Rightarrow> net \<Rightarrow> bool" for z ord n0 where
  net_run_start: "net_run z ord n0 n0"
| net_run_next: "net_run z ord n0 n \<Longrightarrow> net_step z ord n n' \<Longrightarrow> net_run z ord n0 n'"

definition net_inv :: "net \<Rightarrow> bool" where
  "net_inv n \<longleftrightarrow> conn_inv (netServer n) \<and> client_inv (netClient n) \<and> faultless (cio (netServer n)) \<and> faultless (clio (netClient n)) \<and>
     mux_ok (streams (netServer n)) (svBytes n) (svFrames n) \<and>
     (clCompression (netClient n) = CompressionMethodNone \<longrightarrow> client_sent (clBytes n) (netClient n)) \<and>
     (clCompression (netClient n) = CompressionMethodNone \<longrightarrow> channel_ok (clio (netClient n)) (upCount n) (svIn n) (svFrames n)) \<and>
     (compression (netServer n) = CompressionMethodNone \<longrightarrow> channel_ok (cio (netServer n)) (downCount n) (clIn n) (clFrames n))"

lemma net_start_inv:
  assumes "faultless ios" "outp ios = []" "\<not> ioclosed ios" "faultless ioc" "outp ioc = []"
  shows "net_inv (net_start p i ios ioc)"
  using assms NewConn_inv [of ios p i] NewClient_inv [of ioc]
  by (simp add: net_inv_def net_start_def channel_start) (simp add: NewConn_def NewClient_def channel_start mux_ok_start client_sent_start [unfolded NewClient_def])

text \<open>A step of one side keeps the direction it sends on.\<close>

lemma server_sends:
  assumes "net_inv n" and "session_step z ord (svIn n, netServer n) (r, c)"
  shows "conn_inv c \<and> faultless (cio c) \<and> (compression c = CompressionMethodNone \<longrightarrow> channel_ok (cio c) (downCount n) (clIn n) (clFrames n))"
proof -
  have inv: "conn_inv c" using session_step_inv [OF assms(2)] assms(1) by (simp add: net_inv_def)
  have grow: "io_grows (cio (netServer n)) (cio c)" "compression c = CompressionMethodNone \<longrightarrow> compression (netServer n) = CompressionMethodNone"
    using session_step_grows [OF assms(2)] by (auto simp: Conn_grows_def)
  have fl: "faultless (cio c)" using io_grows_faultless [OF grow(1)] assms(1) by (simp add: net_inv_def)
  with inv grow channel_grow [OF _ grow(1)] assms(1) show ?thesis by (auto simp: net_inv_def conn_inv_def output_ok_def)
qed

lemma client_sends:
  assumes "net_inv n" and "client_step z (clIn n, netClient n) (r, d)"
  shows "client_inv d \<and> faultless (clio d) \<and> (clCompression d = CompressionMethodNone \<longrightarrow> channel_ok (clio d) (upCount n) (svIn n) (svFrames n))"
proof -
  have inv: "client_inv d" using client_step_inv [OF assms(2)] assms(1) by (simp add: net_inv_def)
  have grow: "io_grows (clio (netClient n)) (clio d)" "clCompression d = CompressionMethodNone \<longrightarrow> clCompression (netClient n) = CompressionMethodNone"
    using client_step_grows [OF assms(2)] by (auto simp: client_grows_def)
  have fl: "faultless (clio d)" using io_grows_faultless [OF grow(1)] assms(1) by (simp add: net_inv_def)
  with inv grow channel_grow [OF _ grow(1)] assms(1) show ?thesis by (auto simp: net_inv_def client_inv_def client_output_ok_def)
qed

lemma client_sent_end: "client_sent w (client_service_end e c) = client_sent w c"
  by (simp add: client_sent_def client_out_def client_service_end_def client_terminate_def Let_def)

lemma client_stays:
  "client_step z (clIn n, netClient n) (r, d) \<Longrightarrow> clCompression d = CompressionMethodNone \<Longrightarrow> clCompression (netClient n) = CompressionMethodNone"
  using client_step_grows by (auto simp: client_grows_def)

lemma net_step_inv:
  assumes "net_step z ord n n'" and "net_inv n"
  shows "net_inv n'"
  using assms
proof (cases rule: net_step.cases)
  case (up cs k)
  then show ?thesis using assms(2) channel_deliver [of "clio (netClient n)" "upCount n" cs "svFrames n" k] by (simp add: net_inv_def client_out_def)
next
  case (down cs k)
  then show ?thesis using assms(2) channel_deliver [of "cio (netServer n)" "downCount n" cs "clFrames n" k] by (simp add: net_inv_def Conn_out_def)
next
  case (up_end cs)
  then show ?thesis using assms(2) channel_close [of "clio (netClient n)" "upCount n" cs "svFrames n"] by (simp add: net_inv_def client_out_def)
next
  case (down_end cs)
  then show ?thesis using assms(2) channel_close [of "cio (netServer n)" "downCount n" cs "clFrames n"] by (simp add: net_inv_def Conn_out_def)
next
  case (sv_frame f r c)
  then show ?thesis
    using assms(2) server_sends [OF assms(2) recv [OF sv_frame(2-4)]] channel_read [of "clio (netClient n)" "upCount n" "svIn n" "svFrames n"]
      dispatchFrame_mux [of "netServer n" "svBytes n" "svFrames n" z ord f c] by (simp add: net_inv_def)
next
  case (sv_end e r)
  then show ?thesis
    using assms(2) server_sends [OF assms(2) recv_end [OF sv_end(2,3)]] channel_read [of "clio (netClient n)" "upCount n" "svIn n" "svFrames n"]
    by (simp add: net_inv_def)
next
  case (sv_call i s op out c)
  then show ?thesis
    using assms(2) server_sends [OF assms(2) session_step.app [OF sv_call(2-4)]] app_call_mux [of "netServer n" "svBytes n" "svFrames n" i s z op out c]
    by (simp add: net_inv_def)
next
  case (sv_shutdown c)
  then show ?thesis
    using assms(2) server_sends [OF assms(2) shutdown [OF sv_shutdown(2)]] streams_goAway(1) [of z ErrorCodeNoError "[]" True "netServer n"]
    by (simp add: net_inv_def)
next
  case (cl_frame f r d)
  from FrameReader_Read_ok [OF cl_frame(2)] have "frame_sized f" by (simp add: frame_ok_def)
  with cl_frame show ?thesis
    using assms(2) client_sends [OF assms(2) client_recv [OF cl_frame(2,3)]] channel_read [of "cio (netServer n)" "downCount n" "clIn n" "clFrames n"]
      client_stays [OF client_recv [OF cl_frame(2,3)]] client_sent_quiet [OF _ dispatch_quiet [of "netClient n" f z]]
    by (simp add: net_inv_def plain_def)
next
  case (cl_refused f r e d)
  from FrameReader_Read_ok [OF cl_refused(2)] have "frame_sized f" by (simp add: frame_ok_def)
  with cl_refused show ?thesis
    using assms(2) client_sends [OF assms(2) client_recv_error [OF cl_refused(2,3)]] channel_read [of "cio (netServer n)" "downCount n" "clIn n" "clFrames n"]
      client_stays [OF client_recv_error [OF cl_refused(2,3)]] client_sent_quiet [OF _ dispatch_quiet [of "netClient n" f z]]
    by (simp add: net_inv_def plain_def client_sent_end)
next
  case (cl_end e r)
  then show ?thesis
    using assms(2) client_sends [OF assms(2) client_recv_end [OF cl_end(2)]] channel_read [of "cio (netServer n)" "downCount n" "clIn n" "clFrames n"]
      client_stays [OF client_recv_end [OF cl_end(2)]]
    by (simp add: net_inv_def client_sent_end)
next
  case (cl_configure m out d)
  then show ?thesis
    using assms(2) client_sends [OF assms(2) client_configure [OF cl_configure(2,3)]] client_calls_sent(1) [of "clBytes n" "netClient n" z m]
      client_stays [OF client_configure [OF cl_configure(2,3)]]
    by (simp add: net_inv_def plain_def)
next
  case (cl_open i d)
  then show ?thesis
    using assms(2) client_sends [OF assms(2) client_open [OF cl_open(2-4)]] client_calls_sent(4) [of "clBytes n" "netClient n" z]
      client_stays [OF client_open [OF cl_open(2-4)]]
    by (simp add: net_inv_def plain_def)
next
  case (cl_goodbye reason out d)
  then show ?thesis
    using assms(2) client_sends [OF assms(2) client_goodbye [OF cl_goodbye(2,3)]] client_calls_sent(2) [of "clBytes n" "netClient n" z reason]
      client_stays [OF client_goodbye [OF cl_goodbye(2,3)]]
    by (simp add: net_inv_def plain_def)
next
  case (cl_close out d)
  then show ?thesis
    using assms(2) client_sends [OF assms(2) client_close [OF cl_close(2)]] client_calls_sent(3) [of "clBytes n" "netClient n"]
      client_stays [OF client_close [OF cl_close(2)]]
    by (simp add: net_inv_def plain_def)
next
  case (cl_call i s op out d)
  then show ?thesis
    using assms(2) client_sends [OF assms(2) client_app [OF cl_call(2-4)]] app_call_sent [of "clBytes n" "netClient n" i s z op out d]
      client_stays [OF client_app [OF cl_call(2-4)]]
    by (simp add: net_inv_def plain_def)
qed

lemma net_run_inv: "net_run z ord n0 n \<Longrightarrow> net_inv n0 \<Longrightarrow> net_inv n"
  by (induction rule: net_run.induct) (auto intro: net_step_inv)

section \<open>What the invariant says\<close>

lemma net_inv_order:
  assumes "net_inv n"
  shows "clCompression (netClient n) = CompressionMethodNone \<Longrightarrow> in_order (clio (netClient n)) (upCount n) (svIn n) (svFrames n)"
    and "compression (netServer n) = CompressionMethodNone \<Longrightarrow> in_order (cio (netServer n)) (downCount n) (clIn n) (clFrames n)"
  using assms channel_read by (simp_all add: net_inv_def)

text \<open>The bytes of a stream at the server: a prefix of what the client has written, and all of it when the stream
  takes data and nothing is on its way.\<close>

lemma net_inv_stream:
  assumes inv: "net_inv n" and comp: "clCompression (netClient n) = CompressionMethodNone" and s: "fetchStream i (netServer n) = Some s"
  shows "prefix (svBytes n i @ concat (stream_chunks s)) (clBytes n i)"
    and "receiving s \<Longrightarrow> upCount n = length (client_out (netClient n)) \<Longrightarrow> fst (FrameReader_Read (svIn n)) = Blocks \<Longrightarrow>
      svBytes n i @ concat (stream_chunks s) = clBytes n i"
proof -
  from net_inv_order(1) [OF inv comp] obtain fs where fs: "client_out (netClient n) = concat (map frame_bytes fs)" "\<forall>f\<in>set fs. frame_ok f"
    "prefix (svFrames n) fs" "fst (FrameReader_Read (svIn n)) = Blocks \<Longrightarrow> upCount n < length (client_out (netClient n)) \<or> svFrames n = fs"
    using in_orderD by (metis client_out_def)
  have "client_sent (clBytes n) (netClient n)" using inv comp by (simp add: net_inv_def)
  then obtain gs where gs: "client_out (netClient n) = concat (map frame_bytes gs)" "\<forall>f\<in>set gs. frame_ok f" "stream_data i gs = clBytes n i"
    "\<And>early m late. gs = early @ m # late \<Longrightarrow> FrameKind m = FrameKindMakeStream \<Longrightarrow> stream_data (StreamID m) early = []"
    unfolding client_sent_def by blast
  have eq: "gs = fs" using frames_prefix [of gs fs "[]"] frames_prefix [of fs gs "[]"] fs(1,2) gs(1,2) by (simp add: prefix_order.antisym)
  have "stream_ok i (svBytes n i) (svFrames n) s" using inv s by (simp add: net_inv_def mux_ok_def fetchStream_def)
  then obtain early m late where m: "strID s = i" "svFrames n = early @ m # late" "FrameKind m = FrameKindMakeStream" "StreamID m = i"
    "faithful (svBytes n i) late s" by (auto simp: stream_ok_def)
  obtain rest where rest: "fs = svFrames n @ rest" using fs(3) by (auto simp: prefix_def)
  have "stream_data i [m] = []" using m(3) by (simp add: stream_data_single)
  moreover have "stream_data i early = []" using gs(4) [of early m "late @ rest"] eq rest m by simp
  ultimately have all: "clBytes n i = stream_data i late @ stream_data i rest"
    using gs(3) eq rest m(2) stream_data_append [of i "[m]" "late @ rest"] by simp
  with m(1,5) show "prefix (svBytes n i @ concat (stream_chunks s)) (clBytes n i)" by (simp add: faithful_def)
  show "svBytes n i @ concat (stream_chunks s) = clBytes n i"
    if "receiving s" "upCount n = length (client_out (netClient n))" "fst (FrameReader_Read (svIn n)) = Blocks"
    using fs(4) [OF that(3)] that(1,2) rest all m(1,5) by (simp add: faithful_def)
qed

section \<open>Running the network\<close>

text \<open>The steps as a function: what is to happen next is an argument, and \<open>None\<close> means that it cannot.\<close>

datatype net_move = Up nat | Down nat | UpEnd | DownEnd | ServerReads | ClientReads | ServerShutdown
  | ServerCall u32 appOp | ClientConfigures compressionMethod | ClientOpens | ClientTerminates errorCode | ClientCloses
  | ClientCall u32 appOp

definition server_reads :: "flate \<Rightarrow> mapOrder \<Rightarrow> net \<Rightarrow> net option" where
  "server_reads z ord n =
     (if \<not> running (netServer n) then None
      else case FrameReader_Read (svIn n) of
        (Ok f, r) \<Rightarrow>
          (case dispatchFrame z ord f (netServer n) of
             (Ok _, c) \<Rightarrow> Some (n\<lparr>svIn := r, netServer := c, svFrames := svFrames n @ [f]\<rparr>)
           | _ \<Rightarrow> None)
      | (Fail e, r) \<Rightarrow> Some (n\<lparr>svIn := r, netServer := terminate ((netServer n)\<lparr>cerr := Some e\<rparr>)\<rparr>)
      | _ \<Rightarrow> None)"

definition client_reads :: "flate \<Rightarrow> net \<Rightarrow> net option" where
  "client_reads z n =
     (case FrameReader_Read (clIn n) of
        (Ok f, r) \<Rightarrow>
          (case dispatch z f (netClient n) of
             (Ok _, d) \<Rightarrow> Some (n\<lparr>clIn := r, netClient := d, clFrames := clFrames n @ [f]\<rparr>)
           | (Fail e, d) \<Rightarrow>
               Some (n\<lparr>clIn := r, netClient := if \<not> clRunning d then d else client_service_end e d, clFrames := clFrames n @ [f]\<rparr>)
           | _ \<Rightarrow> None)
      | (Fail e, r) \<Rightarrow> Some (n\<lparr>clIn := r, netClient := if \<not> clRunning (netClient n) then netClient n else client_service_end e (netClient n)\<rparr>)
      | _ \<Rightarrow> None)"

definition returned :: "('a outcome \<times> 'c) \<Rightarrow> 'c option" where
  "returned m = (if returns (fst m) then Some (snd m) else None)"

fun net_exec :: "flate \<Rightarrow> mapOrder \<Rightarrow> net_move \<Rightarrow> net \<Rightarrow> net option" where
  "net_exec z ord (Up k) n =
     (case svIn n of
        Base cs None \<Rightarrow>
          if upCount n + k \<le> length (client_out (netClient n))
          then Some (n\<lparr>svIn := Base (cs @ [take k (drop (upCount n) (client_out (netClient n)))]) None, upCount := upCount n + k\<rparr>) else None
      | _ \<Rightarrow> None)"
| "net_exec z ord (Down k) n =
     (case clIn n of
        Base cs None \<Rightarrow>
          if downCount n + k \<le> length (Conn_out (netServer n))
          then Some (n\<lparr>clIn := Base (cs @ [take k (drop (downCount n) (Conn_out (netServer n)))]) None, downCount := downCount n + k\<rparr>) else None
      | _ \<Rightarrow> None)"
| "net_exec z ord UpEnd n =
     (case svIn n of
        Base cs None \<Rightarrow>
          if ioclosed (clio (netClient n)) \<and> upCount n = length (client_out (netClient n)) then Some (n\<lparr>svIn := Base cs (Some EOF)\<rparr>) else None
      | _ \<Rightarrow> None)"
| "net_exec z ord DownEnd n =
     (case clIn n of
        Base cs None \<Rightarrow>
          if ioclosed (cio (netServer n)) \<and> downCount n = length (Conn_out (netServer n)) then Some (n\<lparr>clIn := Base cs (Some EOF)\<rparr>) else None
      | _ \<Rightarrow> None)"
| "net_exec z ord ServerReads n = server_reads z ord n"
| "net_exec z ord ClientReads n = client_reads z n"
| "net_exec z ord ServerShutdown n =
     (case goAway z ErrorCodeNoError [] True (netServer n) of (Ok _, c) \<Rightarrow> Some (n\<lparr>netServer := c\<rparr>) | _ \<Rightarrow> None)"
| "net_exec z ord (ServerCall i op) n =
     (case fetchStream i (netServer n) of
        None \<Rightarrow> None
      | Some s \<Rightarrow> map_option (\<lambda>c. n\<lparr>netServer := c, svBytes := (svBytes n)(i := svBytes n i @ call_reads op s)\<rparr>) (returned (on_stream (app_call (Conn_Write z) op) i s (netServer n))))"
| "net_exec z ord (ClientConfigures m) n = map_option (\<lambda>d. n\<lparr>netClient := d\<rparr>) (returned (Configure_send z m (netClient n)))"
| "net_exec z ord ClientOpens n =
     (if clLastStreamID (netClient n) = - 1 then None else map_option (\<lambda>d. n\<lparr>netClient := d\<rparr>) (returned (client_NewStream z (netClient n))))"
| "net_exec z ord (ClientTerminates reason) n = map_option (\<lambda>d. n\<lparr>netClient := d\<rparr>) (returned (client_Terminate z reason (netClient n)))"
| "net_exec z ord ClientCloses n = Some (n\<lparr>netClient := snd (client_Close (netClient n))\<rparr>)"
| "net_exec z ord (ClientCall i op) n =
     (case client_fetchStream i (netClient n) of
        None \<Rightarrow> None
      | Some s \<Rightarrow>
          (case client_on_stream (app_call (client_Write z) op) i s (netClient n) of (out, d) \<Rightarrow>
             if returns out then Some (n\<lparr>netClient := d, clBytes := (clBytes n)(i := clBytes n i @ call_writes op out)\<rparr>) else None))"

lemma returned_eq_Some: "returned m = Some c \<longleftrightarrow> (\<exists>out. m = (out, c) \<and> returns out)"
  by (cases m) (auto simp: returned_def)

lemma server_reads_step:
  assumes "server_reads z ord n = Some n'"
  shows "net_step z ord n n'"
proof -
  have run: "running (netServer n)" using assms by (auto simp: server_reads_def split: if_splits)
  show ?thesis
  proof (cases "FrameReader_Read (svIn n)" rule: outcome_pair_cases)
    case (Ok f r)
    then show ?thesis using assms run sv_frame [OF run Ok]
      by (cases "dispatchFrame z ord f (netServer n)" rule: outcome_pair_cases) (auto simp: server_reads_def)
  next
    case (Fail e r)
    then show ?thesis using assms run sv_end [OF run Fail] by (auto simp: server_reads_def)
  qed (use assms run in \<open>simp_all add: server_reads_def\<close>)
qed

lemma client_reads_step:
  assumes "client_reads z n = Some n'"
  shows "net_step z ord n n'"
proof (cases "FrameReader_Read (clIn n)" rule: outcome_pair_cases)
  case (Ok f r)
  then show ?thesis using assms cl_frame [OF Ok] cl_refused [OF Ok]
    by (cases "dispatch z f (netClient n)" rule: outcome_pair_cases) (auto simp: client_reads_def)
next
  case (Fail e r)
  then show ?thesis using assms cl_end [OF Fail] by (auto simp: client_reads_def)
qed (use assms in \<open>simp_all add: client_reads_def\<close>)

lemma net_exec_step:
  assumes "net_exec z ord m n = Some n'"
  shows "net_step z ord n n'"
  using assms
proof (cases m)
  case (Up k)
  with assms show ?thesis by (auto intro!: net_step.up split: reader.splits option.splits if_splits)
next
  case (Down k)
  with assms show ?thesis by (auto intro!: net_step.down split: reader.splits option.splits if_splits)
next
  case ServerShutdown
  with assms show ?thesis
    by (cases "goAway z ErrorCodeNoError [] True (netServer n)" rule: outcome_pair_cases) (auto intro!: sv_shutdown)
qed (auto simp: server_reads_step client_reads_step returned_eq_Some client_Close_def
    intro!: net_step.up_end net_step.down_end intro: sv_call cl_configure cl_open cl_goodbye cl_close cl_call
    split: reader.splits option.splits if_splits prod.splits)

primrec net_execs :: "flate \<Rightarrow> mapOrder \<Rightarrow> net_move list \<Rightarrow> net \<Rightarrow> net option" where
  "net_execs z ord [] n = Some n"
| "net_execs z ord (m # ms) n = Option.bind (net_exec z ord m n) (net_execs z ord ms)"

lemma net_execs_run: "net_execs z ord ms n = Some n' \<Longrightarrow> net_run z ord n0 n \<Longrightarrow> net_run z ord n0 n'"
proof (induction ms arbitrary: n)
  case (Cons m ms)
  then obtain y where y: "net_exec z ord m n = Some y" "net_execs z ord ms y = Some n'"
    by (auto simp: Option.bind_eq_Some_conv)
  from Cons.IH [OF y(2) net_run_next [OF Cons.prems(2) net_exec_step [OF y(1)]]] show ?case .
qed simp

end
