(* ===== verification/Spec2Isabelle.thy ===== *)
theory Spec2Isabelle
  imports Arf_Host Arf_Dial Stringer Proto_Message Proto_Ends Fair_Mutex Wire_Writers Wire_Reading Wire_Net
begin

text \<open>
  \<^bold>\<open>arf-go: a verification development\<close>

  arf is an RPC system. A client calls methods of services on a server over one connection; each call has a stream of
  its own, on which a request, a response and sequences of values travel. The program has four layers, from the bottom:

    \<^item> \<^verbatim>\<open>src/proto\<close>: a binary encoding of Go values, found by reflection, with a registry of message structs.
    \<^item> \<^verbatim>\<open>src/wire\<close>: frames on a connection, multiplexed streams with a state machine and a queue of blocks each, the two
      ends of a connection (\<^verbatim>\<open>Conn\<close> on the server, \<^verbatim>\<open>client\<close>), a handshake, and the table of connections of a server.
    \<^item> \<^verbatim>\<open>src/rpc\<close> and \<^verbatim>\<open>src/status\<close>: the seven messages of a call, metadata, status codes.
    \<^item> \<^verbatim>\<open>src\<close> (package \<^verbatim>\<open>arf\<close>): services, interceptors, the server's handling of a stream, \<^verbatim>\<open>Call\<close>, and the contexts on which
      both sides send and receive values.

  A call goes down through the layers on one side and up on the other: \<^verbatim>\<open>client.Call\<close> wraps a request, \<^verbatim>\<open>stream.Write\<close> cuts it
  into DATA frames, \<^verbatim>\<open>client.Write\<close> serialises them, \<^verbatim>\<open>FrameReader.Read\<close> and \<^verbatim>\<open>Conn.dispatchFrame\<close> hand the payloads to the queue
  of the peer's stream, and \<^verbatim>\<open>srv.ServiceStream\<close> reads the request from it.

  \<^bold>\<open>How Go is modelled\<close> (Prelude, Go\_IO)

  A result is an \<open>outcome\<close>: a value, an error, a panic, or waiting for ever. State is passed explicitly, \<open>bindR\<close> sequences
  fallible steps. Integers are words of their width; \<^verbatim>\<open>make\<close> panics beyond a limit (\<open>maxAlloc\<close>). An \<^verbatim>\<open>io.Reader\<close> is a list of
  chunks with an end (an error, or nothing yet) or a limited reader; a Read never crosses a chunk, as on a connection. The
  values of Go are \<open>goval\<close>, where a nil slice or map is the empty one, as are nil and empty byte slices. The
  locale \<open>io_reader\<close> is the contract of \<^verbatim>\<open>io.Reader\<close>; it is interpreted for chunked sources (\<open>rd\<close>), block queues (\<open>br\<close>) and
  streams (\<open>strm\<close>).

  \<^bold>\<open>The theories\<close>

    \<^item> Codec: the contract of an encoder and its decoder (locale \<open>codec\<close>, for encodings that arrive in one piece; locale
      \<open>chunkfree\<close>, for decoders that fill their buffers), prefix codes and counted loops from it.
    \<^item> Proto\_Scalar, Proto\_Float, Proto\_Value, Proto\_Encode, Proto\_Decode, Proto\_Roundtrip: the encoding of values. Go
      types and values are the datatypes \<open>gotype\<close> and \<open>goval\<close>; struct declarations are an environment, since they are the
      application's. \<open>DecodeAny\<close> is defined for all inputs (the unread input shrinks); \<open>canon\<close> says which value comes back, and
      \<open>Encode_roundtrips\<close> that it does, by computation induction on \<open>Encode\<close>. The instantiation of a decoded struct is
      the argument \<open>inst\<close> there, since reading does not depend on it; \<open>decodeIntoInstance\<close> is the one of the program.
    \<^item> Go\_Reflect, Proto\_Instance, Proto\_Message, Proto\_Ends: what \<^verbatim>\<open>struct.go\<close> uses of package \<^verbatim>\<open>reflect\<close> (conversion,
      assignment, zero values), the instantiation of a decoded struct (\<open>setValue\<close>, \<open>makeMap\<close>, \<open>decodeIntoInstance\<close>), the
      messages that come back equal (\<open>carried\<close>, \<open>carried_comes_back\<close>), and that decoding never waits on a source that ends.
    \<^item> Wire\_Frame, Wire\_Reader, Wire\_Data: frames, the six typed frames (locale \<open>framer\<close>, interpreted for each), the
      frame reader (an instance of \<open>chunkfree\<close>), and the cutting of buffers. DEFLATE is a parameter (\<open>flate\<close>) with its
      documented law \<open>flate_ok\<close>.
    \<^item> Fair\_Mutex: the channel used as a mutex, with goroutines that wait for it in order.
    \<^item> Block\_Reader: the queue of a stream, sequentially and as a step relation with a mutex and a channel.
    \<^item> Stream\_State, Wire\_Stream: the state machine and its abstraction to two directions; streams over any connection
      (locales \<open>conn\<close>, \<open>write_keeps\<close>, \<open>write_returns\<close>), and the proof that a stream reads like a chunked source.
    \<^item> Wire\_Conn, Wire\_Server: the server's connection with every handler, its invariant \<open>conn_inv\<close>, the reading goroutine,
      sessions as a step relation, and the table of connections.
    \<^item> Wire\_Writers: any number of calls of \<^verbatim>\<open>Conn.Write\<close> in parallel with \<^verbatim>\<open>serviceWrites\<close>, over a store of the objects that the pool recycles: one
      function per step (\<open>exec\<close>), an invariant of the ownership of objects (\<open>writers_inv\<close>), the refinement of writes that take
      effect in one step (\<open>atomic_step\<close>), what is sent, and that the goroutine answers every frame.
    \<^item> Wire\_Reading: the reading goroutine of a server connection among the others. The handlers are taken apart at their sends, the answers, the statements of
      \<^verbatim>\<open>terminate\<close>, the streams to cancel and the queues (\<open>serviceReads_step\<close>, a function); the others may do what \<open>rely\<close> allows, which contains what
      they do in the program (\<open>rely_app\<close>, \<open>rely_goAway\<close>, \<open>rely_terminate\<close>). Shown are an invariant (\<open>reading_inv\<close>), progress, termination by a
      lexicographic order (\<open>to_do\<close>), and that the goroutine with whole handlers is one of the runs (\<open>serviceReads_runs\<close>).
    \<^item> Wire\_Client: the client with every handler, its invariant \<open>client_inv\<close>, and its sessions.
    \<^item> Wire\_Session: both ends together: the handshake, making streams, data on its way.
    \<^item> Wire\_Growth, Wire\_Mux, Wire\_Sends, Wire\_Net: the whole wire layer on a network that delivers bytes in order, in any pieces: the
      output of both ends only grows (\<open>Conn_grows\<close>, \<open>client_grows\<close>), the streams of a server connection are faithful to the DATA
      frames received for them (\<open>mux_ok\<close>), the client sends exactly what was written to each stream (\<open>client_sent\<close>), and a run of
      the network (\<open>net_step\<close>, executable as \<open>net_exec\<close>) keeps all of it (\<open>net_inv\<close>).
    \<^item> Rpc\_Metadata, Rpc\_Message: metadata (locale \<open>multimap\<close>) and messages (locale \<open>message\<close>, interpreted seven times).
    \<^item> Arf\_Dial: dialing, up to the handshake.
    \<^item> Arf\_Host: the server's options, identifiers of requests, and the wire server it delegates to.
    \<^item> Arf\_Context, Arf\_Server, Arf\_Client, Arf\_Call, Arf\_Rpc: contexts over any stream that can be written to (locale
      \<open>stream_writer\<close>, interpreted for both ends), the server's life of a stream, calls, the two ways of a call, and a whole remote procedure call
      (\<open>unary_call_returns\<close>), with the response of the method or with its error.
    \<^item> Error\_Text, Stringer: the \<^verbatim>\<open>Error\<close> methods of the three packages, and the generated \<^verbatim>\<open>String\<close> methods.
    \<^item> this theory: the properties, each stated over the definitions of the model and applied to a concrete input, in the
      order of the layers.

  \<^bold>\<open>Goroutines and order\<close>

  The queue of a stream (\<open>br_step\<close>), the fair mutex (\<open>mutex_step\<close>) and the writes of a server connection (\<open>exec\<close>) are modelled with
  their interleavings. For a connection as a whole each handler and each call of the application is one step and the order of
  steps is arbitrary (\<open>session_step\<close>, \<open>client_step\<close>, and \<open>net_step\<close> for both ends and the network between them): \<^verbatim>\<open>Write\<close> hands its frame to the writing goroutine and waits for the answer, so
  it is one step that runs the body of that goroutine. \<open>writing_refines\<close> justifies this for the server: every interleaving of
  writes acts like a sequence of such steps. It fails in one respect, the comparison with the last frame after the answer, which
  \<open>missed_runs\<close> and \<open>early_runs\<close> show; so \<open>serviceReads\<close>, which has write, answer and comparison in one step, is one run of the reading goroutine among others, and the
  theory Wire\_Reading has all of them, panics included. There \<^verbatim>\<open>terminate\<close> is taken apart, and two goroutines that pass its unsynchronised check of \<^verbatim>\<open>running\<close> at
  the same time close a channel twice (\<open>terminate_races\<close>). In the other theories \<^verbatim>\<open>terminate\<close> is one step. A call of the application on a stream, which may write many frames, is
  one step too, and so is \<^verbatim>\<open>NewStream\<close> of the client: that a frame of the peer comes between its MAKE\_STREAM frame and the entry in the table is not among the runs of
  \<open>net_step\<close>. Data races on single words are not modelled. The first-in first-out order of the fair mutex is that of the queue of senders of a Go channel, which is part of the model
  of the runtime. \<open>Dial\<close> ends before \<^verbatim>\<open>Configure\<close> waits for the answer; that wait is \<open>waitForHello\<close>. Go's random iteration over maps is an arbitrary order given as an
  argument.

  \<^bold>\<open>Bounds\<close>

  No definition uses fuel: loops that read input end because the unread input shrinks (\<open>rsize\<close>), other loops are
  structural. The zero value of a type (\<open>zeros\<close>) is a partial function, because the declarations are arbitrary; it is
  defined wherever no struct contains itself (\<open>zeros_total\<close>). \<open>maxEncoded\<close> (2 to the 44) bounds the encodings in round trips, so that every \<^verbatim>\<open>make\<close> of the decoder is within
  the limit of the runtime. End-to-end statements take messages of at most one frame (65535 bytes), because \<^verbatim>\<open>decodeString\<close>
  and \<^verbatim>\<open>decodeBytes\<close> call Read once and zero-fill what a second chunk would bring (\<open>split_string_zero_filled\<close>). They also take what the queue of the
  receiving stream has room for (\<open>accepts\<close>): beyond its 128 blocks the reading goroutine waits in \<^verbatim>\<open>Enqueue\<close> with the mutex held, and a reader that finds nothing buffered waits for
  that mutex for ever (\<open>BlockReader_deadlock\<close>).

  \<^bold>\<open>Not modelled\<close>

  The system calls for dialing, listening, the host name and random bytes, TLS, logging, the texts of errors made with \<^verbatim>\<open>fmt.Errorf\<close>
  beyond their fixed part, and cancellation of contexts beyond the check in \<^verbatim>\<open>Call\<close> and the cause that \<^verbatim>\<open>CancelStream\<close> sets. The goroutines
  that the wire server starts for the stream handler are the arbitrary order in which streams are serviced.
\<close>

section \<open>Values on the wire\<close>

text \<open>
  C1. Whatever Encode produces for a value (structs, maps, arrays and scalars nested in any way), DecodeAny
  reads back as the canonical form of the value, from any reader that offers the encoding next, and leaves the
  reader right behind it. The bound keeps the allocations of the decoder possible.
\<close>

theorem Encode_DecodeAny:
  assumes "Encode \<Gamma> v = Ok bs" and "canon inst \<Gamma> v = Ok w" and "length bs \<le> maxEncoded" and "prefix bs (rpeek r)"
  shows "DecodeAny inst r = (Ok w, radv (length bs) r)"
  using Encode_roundtrips [of inst \<Gamma> v] assms roundtripsD dec_okD(2) by metis

definition sample_env :: tyenv where
  "sample_env = (\<lambda>_. \<lparr>sfields = [
     \<lparr>fname = ''Name'', exported = True, arfTag = Some ''1'', ftype = TString\<rparr>,
     \<lparr>fname = ''Tags'', exported = True, arfTag = Some ''0'', ftype = TSlice TString\<rparr>,
     \<lparr>fname = ''cache'', exported = False, arfTag = None, ftype = TInt\<rparr>], structID = Some (ascii ''org.example/item'')\<rparr>)"

definition sample_inst :: instantiate where
  "sample_inst sid fds = Ok (VStruct ''Item'' (map snd fds))"

definition sample_value :: goval where
  "sample_value = VPtr (TStruct ''Item'') (Some (VStruct ''Item'' [VString None (ascii ''a''),
     VSlice None TString [VString None (ascii ''x''), VString None []], VInt None 3]))"

definition sample_bytes :: bytes where
  "sample_bytes = (case Encode sample_env sample_value of Ok bs \<Rightarrow> bs | _ \<Rightarrow> [])"

theorem Encode_DecodeAny_witness:
  "DecodeAny sample_inst (NewReader sample_bytes)
     = (Ok (VStruct ''Item'' [VSlice None TAny [VString None (ascii ''x''), VString None []], VString None (ascii ''a'')]),
        radv (length sample_bytes) (NewReader sample_bytes))"
proof (rule Encode_DecodeAny [of sample_env sample_value])
  show "Encode sample_env sample_value = Ok sample_bytes" by code_simp
  show "canon sample_inst sample_env sample_value = Ok (VStruct ''Item'' [VSlice None TAny [VString None (ascii ''x''), VString None []], VString None (ascii ''a'')])"
   by code_simp
  have "length sample_bytes < 100" by code_simp
  then show "length sample_bytes \<le> maxEncoded" by (simp add: maxEncoded_def)
  show "prefix sample_bytes (rpeek (NewReader sample_bytes))" by code_simp
qed

text \<open>
  C27. Every 64-bit number is encoded in at most ten bytes and decoded again from them, however they are split
  into chunks.
\<close>

theorem varint_any_chunks:
  assumes "rflat r = encodeUint64 y @ rest"
  shows "length (encodeUint64 y) \<le> 10 \<and> (\<exists>r'. decodeUint64 r = (Ok y, r') \<and> rflat r' = rest)"
  using decodeUint64_flat [OF assms] length_encodeUint64 by blast

theorem varint_any_chunks_witness:
  "\<exists>r'. decodeUint64 (Base [[0xac], [], [0x02, 7]] None) = (Ok 300, r') \<and> rflat r' = [7]"
proof -
  have "rflat (Base [[0xac], [], [0x02, 7]] None) = encodeUint64 300 @ [7]" by code_simp
  from varint_any_chunks [OF this] show ?thesis by blast
qed

text \<open>
  C28. decodeScalar recovers the sign class and the value of every encoded integer of the eight integer types,
  except for the minima of the three narrow signed types.
\<close>

theorem scalar_roundtrip:
  assumes "\<not> narrow_minimum n" and "encodeScalar n = h # rest" and "prefix (h # rest) (rpeek r)"
  shows "\<exists>neg v. decodeScalar h (radv 1 r) = (Ok (numeric_signed n, neg, v), radv (length (h # rest)) r) \<and>
    signed_value neg v = numeric_value n"
  using decodeScalar_enc [OF assms(2,3)] magnitude_value [OF assms(1)] by (metis surjective_pairing)

theorem scalar_roundtrip_witness:
  "\<exists>neg v. decodeScalar 0x51 (NewReader [0xac, 0x02]) = (Ok (True, neg, v), radv 3 (NewReader [0x51, 0xac, 0x02])) \<and> signed_value neg v = -300"
proof -
  have "\<not> narrow_minimum (I16 (-300))" "encodeScalar (I16 (-300)) = [0x51, 0xac, 0x02]"
    "prefix [0x51, 0xac, 0x02] (rpeek (NewReader [0x51, 0xac, 0x02]))" "numeric_value (I16 (-300)) = -300"
    by code_simp+
  with scalar_roundtrip [of "I16 (-300)" "0x51" "[0xac, 0x02]" "NewReader [0x51, 0xac, 0x02]"] show ?thesis by simp
qed

section \<open>Frames\<close>

text \<open>
  C21. A sequence of well-formed frames (a known kind, the length field right) serialised with Bytes, without
  compression, is read back frame by frame by FrameReader.Read, however the bytes are split into chunks, and
  the reader stops right behind it.
\<close>

theorem frames_any_chunks:
  assumes "\<forall>f\<in>set fs. frame_ok f" and "rflat r = concat (map (\<lambda>f. case fst (Bytes z CompressionMethodNone f) of Ok bs \<Rightarrow> bs) fs) @ ys"
  shows "\<exists>r'. rloop (length fs) FrameReader_Read r = (Ok fs, r') \<and> rflat r' = ys"
proof -
  have "map (\<lambda>f. case fst (Bytes z CompressionMethodNone f) of Ok bs \<Rightarrow> bs) fs = map frame_bytes fs"
    using assms(1) by (auto simp: Bytes_frame_bytes frame_ok_def)
  with assms framerd.rloop_flat [of fs r ys] show ?thesis by presburger
qed

definition sample_frame :: frame where
  "sample_frame = Data_IntoFrame (mkDataFrame 7 True False [1, 2, 3])"

definition no_flate :: flate where
  "no_flate = \<lparr>deflate = \<lambda>b. b, inflate = \<lambda>b. (b, None)\<rparr>"

theorem frames_any_chunks_witness:
  "\<exists>r'. rloop 1 FrameReader_Read (Base [[0x61], [0x72, 0x66, 0, 0, 0, 7, 5, 2, 0], [3, 1, 2], [3, 9]] None) = (Ok [sample_frame], r') \<and> rflat r' = [9]"
proof -
  have "\<forall>f\<in>set [sample_frame]. frame_ok f" by code_simp
  moreover have "rflat (Base [[0x61], [0x72, 0x66, 0, 0, 0, 7, 5, 2, 0], [3, 1, 2], [3, 9]] None)
    = concat (map (\<lambda>f. case fst (Bytes no_flate CompressionMethodNone f) of Ok bs \<Rightarrow> bs) [sample_frame]) @ [9]" by code_simp
  ultimately show ?thesis using frames_any_chunks [of "[sample_frame]"] by fastforce
qed

text \<open>
  C22. On a source whose end is reported, FrameReader.Read returns an error or a frame of a known kind whose
  length field is the length of its payload; it never panics or waits.
\<close>

theorem FrameReader_Read_returns:
  assumes "ends r"
  shows "(\<exists>e r'. FrameReader_Read r = (Fail e, r')) \<or>
    (\<exists>f r'. FrameReader_Read r = (Ok f, r') \<and> unat (Length f) = length (Payload f) \<and> FrameKind f \<le> FrameKindData)"
proof (cases "FrameReader_Read r" rule: outcome_pair_cases)
  case (Ok f r')
  then have "frame_ok f" by (rule FrameReader_Read_ok)
  with Ok show ?thesis by (auto simp: frame_ok_def frame_sized_def frame_known_iff)
qed (use FrameReader_Read_ends [OF assms] in auto)

theorem FrameReader_Read_returns_witness:
  "(\<exists>e r'. FrameReader_Read (Base [[0x61, 0x72], [0x67, 0]] (Some EOF)) = (Fail e, r')) \<or>
    (\<exists>f r'. FrameReader_Read (Base [[0x61, 0x72], [0x67, 0]] (Some EOF)) = (Ok f, r') \<and> unat (Length f) = length (Payload f) \<and>
       FrameKind f \<le> FrameKindData)"
  by (rule FrameReader_Read_returns) code_simp

text \<open>
  C23. For each of the six typed frames, FromFrame of IntoFrame gives the value back, whatever the receiving
  struct held before, if the frame is valid: a HELLO that is no acknowledgement has no limit of streams, a
  PING has 8 bytes, the data of a GOAWAY and its 8 bytes of header stay below 65536 bytes, MAKE_STREAM,
  RESET_STREAM and DATA have a stream other than 0, and a DATA payload stays below 65536 bytes. A HELLO with a
  limit and without the acknowledgement, and the three kinds with stream 0, are refused with an error.
\<close>

theorem typed_frames_roundtrip:
  "(Hello_valid h \<longrightarrow> Hello_FromFrame h0 (Hello_IntoFrame h) = (Ok (), h)) \<and>
   (Ping_valid p \<longrightarrow> Ping_FromFrame p0 (Ping_IntoFrame p) = (Ok (), p)) \<and>
   (GoAway_valid g \<longrightarrow> GoAway_FromFrame g0 (GoAway_IntoFrame g) = (Ok (), g)) \<and>
   (MakeStream_valid m \<longrightarrow> MakeStream_FromFrame m0 (MakeStream_IntoFrame m) = (Ok (), m)) \<and>
   (ResetStream_valid s \<longrightarrow> ResetStream_FromFrame s0 (ResetStream_IntoFrame s) = (Ok (), s)) \<and>
   (Data_valid d \<longrightarrow> Data_FromFrame d0 (Data_IntoFrame d) = (Ok (), d)) \<and>
   (\<not> Hello_valid h \<longrightarrow> (\<exists>e h'. Hello_FromFrame h0 (Hello_IntoFrame h) = (Fail e, h'))) \<and>
   (\<not> MakeStream_valid m \<longrightarrow> (\<exists>e m'. MakeStream_FromFrame m0 (MakeStream_IntoFrame m) = (Fail e, m'))) \<and>
   (\<not> ResetStream_valid s \<longrightarrow> (\<exists>e s'. ResetStream_FromFrame s0 (ResetStream_IntoFrame s) = (Fail e, s'))) \<and>
   (dataStreamID d = 0 \<longrightarrow> (\<exists>e d'. Data_FromFrame d0 (Data_IntoFrame d) = (Fail e, d')))"
  by (simp add: hello.from_into ping.from_into goaway.from_into makestream.from_into resetstream.from_into data.from_into invalid_refused)

theorem typed_frames_roundtrip_witness:
  "Data_FromFrame (mkDataFrame 0 False True [9]) (Data_IntoFrame (mkDataFrame 7 True False [1, 2])) = (Ok (), mkDataFrame 7 True False [1, 2]) \<and>
   GoAway_FromFrame \<lparr>LastStreamID = 0, goAwayErrorCode = 0, AdditionalData = []\<rparr>
     (GoAway_IntoFrame \<lparr>LastStreamID = 3, goAwayErrorCode = ErrorCodeCancel, AdditionalData = [1]\<rparr>)
     = (Ok (), \<lparr>LastStreamID = 3, goAwayErrorCode = ErrorCodeCancel, AdditionalData = [1]\<rparr>)"
proof -
  have "Data_valid (mkDataFrame 7 True False [1, 2])" "GoAway_valid \<lparr>LastStreamID = 3, goAwayErrorCode = ErrorCodeCancel, AdditionalData = [1]\<rparr>"
    by (simp_all add: Data_valid_def GoAway_valid_def)
  then show ?thesis using typed_frames_roundtrip by blast
qed

text \<open>
  C24. FromFrame of each typed frame never indexes out of range on a frame whose length field is right, and on
  a frame of another kind it reports the mismatch and leaves the struct alone.
\<close>

theorem typed_frames_total:
  assumes "frame_sized f"
  shows "returns (fst (Hello_FromFrame h0 f)) \<and> returns (fst (Ping_FromFrame p0 f)) \<and> returns (fst (GoAway_FromFrame g0 f)) \<and>
    returns (fst (MakeStream_FromFrame m0 f)) \<and> returns (fst (ResetStream_FromFrame s0 f)) \<and> returns (fst (Data_FromFrame d0 f)) \<and>
    (FrameKind f \<noteq> FrameKindHello \<longrightarrow> Hello_FromFrame h0 f = (Fail (FrameTypeMismatchError FrameKindHello (FrameKind f)), h0)) \<and>
    (FrameKind f \<noteq> FrameKindPing \<longrightarrow> Ping_FromFrame p0 f = (Fail (FrameTypeMismatchError FrameKindPing (FrameKind f)), p0)) \<and>
    (FrameKind f \<noteq> FrameKindGoAway \<longrightarrow> GoAway_FromFrame g0 f = (Fail (FrameTypeMismatchError FrameKindGoAway (FrameKind f)), g0)) \<and>
    (FrameKind f \<noteq> FrameKindMakeStream \<longrightarrow> MakeStream_FromFrame m0 f = (Fail (FrameTypeMismatchError FrameKindMakeStream (FrameKind f)), m0)) \<and>
    (FrameKind f \<noteq> FrameKindResetStream \<longrightarrow> ResetStream_FromFrame s0 f = (Fail (FrameTypeMismatchError FrameKindResetStream (FrameKind f)), s0)) \<and>
    (FrameKind f \<noteq> FrameKindData \<longrightarrow> Data_FromFrame d0 f = (Fail (FrameTypeMismatchError FrameKindData (FrameKind f)), d0))"
  by (simp add: assms hello.from_total ping.from_total goaway.from_total makestream.from_total resetstream.from_total data.from_total
      hello.from_mismatch ping.from_mismatch goaway.from_mismatch makestream.from_mismatch resetstream.from_mismatch data.from_mismatch)

theorem typed_frames_total_witness:
  "returns (fst (GoAway_FromFrame \<lparr>LastStreamID = 0, goAwayErrorCode = 0, AdditionalData = []\<rparr>
      \<lparr>StreamID = 0, FrameKind = FrameKindGoAway, Flags = 0, Length = 3, Payload = [1, 2, 3]\<rparr>))"
proof -
  have "frame_sized \<lparr>StreamID = 0, FrameKind = FrameKindGoAway, Flags = 0, Length = 3, Payload = [1, 2, 3]\<rparr>"
    by (simp add: frame_sized_def)
  from typed_frames_total [OF this] show ?thesis by blast
qed

text \<open>
  C25. With a DEFLATE implementation that is inverted by its decompressor, Decompress undoes the compression
  that Bytes left in a valid DATA frame (a stream other than 0, a payload below 65536 bytes), and FromFrame
  then gives the data back.
\<close>

theorem compressed_roundtrip:
  assumes "flate_ok z" and "Data_valid d" and "Bytes z method (Data_IntoFrame d) = (Ok bs, f)"
  shows "Data_FromFrame d0 (snd (Frame_Decompress z method f)) = (Ok (), d)"
  using data.from_Decompress_Bytes(2) [OF assms] .

definition mirror_flate :: flate where
  "mirror_flate = \<lparr>deflate = rev, inflate = \<lambda>b. (rev b, None)\<rparr>"

theorem compressed_roundtrip_witness:
  "Data_FromFrame (mkDataFrame 0 False True []) (snd (Frame_Decompress mirror_flate CompressionMethodGzip
      (snd (Bytes mirror_flate CompressionMethodGzip (Data_IntoFrame (mkDataFrame 7 True False [1, 2]))))))
    = (Ok (), mkDataFrame 7 True False [1, 2])"
proof (rule compressed_roundtrip)
  show "flate_ok mirror_flate" by (simp add: flate_ok_def mirror_flate_def)
  show "Data_valid (mkDataFrame 7 True False [1, 2])" by (simp add: Data_valid_def)
  show "Bytes mirror_flate CompressionMethodGzip (Data_IntoFrame (mkDataFrame 7 True False [1, 2])) =
    (Ok [0x61, 0x72, 0x66, 0, 0, 0, 7, 5, 2, 0, 2, 2, 1], snd (Bytes mirror_flate CompressionMethodGzip (Data_IntoFrame (mkDataFrame 7 True False [1, 2]))))"
    by code_simp
qed

text \<open>
  C26. Splitting a buffer into DATA frames keeps its bytes, gives one frame per started block of 65535 bytes
  (one for an empty buffer), sets the end-of-data flag on exactly the last one, and puts at most 65535 bytes
  and the given stream and end flag in each.
\<close>

theorem DataFrames_split:
  "concat (map dataPayload (DataFramesFromBuffer i e b)) = b \<and>
   length (DataFramesFromBuffer i e b) = max 1 ((length b + 65534) div 65535) \<and>
   last_ends (DataFramesFromBuffer i e b) \<and>
   list_all (\<lambda>d. dataStreamID d = i \<and> EndStream d = e \<and> length (dataPayload d) \<le> 65535) (DataFramesFromBuffer i e b)"
  using DataFrames_payload DataFrames_length [of i e b] DataFrames_EndData [of i e b] DataFrames_frames [of _ i e b]
  by (auto simp: list_all_iff maxPayload_def)

section \<open>Queues and streams\<close>

text \<open>
  C17. In every interleaving of a goroutine that enqueues, one that reads and calls of close: the bytes handed
  out, the rest of the current block and the queued blocks are, in this order, the bytes that were enqueued,
  and the queue never exceeds its capacity.
\<close>

theorem BlockReader_fifo:
  assumes "br_reach s"
  shows "sent s = got s @ opt_bytes (buf (rdr s)) @ concat (blocks (rdr s)) \<and> length (blocks (rdr s)) \<le> chanCap"
  using br_reach_inv [OF assms] by (simp add: brsys_inv_def br_inv_def)

theorem BlockReader_fifo_witness:
  "sent (filled 2 [1]) = [1, 1] \<and> length (blocks (rdr (filled 2 [1]))) \<le> chanCap"
  using BlockReader_fifo [OF br_reach_filled [of "[1]" 2]] by (simp add: filled_def brsys_init_def NewBlockReader_def numeral_2_eq_2 chanCap_def)

text \<open>
  C18. The four state codes of a stream implement two independent directions and an error: every update
  changes only its direction, and the four checks allow exactly what the direction and the error allow.
\<close>

theorem streamState_refines_duplex:
  "duplex_of streamState_zero = \<lparr>localOpen = True, remoteOpen = True, failure = None\<rparr> \<and>
   duplex_of (streamState_Close s) = (duplex_of s)\<lparr>localOpen := False, remoteOpen := False\<rparr> \<and>
   duplex_of (streamState_CloseLocal s) = (duplex_of s)\<lparr>localOpen := False\<rparr> \<and>
   duplex_of (streamState_CloseRemote s) = (duplex_of s)\<lparr>remoteOpen := False\<rparr> \<and>
   duplex_of (streamState_SetError e s) = (duplex_of s)\<lparr>failure := Some e\<rparr> \<and>
   SendData s = permits (localOpen (duplex_of s)) (failure (duplex_of s)) \<and>
   SendResetStream s = permits (localOpen (duplex_of s)) (failure (duplex_of s)) \<and>
   RecvData s = permits (remoteOpen (duplex_of s)) (failure (duplex_of s)) \<and>
   RecvResetStream s = permits (localOpen (duplex_of s) \<or> remoteOpen (duplex_of s)) (failure (duplex_of s))"
  by (intro conjI duplex_of_zero duplex_of_updates duplex_of_checks)

text \<open>
  C19. Reading from a stream is reading from a source of chunks: each Read returns what Read of the source
  returns (data, an error, or waiting), and the states stay related.
\<close>

theorem stream_Read_refines:
  assumes "stream_inv s" and "stream_as r s"
  shows "fst (stream_Read n s) = fst (Read n r) \<and> stream_as (snd (Read n r)) (snd (stream_Read n s)) \<and>
    stream_inv (snd (stream_Read n s))"
  using stream_Read_simulates [OF assms] by simp

definition sample_stream :: stream where
  "sample_stream = (NewStream 7)\<lparr>sreader := NewBlockReader\<lparr>blocks := [[1, 2], [3]]\<rparr>\<rparr>"

theorem stream_Read_refines_witness:
  "fst (stream_Read 5 sample_stream) = Ok [1, 2]"
proof -
  have "stream_inv sample_stream" "stream_as (Base [[1, 2], [3]] None) sample_stream"
    by (simp_all add: sample_stream_def NewStream_def NewBlockReader_def stream_inv_def br_inv_def chanCap_def stream_as_def stream_tail_def
        stream_chunks_def duplex_of_def streamState_zero_def)
  from stream_Read_refines [OF this, of 5] show ?thesis by simp
qed

text \<open>A session: the client's HELLO and a request for stream 1 arrive and are handled.\<close>

definition sample_io :: netio where
  "sample_io = \<lparr>outp = [], writes = 0, fault = \<lambda>_. None, ioclosed = False\<rparr>"

definition sample_configured :: Conn where
  "sample_configured = snd (dispatchFrame mirror_flate (\<lambda>x. x) (hello_frame False False) (NewConn True 0 sample_io))"

definition sample_conn :: Conn where
  "sample_conn = snd (dispatchFrame mirror_flate (\<lambda>x. x) (makestream_frame 1) sample_configured)"

definition sample_input :: bytes where
  "sample_input = frame_bytes (hello_frame False False) @ frame_bytes (makestream_frame 1)"

lemma sample_session: "session mirror_flate (\<lambda>x. x) sample_io (Base [[]] None, sample_conn)"
proof -
  let ?z = mirror_flate and ?o = "\<lambda>x :: u32 list. x"
  have "session ?z ?o sample_io (Base [] None, NewConn True 0 sample_io)" by (rule session_start)
  moreover have "session_step ?z ?o (Base [] None, NewConn True 0 sample_io) (Base [sample_input] None, NewConn True 0 sample_io)"
    using arrive [of ?z ?o "[]" None "NewConn True 0 sample_io" sample_input] by simp
  moreover have "session_step ?z ?o (Base [sample_input] None, NewConn True 0 sample_io)
      (Base [frame_bytes (makestream_frame 1)] None, sample_configured)"
  proof (rule recv)
    show "running (NewConn True 0 sample_io)" by (simp add: NewConn_def)
    show "FrameReader_Read (Base [sample_input] None) = (Ok (hello_frame False False), Base [frame_bytes (makestream_frame 1)] None)"
      by code_simp
    have "fst (dispatchFrame ?z ?o (hello_frame False False) (NewConn True 0 sample_io)) = Ok ()" by code_simp
    then show "dispatchFrame ?z ?o (hello_frame False False) (NewConn True 0 sample_io) = (Ok (), sample_configured)"
      by (simp add: sample_configured_def prod_eq_iff)
  qed
  moreover have "session_step ?z ?o (Base [frame_bytes (makestream_frame 1)] None, sample_configured) (Base [[]] None, sample_conn)"
  proof (rule recv)
    show "running sample_configured" by code_simp
    show "FrameReader_Read (Base [frame_bytes (makestream_frame 1)] None) = (Ok (makestream_frame 1), Base [[]] None)"
      by code_simp
    have "fst (dispatchFrame ?z ?o (makestream_frame 1) sample_configured) = Ok ()" by code_simp
    then show "dispatchFrame ?z ?o (makestream_frame 1) sample_configured = (Ok (), sample_conn)"
      by (simp add: sample_conn_def prod_eq_iff)
  qed
  ultimately show ?thesis by (meson session_next)
qed

lemma sample_io_new: "\<not> ioclosed sample_io" "outp sample_io = []"
  by (simp_all add: sample_io_def)

section \<open>Connections\<close>

text \<open>
  C8. In every reachable state of a server connection (bytes arriving in any chunks, any frames, application
  calls and shutdown in any order): as long as no write fails and no compression is on, the bytes sent are a
  sequence of well-formed frames; the server is told of each stream once and of the end of the connection
  exactly once, after termination; streams have distinct non-zero identifiers and none exists before the
  handshake.
\<close>

theorem session_safe:
  assumes "session z ord io (r, c)" and "\<not> ioclosed io" and "outp io = []" 
  shows "(faultless (cio c) \<longrightarrow> compression c = CompressionMethodNone \<longrightarrow>
      (\<exists>fs. outp (cio c) = concat (map frame_bytes fs) \<and> (\<forall>f\<in>set fs. frame_ok f))) \<and>
    closedCalls (calls c) = (if parent c \<and> \<not> running c then [connID c] else []) \<and>
    serviceCalls (calls c) = (if parent c then map fst (streams c) else []) \<and>
    distinct (map fst (streams c)) \<and> (\<forall>(i, s)\<in>set (streams c). strID s = i \<and> i \<noteq> 0) \<and>
    (\<not> configured c \<longrightarrow> streams c = [])"
  using session_inv [OF assms] by (auto simp: conn_inv_defs table_ok_def wire_ok_def)

theorem session_safe_witness:
  "(\<exists>fs. outp (cio sample_conn) = concat (map frame_bytes fs) \<and> (\<forall>f\<in>set fs. frame_ok f)) \<and> serviceCalls (calls sample_conn) = [1]"
proof -
  have "compression sample_conn = CompressionMethodNone" "parent sample_conn" "map fst (streams sample_conn) = [1]" by code_simp+
  moreover have "fault (cio sample_conn) k = None" for k by code_simp
  then have "faultless (cio sample_conn)" by (simp add: faultless_def)
  ultimately show ?thesis using session_safe [OF sample_session sample_io_new] by auto
qed

text \<open>
  C9. The reading goroutine of a connection among the others. It is taken apart at its sends to the channel of
  frames, the answers, the statements of terminate, the streams it cancels and the queues it fills; between
  any two of its steps the other goroutines may do anything within what they do in the program (write, change
  the streams, stop the connection and close its channels and its socket). In every state it can reach, on an
  input whose end is reported, whatever the bytes: it takes only finitely many further steps, however the
  others interfere. Where it can take no step it has ended with the connection stopped, or it has panicked, or
  it waits at the full queue of a stream. It panics only by sending on the channel of frames or closing a
  channel after another goroutine has begun to terminate the connection; the witness is such a run. If no
  other goroutine terminates the connection and it has ended, both channels and the socket are closed. The
  frame sent is answered by the writing goroutine, and mutexes are given back.
\<close>

theorem reading_goroutine_stops:
  assumes "reads z ord r s" and "ends r"
  shows "termip (round_step z ord) s \<and>
    (serviceReads_step z ord s = None \<longrightarrow> rdPc s = Finished \<and> \<not> running (rdConn s) \<or> (\<exists>m. rdPc s = Crashed m) \<or>
      (\<exists>d. rdPc s = AtEnqueue d \<and> queue_full (rdConn s))) \<and>
    (\<forall>m. rdPc s = Crashed m \<longrightarrow> rdOther s \<and> (m = ''send on closed channel'' \<and> toWriteClosed (rdConn s) \<or>
      m = ''close of closed channel'' \<and> (dropClosed (rdConn s) \<or> toWriteClosed (rdConn s)))) \<and>
    (rdPc s = Finished \<and> \<not> rdOther s \<longrightarrow> dropClosed (rdConn s) \<and> toWriteClosed (rdConn s) \<and> ioclosed (cio (rdConn s)))"
proof -
  have inv: "reading_inv s" using assms by (rule reads_inv)
  then show ?thesis using rounds_end serviceReads_step_waits [OF inv, of z ord]
    by (auto simp: reading_inv_def shut_done_def)
qed

text \<open>A run that panics: on a connection that is not set up, two PING frames arrive. The first is answered by a GOAWAY frame, and the
  reading goroutine goes on to the second before the writing goroutine has compared; then the writing goroutine terminates the connection.\<close>

primrec own_steps :: "flate \<Rightarrow> mapOrder \<Rightarrow> nat \<Rightarrow> reading \<Rightarrow> reading option" where
  "own_steps z ord 0 s = Some s"
| "own_steps z ord (Suc n) s = Option.bind (serviceReads_step z ord s) (own_steps z ord n)"

lemma own_steps_reads: "own_steps z ord n s = Some s' \<Longrightarrow> reads z ord r s \<Longrightarrow> reads z ord r s'"
  by (induction n arbitrary: s) (auto split: bind_splits intro: reads_own)

definition two_pings :: reader where
  "two_pings = Base [concat (replicate 2 (frame_bytes (Ping_IntoFrame \<lparr>pingAck = False, pingPayload = [1, 2, 3, 4, 5, 6, 7, 8]\<rparr>)))] (Some EOF)"

definition sample_dispatching :: reading where
  "sample_dispatching = the (own_steps mirror_flate (\<lambda>x. x) 7
     \<lparr>rdIn = two_pings, rdConn = NewConn True 0 sample_io, rdPc = AtLoop, rdOther = False\<rparr>)"

definition sample_overtaken :: reading where
  "sample_overtaken = sample_dispatching\<lparr>rdConn := terminate (rdConn sample_dispatching),
     rdOther := rdOther sample_dispatching \<or> shut (terminate (rdConn sample_dispatching)) \<noteq> shut (rdConn sample_dispatching)\<rparr>"

definition sample_crash :: reading where
  "sample_crash = the (own_steps mirror_flate (\<lambda>x. x) 2 sample_overtaken)"

lemma sample_crash_reads: "reads mirror_flate (\<lambda>x. x) two_pings sample_crash"
proof -
  let ?z = mirror_flate and ?o = "\<lambda>x :: u32 list. x"
  have "\<not> Option.is_none (own_steps ?z ?o 7 \<lparr>rdIn = two_pings, rdConn = NewConn True 0 sample_io, rdPc = AtLoop, rdOther = False\<rparr>)" by code_simp
  then have "reads ?z ?o two_pings sample_dispatching"
    unfolding sample_dispatching_def Option.is_none_def by (auto intro: own_steps_reads reads_start)
  then have "reads ?z ?o two_pings sample_overtaken"
    unfolding sample_overtaken_def by (rule reads_others) (intro others rely_terminate)
  moreover have "\<not> Option.is_none (own_steps ?z ?o 2 sample_overtaken)" by code_simp
  ultimately show ?thesis unfolding sample_crash_def Option.is_none_def by (auto intro: own_steps_reads)
qed

theorem reading_goroutine_stops_witness:
  "rdPc sample_crash = Crashed ''send on closed channel'' \<and> rdOther sample_crash \<and> toWriteClosed (rdConn sample_crash) \<and>
    termip (round_step mirror_flate (\<lambda>x. x)) sample_crash"
proof -
  have crash: "rdPc sample_crash = Crashed ''send on closed channel''" by code_simp
  have "ends two_pings" by code_simp
  from reading_goroutine_stops [OF sample_crash_reads this] crash show ?thesis by auto
qed



section \<open>Client and server\<close>

text \<open>
  C16. In every reachable state of a client: as long as no write fails and no compression is on, the bytes
  sent are a sequence of well-formed frames; the identifiers of the streams are distinct and lie between 1 and
  the last one given out; the channel of frames is closed only after the client has stopped.
\<close>

theorem client_session_safe:
  assumes "client_session z io (r, c)" and "outp io = []"
  shows "(faultless (clio c) \<longrightarrow> clCompression c = CompressionMethodNone \<longrightarrow>
      (\<exists>fs. client_out c = concat (map frame_bytes fs) \<and> (\<forall>f\<in>set fs. frame_ok f))) \<and>
    distinct (map fst (clStreams c)) \<and>
    (\<forall>(i, s)\<in>set (clStreams c). strID s = i \<and> 1 \<le> unat i \<and> unat i \<le> unat (clLastStreamID c)) \<and>
    (clToWriteClosed c \<longrightarrow> \<not> clRunning c)"
proof -
  have inv: "client_inv c" using client_session_inv [OF assms] by simp
  have "1 \<le> unat i" if "i \<noteq> 0" for i :: u32 using that by (simp add: Suc_le_eq unat_gt_0)
  with inv show ?thesis by (force simp: client_inv_defs table_ok_def wire_ok_def client_out_def)
qed

definition sample_client :: client where
  "sample_client = snd (Configure_send mirror_flate CompressionMethodNone (NewClient sample_io))"

lemma sample_client_session: "client_session mirror_flate sample_io (Base [] None, sample_client)"
proof (rule client_session_next [OF client_session_start client_configure])
  have "fst (Configure_send mirror_flate CompressionMethodNone (NewClient sample_io)) = Ok ()" by code_simp
  then show "Configure_send mirror_flate CompressionMethodNone (NewClient sample_io) = (Ok (), sample_client)"
    by (simp add: sample_client_def prod_eq_iff)
qed simp

theorem client_session_safe_witness:
  "\<exists>fs. client_out sample_client = concat (map frame_bytes fs) \<and> (\<forall>f\<in>set fs. frame_ok f)"
proof -
  have "clCompression sample_client = CompressionMethodNone" by code_simp
  moreover have "fault (clio sample_client) k = None" for k by code_simp
  then have "faultless (clio sample_client)" by (simp add: faultless_def)
  ultimately show ?thesis using client_session_safe [OF sample_client_session] by (auto simp: sample_io_def)
qed

text \<open>
  C32. A client that has made fewer than 2 to the 32 streams gives a new stream the next number, which no
  stream of the client has, sends its MAKE_STREAM frame, and puts the stream in its table.
\<close>

theorem NewStream_fresh:
  assumes "client_session z io (r, c)" and "outp io = []" and "clLastStreamID c \<noteq> - 1"
    and "client_NewStream z c = (Ok i, c')"
  shows "unat i = Suc (unat (clLastStreamID c)) \<and> client_fetchStream i c = None \<and> client_fetchStream i c' = Some (NewStream i) \<and>
    client_out c' = client_out c @ client_ser z c (makestream_frame i)"
proof -
  have "client_inv c" using client_session_inv [OF assms(1,2)] by simp
  note new = client_NewStream_inv [OF this assms(3)] and eqs = client_NewStream_out [OF assms(4)]
  have "unat i = Suc (unat (clLastStreamID c))"
    using new(3) unatSuc [of "clLastStreamID c"] eqs(1) by (simp add: add.commute)
  with new(2) eqs show ?thesis by simp
qed

theorem NewStream_fresh_witness:
  "client_fetchStream 1 (snd (client_NewStream mirror_flate sample_client)) = Some (NewStream 1)"
proof -
  have "fst (client_NewStream mirror_flate sample_client) = Ok 1" by code_simp
  then have "client_NewStream mirror_flate sample_client = (Ok 1, snd (client_NewStream mirror_flate sample_client))" by (simp add: prod_eq_iff)
  moreover have "clLastStreamID sample_client \<noteq> - 1" by code_simp
  ultimately show ?thesis using NewStream_fresh [OF sample_client_session] by (simp add: sample_io_def)
qed

text \<open>
  C33. The handshake that Dial starts succeeds: the HELLO it sends without compression, read by the server in
  any chunks, configures the connection, and its answer, read by the client, sets the client up and ends the
  wait of Configure. The dialer is an argument and gives a fresh connection.
\<close>

theorem handshake:
  assumes "net_Dial addr = Ok io1" and "fresh_io io1" and "fresh_io io2"
  shows "\<exists>cl. Dial z tls_Dial net_Dial addr [] = Ok cl \<and>
    (\<forall>r. rflat r = client_out cl \<longrightarrow> (\<exists>r' sv. serviceReads z ord r (NewConn p i io2) = serviceReads z ord r' sv \<and> rflat r' = [] \<and>
      running sv \<and> configured sv \<and> compression sv = CompressionMethodNone \<and>
      (\<forall>q. rflat q = Conn_out sv \<longrightarrow> (\<exists>q' cl'. client_serviceReads z q cl = client_serviceReads z q' cl' \<and> rflat q' = [] \<and>
        clSetup cl' \<and> clCompression cl' = CompressionMethodNone \<and> waitForHello cl' = Ok ()))))"
proof -
  obtain cl where cl: "Configure_send z CompressionMethodNone (NewClient io1) = (Ok (), cl)"
    "client_out cl = frame_bytes (hello_frame False False)" "cl = (NewClient io1)\<lparr>clio := clio cl\<rparr>"
    using Configure_send_fresh [OF assms(2), of z CompressionMethodNone] by auto
  obtain sv where sv: "dispatchFrame z ord (hello_frame False False) (NewConn p i io2) = (Ok (), sv)"
    "configured sv" "running sv" "compression sv = CompressionMethodNone" "Conn_out sv = frame_bytes (hello_frame True False)"
    using dispatch_hello_fresh [OF assms(3), of z ord False p i] hello_frame_ok
    by (auto simp: Bytes_frame_bytes frame_ok_def hello_frame_def)
  have ok: "frame_ok (hello_frame a False)" for a by (simp add: hello_frame_def hello_frame_ok)
  have "\<exists>q' cl'. client_serviceReads z q cl = client_serviceReads z q' cl' \<and> rflat q' = [] \<and>
        clSetup cl' \<and> clCompression cl' = CompressionMethodNone \<and> waitForHello cl' = Ok ()" if "rflat q = Conn_out sv" for q
  proof -
    from that sv(5) framerd.dec_flat [OF ok, of q True "[]"] obtain q' where q': "FrameReader_Read q = (Ok (hello_frame True False), q')" "rflat q' = []"
      by auto
    have "clCompression cl = CompressionMethodNone" by (subst cl(3)) (simp add: NewClient_def)
    with q' show ?thesis
      by (subst client_serviceReads.simps) (auto simp: dispatch_hello_ack waitForHello_def intro!: exI [of _ q'])
  qed
  moreover have "\<exists>r'. rflat r' = [] \<and> serviceReads z ord r (NewConn p i io2) = serviceReads z ord r' sv" if "rflat r = client_out cl" for r
    using serviceReads_frames [of r "[hello_frame False False]" "[]" z ord "NewConn p i io2" sv] that cl(2) sv ok
    by (simp add: NewConn_def)
  moreover have "Dial z tls_Dial net_Dial addr [] = Ok cl" using assms(1) cl(1) by (simp add: Dial_def)
  ultimately show ?thesis using sv(2-4) by blast
qed

theorem handshake_witness:
  "\<exists>cl. Dial mirror_flate (\<lambda>a cfg. Fail EOF) (\<lambda>a. Ok sample_io) ''localhost:2000'' [] = Ok cl \<and>
    (\<forall>r. rflat r = client_out cl \<longrightarrow> (\<exists>r' sv. serviceReads mirror_flate (\<lambda>x. x) r (NewConn True 0 sample_io) = serviceReads mirror_flate (\<lambda>x. x) r' sv \<and> rflat r' = [] \<and>
      running sv \<and> configured sv \<and> compression sv = CompressionMethodNone \<and>
      (\<forall>q. rflat q = Conn_out sv \<longrightarrow> (\<exists>q' cl'. client_serviceReads mirror_flate q cl = client_serviceReads mirror_flate q' cl' \<and> rflat q' = [] \<and>
        clSetup cl' \<and> clCompression cl' = CompressionMethodNone \<and> waitForHello cl' = Ok ()))))"
  by (rule handshake [of _ _ sample_io]) (simp_all add: fresh_io_def sample_io_def)

text \<open>
  C40. With compression the handshake fails: the answer of the server is already compressed, the client reads
  its payload without decompressing, refuses its length, and Configure waits for ever. The hypothesis on the
  length of the compressed payload is that it is neither 0 nor 4 and fits the length field.
\<close>

theorem gzip_handshake_hangs:
  assumes "fresh_io io1" and "fresh_io io2" and "length (deflate z (Payload (hello_frame True True))) \<in> {1, 2, 3} \<union> {5..<65536}"
  shows "\<exists>cl. Configure_send z CompressionMethodGzip (NewClient io1) = (Ok (), cl) \<and>
    (\<exists>sv. dispatchFrame z ord (hello_frame False True) (NewConn p i io2) = (Ok (), sv) \<and>
      (\<forall>q. rflat q = Conn_out sv \<longrightarrow>
        (\<exists>q' cl'. client_serviceReads z q cl = (Ok (), q', cl') \<and> waitForHello cl' = Blocks)))"
proof -
  obtain cl where cl: "Configure_send z CompressionMethodGzip (NewClient io1) = (Ok (), cl)" "cl = (NewClient io1)\<lparr>clio := clio cl\<rparr>"
    using Configure_send_fresh [OF assms(1), of z CompressionMethodGzip] by auto
  let ?p = "deflate z (Payload (hello_frame True True))"
  let ?f = "(hello_frame True True)\<lparr>Payload := ?p, Length := of_nat (length ?p)\<rparr>"
  have len: "unat (of_nat (length ?p) :: u16) = length ?p" using assms(3) by (intro unat_of_nat_small) auto
  have ok: "frame_ok ?f" using len by (simp add: frame_ok_def frame_sized_def frame_known_iff hello_frame_def hello.into_kind)
  obtain sv where sv: "dispatchFrame z ord (hello_frame False True) (NewConn p i io2) = (Ok (), sv)" "Conn_out sv = frame_bytes ?f"
    using dispatch_hello_fresh [OF assms(2), of z ord True p i]
    by (auto simp: Bytes_def Compress_def Let_def frame_bytes_def)
  have ne: "Length ?f \<noteq> 0" "Length ?f \<noteq> 4" using len assms(3) by auto
  have ks: "FrameKind ?f = FrameKindHello" "StreamID ?f = 0" by (simp_all add: hello_frame_def Hello_IntoFrame_def)
  have "\<exists>q' cl'. client_serviceReads z q cl = (Ok (), q', cl') \<and> waitForHello cl' = Blocks" if "rflat q = Conn_out sv" for q
  proof -
    from that sv(2) framerd.dec_flat [OF ok, of q "[]"] obtain q' where q': "FrameReader_Read q = (Ok ?f, q')" by auto
    obtain e where e: "dispatch z ?f cl = (Fail (InvalidFrameLengthError e), cl)"
      using dispatch_hello_compressed [OF ks ne] by blast
    have "clRunning cl" "\<not> helloOK cl" by (subst cl(2), simp add: NewClient_def)+
    with q' e show ?thesis
      by (subst client_serviceReads.simps) (simp add: waitForHello_def client_service_end_def client_terminate_def Let_def)
  qed
  then show ?thesis using cl(1) sv(1) by blast
qed

definition padding_flate :: flate where
  "padding_flate = \<lparr>deflate = \<lambda>b. b @ [0], inflate = \<lambda>b. (butlast b, None)\<rparr>"

theorem gzip_handshake_hangs_witness:
  "\<exists>cl. Configure_send padding_flate CompressionMethodGzip (NewClient sample_io) = (Ok (), cl) \<and>
    (\<exists>sv. dispatchFrame padding_flate (\<lambda>x. x) (hello_frame False True) (NewConn True 0 sample_io) = (Ok (), sv) \<and>
      (\<forall>q. rflat q = Conn_out sv \<longrightarrow>
        (\<exists>q' cl'. client_serviceReads padding_flate q cl = (Ok (), q', cl') \<and> waitForHello cl' = Blocks)))"
proof (rule gzip_handshake_hangs)
  have "length (deflate padding_flate (Payload (hello_frame True True))) = 5" by code_simp
  then show "length (deflate padding_flate (Payload (hello_frame True True))) \<in> {1, 2, 3} \<union> {5..<65536}" by simp
qed (simp_all add: fresh_io_def sample_io_def)

text \<open>
  C15. A buffer written with success to a client stream, without ending it, arrives at the stream of the
  server complete and in order, whatever the chunks of the connection, if the free places in the queue of that
  stream are enough for the DATA frames of the buffer: at most 128 frames of 65535 bytes each. The client
  sends without compression, and the stream of the server takes data.
\<close>

theorem stream_data_arrives:
  assumes "stream_Write (client_Write z) d False (s, cl) = (Ok (), s', cl')" and "clCompression cl = CompressionMethodNone"
    and "accepts (length (DataFramesFromBuffer (strID s) False d)) (strID s) t c"
    and "rflat r = drop (length (client_out cl)) (client_out cl')"
  shows "\<exists>t' c' r'. serviceReads z ord r c = serviceReads z ord r' c' \<and> rflat r' = [] \<and> fetchStream (strID s) c' = Some t' \<and>
    concat (stream_chunks t') = concat (stream_chunks t) @ d"
  by (rule client_data_arrives [OF assms])

definition sample_sent :: "unit outcome \<times> stream \<times> client" where
  "sample_sent = stream_Write (client_Write mirror_flate) [1, 2] False (NewStream 1, sample_client)"

theorem stream_data_arrives_witness:
  "\<exists>t' c' r'. serviceReads mirror_flate (\<lambda>x. x) (Base [[0x61, 0x72, 0x66, 0], [0, 0, 1, 5, 2, 0], [2, 1], [2]] None) sample_conn
      = serviceReads mirror_flate (\<lambda>x. x) r' c' \<and> rflat r' = [] \<and> fetchStream 1 c' = Some t' \<and> concat (stream_chunks t') = [1, 2]"
proof -
  have "fst sample_sent = Ok ()" by code_simp
  then have w: "stream_Write (client_Write mirror_flate) [1, 2] False (NewStream 1, sample_client) = (Ok (), fst (snd sample_sent), snd (snd sample_sent))"
    by (simp add: sample_sent_def prod_eq_iff)
  have comp: "clCompression sample_client = CompressionMethodNone" by code_simp
  have acc: "accepts (length (DataFramesFromBuffer (strID (NewStream 1)) False [1, 2])) (strID (NewStream 1)) (NewStream 1) sample_conn" by code_simp
  have r: "rflat (Base [[0x61, 0x72, 0x66, 0], [0, 0, 1, 5, 2, 0], [2, 1], [2]] None) = drop (length (client_out sample_client)) (client_out (snd (snd sample_sent)))"
    by code_simp
  have "stream_chunks (NewStream 1) = []" "strID (NewStream 1) = 1" by code_simp+
  with stream_data_arrives [OF w comp acc r, of "\<lambda>x. x"] show ?thesis by simp
qed

text \<open>
  C37. A buffer of more than 65535 bytes that is sent with the end of the stream is cut: the first of its
  frames already carries the end, so the receiving connection keeps 65535 bytes and refuses the rest.
\<close>

theorem ended_data_cut:
  assumes "conn_inv c" and "accepts 1 i s c" and "length d > 65535"
  shows "\<exists>s' c'. dispatchAll z ord (map Data_IntoFrame (DataFramesFromBuffer i True d)) c = (Ok (), c') \<and>
    fetchStream i c' = Some s' \<and> concat (stream_chunks s') = concat (stream_chunks s) @ take 65535 d"
  using data_with_end_is_cut [OF assms(1,2)] assms(3) by (simp add: maxPayload_def)

theorem ended_data_cut_witness:
  "\<exists>s' c'. dispatchAll mirror_flate (\<lambda>x. x) (map Data_IntoFrame (DataFramesFromBuffer 1 True (replicate 65536 7))) sample_conn = (Ok (), c') \<and>
    fetchStream 1 c' = Some s' \<and> concat (stream_chunks s') = concat (stream_chunks (NewStream 1)) @ take 65535 (replicate 65536 7)"
proof (rule ended_data_cut)
  show "conn_inv sample_conn" using session_inv [OF sample_session sample_io_new] by simp
  show "accepts 1 1 (NewStream 1) sample_conn" by code_simp
qed simp

section \<open>Messages\<close>

text \<open>
  C29. Metadata with fewer than 65536 pairs that arrives in one piece is read back as it was encoded, in order
  and with duplicate names.
\<close>

theorem metadata_roundtrip:
  assumes "metadata_ok m" and "prefix (Metadata_Encode m) (rpeek r)"
  shows "MetadataFromReader r = (Ok m, radv (length (Metadata_Encode m)) r)"
  by (rule metard.dec_enc [OF assms])

theorem metadata_roundtrip_witness:
  "MetadataFromReader (NewReader (Metadata_Encode [(ascii ''a'', [1, 2]), (ascii ''a'', [])])) =
    (Ok [(ascii ''a'', [1, 2]), (ascii ''a'', [])],
     radv (length (Metadata_Encode [(ascii ''a'', [1, 2]), (ascii ''a'', [])])) (NewReader (Metadata_Encode [(ascii ''a'', [1, 2]), (ascii ''a'', [])])))"
proof (rule metadata_roundtrip)
  show "metadata_ok [(ascii ''a'', [1, 2]), (ascii ''a'', [])]" by (simp add: metadata_ok_def maxAlloc_def ascii_def)
  show "prefix (Metadata_Encode [(ascii ''a'', [1, 2]), (ascii ''a'', [])]) (rpeek (NewReader (Metadata_Encode [(ascii ''a'', [1, 2]), (ascii ''a'', [])])))"
    by code_simp
qed

text \<open>
  C30. The operations of Metadata are those of a multimap that keeps the values of a name with the latest
  first: Lookup and Get return the latest, Add adds one, Set replaces all.
\<close>

theorem metadata_multimap:
  "Metadata_GetAll k (MetadataFromItems kvs) = rev (map snd (filter (\<lambda>p. fst p = k) kvs)) \<and>
   Metadata_Lookup k m = (case Metadata_GetAll k m of [] \<Rightarrow> None | v # _ \<Rightarrow> Some v) \<and>
   Metadata_Get k (Metadata_Add k' v m) = (if k' = k then v else Metadata_Get k m) \<and>
   Metadata_GetAll k (Metadata_Add k' v m) = (if k' = k then v # Metadata_GetAll k m else Metadata_GetAll k m) \<and>
   Metadata_GetAll k (Metadata_Set k' v m) = (if k' = k then [v] else Metadata_GetAll k m)"
  using meta.all_fold_add [of k kvs "[]"]
  by (simp add: MetadataFromItems_def Metadata_GetAll_def [of k "[]"] meta.lookup_all meta.all_add meta.all_set Metadata_Get_def)

text \<open>
  C31. Each of the seven messages, wrapped and read back by MessageFromReader or by MessageTFromReader for its
  type, is the message with its parameters in canonical form, if it arrives in one piece and its metadata and
  parameters are fewer than 65536 each, the range of their counts.
\<close>

theorem message_roundtrip:
  assumes "message_valid m" and "wrapMessage \<Gamma> m = Ok bs" and "message_norm inst \<Gamma> m = Ok m'" and "length bs \<le> maxEncoded"
    and "prefix bs (rpeek r)"
  shows "MessageFromReader inst r = (Ok m', rskip (length bs) r) \<and>
    MessageTFromReader inst (message_Kind m) r = (Ok m', rskip (length bs) r)"
  using wrapMessage_reads_back [OF assms(1-4)] assms(5) by (simp add: reads_back_def)

definition sample_request :: request where
  "sample_request = \<lparr>Service = ascii ''svc'', Method = ascii ''Echo'', reqStreaming = False,
     reqMetadata = [(ascii ''k'', [1])], reqParams = [VBool None True]\<rparr>"

definition sample_request_bytes :: bytes where
  "sample_request_bytes = (case wrapMessage sample_env (Request sample_request) of Ok bs \<Rightarrow> bs | _ \<Rightarrow> [])"

lemma sample_request_facts:
  "Request_valid sample_request" "wrapMessage sample_env (Request sample_request) = Ok sample_request_bytes"
  "Request_norm sample_inst sample_env sample_request = Ok sample_request" "length sample_request_bytes \<le> maxPayload"
proof -
  show "Request_valid sample_request" by (simp add: Request_valid_def sample_request_def metadata_ok_def maxAlloc_def ascii_def)
  show "wrapMessage sample_env (Request sample_request) = Ok sample_request_bytes" by code_simp
  show "Request_norm sample_inst sample_env sample_request = Ok sample_request" by code_simp
  have "length sample_request_bytes < 100" by code_simp
  then show "length sample_request_bytes \<le> maxPayload" by (simp add: maxPayload_def)
qed

theorem message_roundtrip_witness:
  "MessageFromReader sample_inst (NewReader sample_request_bytes) =
    (Ok (Request sample_request), rskip (length sample_request_bytes) (NewReader sample_request_bytes))"
proof -
  have "message_valid (Request sample_request)" "message_norm sample_inst sample_env (Request sample_request) = Ok (Request sample_request)"
    "length sample_request_bytes \<le> maxEncoded"
    using sample_request_facts by (simp_all add: maxEncoded_def maxPayload_def)
  moreover have "prefix sample_request_bytes (rpeek (NewReader sample_request_bytes))" by code_simp
  ultimately show ?thesis using message_roundtrip [OF _ sample_request_facts(2)] by blast
qed

section \<open>Calls and streams of values\<close>

text \<open>
  C6. A unary call, end to end: what client.Call sends over a wire client (MAKE_STREAM, then the request in
  one DATA frame that ends the stream), read in any chunks by a configured server connection, makes the stream
  there, and reading that stream with MessageTFromReader gives the request of the call in canonical form.
\<close>

theorem call_reaches_service:
  assumes "Call_send \<Gamma> (client_ops z) cancelled svc meth opts (s0, cl) = (Ok (Some (req, target)), s, cl')"
    and "\<not> reqStreaming req" and "Request_valid req" and "Request_norm inst \<Gamma> req = Ok req'"
    and "wrapMessage \<Gamma> (Request req) = Ok enc" and "length enc \<le> maxPayload"
    and "clCompression cl = CompressionMethodNone" and "clLastStreamID cl \<noteq> - 1"
    and "running c" and "configured c" and "fetchStream (clLastStreamID cl + 1) c = None"
    and "rflat r = drop (length (client_out cl)) (client_out cl')"
  shows "\<exists>t c' r'. serviceReads z ord r c = serviceReads z ord r' c' \<and> rflat r' = [] \<and> fetchStream (clLastStreamID cl + 1) c' = Some t \<and>
    (\<forall>rr. stream_as rr t \<longrightarrow> (\<exists>rr'. MessageTFromReader inst MessageKindRequest rr = (Ok (Request req'), rr')))"
  using unary_call_arrives [OF assms] request_arrivesD by meson

definition sample_opts :: "callOption list" where
  "sample_opts = [WithMetadata [(ascii ''k'', [1])], WithParams [VBool None True]]"

definition sample_call :: "(request \<times> bool) option outcome \<times> stream \<times> client" where
  "sample_call = Call_send sample_env (client_ops mirror_flate) False (ascii ''svc'') (ascii ''Echo'') sample_opts (NewStream 0, sample_client)"

lemma sample_call_Ok:
  "Call_send sample_env (client_ops mirror_flate) False (ascii ''svc'') (ascii ''Echo'') sample_opts (NewStream 0, sample_client)
    = (Ok (Some (sample_request, False)), fst (snd sample_call), snd (snd sample_call))"
proof -
  have "fst sample_call = Ok (Some (sample_request, False))" by code_simp
  then show ?thesis by (simp add: sample_call_def prod_eq_iff)
qed

theorem call_reaches_service_witness:
  "\<exists>t c' r'. serviceReads mirror_flate (\<lambda>x. x) (NewReader (drop (length (client_out sample_client)) (client_out (snd (snd sample_call))))) sample_configured
      = serviceReads mirror_flate (\<lambda>x. x) r' c' \<and> rflat r' = [] \<and> fetchStream (clLastStreamID sample_client + 1) c' = Some t \<and>
    (\<forall>rr. stream_as rr t \<longrightarrow> (\<exists>rr'. MessageTFromReader sample_inst MessageKindRequest rr = (Ok (Request sample_request), rr')))"
proof (rule call_reaches_service [OF sample_call_Ok _ sample_request_facts(1,3,2,4)])
  show "\<not> reqStreaming sample_request" "clCompression sample_client = CompressionMethodNone" "clLastStreamID sample_client \<noteq> - 1" by code_simp+
  show "running sample_configured" "configured sample_configured" by code_simp+
  show "fetchStream (clLastStreamID sample_client + 1) sample_configured = None" by code_simp
qed simp

text \<open>
  C7. The way back: a response of at most one frame that the server writes to the stream of a call arrives at
  the stream of the client, and Call returns a context with that response in canonical form, and the output
  metadata where a target was given.
\<close>

theorem response_returns:
  assumes "Call_send \<Gamma> (client_ops z) cancelled svc meth opts w = (Ok (Some (req, target)), w')"
    and "Response_valid resp" and "wrapMessage \<Gamma>' (Response resp) = Ok bs" and "Response_norm inst \<Gamma>' resp = Ok resp'"
    and "stream_Write (Conn_Write z) bs e (t, c) = (Ok (), t', c')" and "compression c = CompressionMethodNone"
    and "length bs \<le> maxPayload" and "client_accepts (strID t) s cl" and "stream_chunks s = []"
    and "rflat q = drop (length (Conn_out c)) (Conn_out c')"
  shows "\<exists>s' cl' q'. client_serviceReads z q cl = client_serviceReads z q' cl' \<and> rflat q' = [] \<and>
    client_fetchStream (strID t) cl' = Some s' \<and>
    (\<forall>r. stream_as r s' \<longrightarrow> fst (Call \<Gamma> inst (client_ops z) cancelled svc meth opts (r, w)) =
      Ok (Some (callCtx req resp', if target then Some (respMetadata resp') else None)))"
  by (rule response_reaches_call [OF assms])

definition sample_response_bytes :: bytes where
  "sample_response_bytes = (case wrapMessage sample_env (Response okResponse) of Ok bs \<Rightarrow> bs | _ \<Rightarrow> [])"

lemma sample_response_facts:
  "Response_valid okResponse" "wrapMessage sample_env (Response okResponse) = Ok sample_response_bytes"
  "Response_norm sample_inst sample_env okResponse = Ok okResponse" "length sample_response_bytes \<le> maxPayload"
proof -
  show "Response_valid okResponse" by (simp add: Response_valid_def okResponse_def metadata_ok_def)
  show "wrapMessage sample_env (Response okResponse) = Ok sample_response_bytes" by code_simp
  show "Response_norm sample_inst sample_env okResponse = Ok okResponse" by code_simp
  have "length sample_response_bytes < 100" by code_simp
  then show "length sample_response_bytes \<le> maxPayload" by (simp add: maxPayload_def)
qed

definition sample_written :: "unit outcome \<times> stream \<times> Conn" where
  "sample_written = stream_Write (Conn_Write mirror_flate) sample_response_bytes True (NewStream 1, sample_conn)"

definition sample_calling :: client where
  "sample_calling = snd (dispatch mirror_flate (hello_frame True False) (snd (snd sample_call)))"

theorem response_returns_witness:
  "\<exists>s' cl' q'. client_serviceReads mirror_flate (NewReader (drop (length (Conn_out sample_conn)) (Conn_out (snd (snd sample_written))))) sample_calling
      = client_serviceReads mirror_flate q' cl' \<and> rflat q' = [] \<and> client_fetchStream (strID (NewStream 1)) cl' = Some s' \<and>
    (\<forall>r. stream_as r s' \<longrightarrow> fst (Call sample_env sample_inst (client_ops mirror_flate) False (ascii ''svc'') (ascii ''Echo'') sample_opts
       (r, NewStream 0, sample_client)) = Ok (Some (callCtx sample_request okResponse, if False then Some (respMetadata okResponse) else None)))"
proof (rule response_returns [OF sample_call_Ok sample_response_facts(1-3) _ _ sample_response_facts(4)])
  have "fst sample_written = Ok ()" by code_simp
  then show "stream_Write (Conn_Write mirror_flate) sample_response_bytes True (NewStream 1, sample_conn)
      = (Ok (), fst (snd sample_written), snd (snd sample_written))"
    by (simp add: sample_written_def prod_eq_iff)
  show "compression sample_conn = CompressionMethodNone" by code_simp
  show "client_accepts (strID (NewStream 1)) (NewStream 1) sample_calling" by code_simp
  show "stream_chunks (NewStream 1) = []" by code_simp
qed simp

text \<open>
  C13. A stream of values, end to end, for a stream that has not been started and at least one value: what
  Send writes for each value and EndSend at the end arrives at the server, where Recv returns the values one
  by one in order, in their canonical form, and then the end of the stream. The client sends without
  compression, each value with its header fits in one frame (65535 bytes), and the empty queue of the
  receiving stream has room for all of it, the start and the end included, before anything is read: at most
  126 values.
\<close>

theorem values_reach_server:
  assumes "Sends \<Gamma> (stream_Write (client_Write z)) vs (cc, s, cl) = (Ok (), cc1, s1, cl1)"
    and "EndSend \<Gamma> (stream_Write (client_Write z)) (cc1, s1, cl1) = (Ok (), cc2, s2, cl2)"
    and "vs \<noteq> []" and "\<not> sendStreamStarted cc" and "clCompression cl = CompressionMethodNone"
    and "list_all2 (\<lambda>v (bs, w). item_bytes \<Gamma> inst v bs w) vs bws" and "\<forall>bs\<in>fst ` set bws. length bs \<le> maxPayload"
    and "accepts (length vs + 2) (strID s) t c" and "stream_chunks t = []"
    and "rflat r = drop (length (client_out cl)) (client_out cl2)"
  shows "\<exists>t' c' r'. serviceReads z ord r c = serviceReads z ord r' c' \<and> rflat r' = [] \<and> fetchStream (strID s) c' = Some t' \<and>
    (\<forall>rr cx. stream_as rr t' \<longrightarrow> can_recv False cx \<longrightarrow>
      (\<exists>cx' rr'. Recvs inst (length vs) cx rr = (Ok (map snd bws), cx', rr') \<and> fst (Recv inst cx' rr') = Fail StreamEndError))"
  by (rule client_stream_to_server [OF assms])

definition sample_ctx :: ctx where
  "sample_ctx = callCtx (sample_request\<lparr>reqStreaming := True\<rparr>) okResponse"

definition sample_values :: "goval list" where
  "sample_values = [VBool None True, VUint64 None 300]"

definition sample_items :: "(bytes \<times> goval) list" where
  "sample_items = [([4, 0x12], VBool None True), ([4, 0x01, 0xac, 0x02], VUint64 None 300)]"

definition sample_sends :: "unit outcome \<times> ctx \<times> stream \<times> client" where
  "sample_sends = Sends sample_env (stream_Write (client_Write mirror_flate)) sample_values (sample_ctx, NewStream 1, sample_client)"

definition sample_endsend :: "unit outcome \<times> ctx \<times> stream \<times> client" where
  "sample_endsend = EndSend sample_env (stream_Write (client_Write mirror_flate)) (snd sample_sends)"

theorem values_reach_server_witness:
  "\<exists>t' c' r'. serviceReads mirror_flate (\<lambda>x. x) (NewReader (drop (length (client_out sample_client)) (client_out (snd (snd (snd sample_endsend)))))) sample_conn
      = serviceReads mirror_flate (\<lambda>x. x) r' c' \<and> rflat r' = [] \<and> fetchStream (strID (NewStream 1)) c' = Some t' \<and>
    (\<forall>rr cx. stream_as rr t' \<longrightarrow> can_recv False cx \<longrightarrow>
      (\<exists>cx' rr'. Recvs sample_inst (length sample_values) cx rr = (Ok (map snd sample_items), cx', rr') \<and>
        fst (Recv sample_inst cx' rr') = Fail StreamEndError))"
proof (rule values_reach_server)
  have "fst sample_sends = Ok ()" by code_simp
  then show "Sends sample_env (stream_Write (client_Write mirror_flate)) sample_values (sample_ctx, NewStream 1, sample_client)
      = (Ok (), fst (snd sample_sends), fst (snd (snd sample_sends)), snd (snd (snd sample_sends)))"
    by (simp add: sample_sends_def prod_eq_iff)
  have "fst sample_endsend = Ok ()" by code_simp
  then show "EndSend sample_env (stream_Write (client_Write mirror_flate)) (fst (snd sample_sends), fst (snd (snd sample_sends)), snd (snd (snd sample_sends)))
      = (Ok (), fst (snd sample_endsend), fst (snd (snd sample_endsend)), snd (snd (snd sample_endsend)))"
    by (simp add: sample_endsend_def prod_eq_iff)
  show "sample_values \<noteq> []" "\<not> sendStreamStarted sample_ctx" "clCompression sample_client = CompressionMethodNone" by code_simp+
  have "wrapMessage sample_env (StreamItem (VBool None True)) = Ok [4, 0x12]" "canon sample_inst sample_env (VBool None True) = Ok (VBool None True)"
    "wrapMessage sample_env (StreamItem (VUint64 None 300)) = Ok [4, 0x01, 0xac, 0x02]"
    "canon sample_inst sample_env (VUint64 None 300) = Ok (VUint64 None 300)" by code_simp+
  then show "list_all2 (\<lambda>v (bs, w). item_bytes sample_env sample_inst v bs w) sample_values sample_items"
    by (simp add: sample_values_def sample_items_def item_bytes_def maxEncoded_def)
  show "\<forall>bs\<in>fst ` set sample_items. length bs \<le> maxPayload" by (simp add: sample_items_def maxPayload_def)
  show "accepts (length sample_values + 2) (strID (NewStream 1)) (NewStream 1) sample_conn" by code_simp
  show "stream_chunks (NewStream 1) = []" by code_simp
qed simp

text \<open>
  C38. A streaming call starts its stream twice: once in Call and again in the first Send of its context; the
  receiver of such a stream fails at its first Recv.
\<close>

theorem streaming_call_refused:
  assumes "Call_send \<Gamma> (client_ops z) cancelled svc meth opts w = (Ok (Some (req, target)), w1)" and "reqStreaming req"
    and "Send \<Gamma> (stream_Write (client_Write z)) v (callCtx req resp, w1) = (Ok (), cx, w2)"
  shows "\<exists>w0 enc item. co_NewStream (client_ops z) w = (Ok (), w0) \<and> wrapMessage \<Gamma> (Request req) = Ok enc \<and>
    wrapMessage \<Gamma> (StreamItem v) = Ok item \<and>
    client_out (snd w2) = client_out (snd w0) @ client_emit z w0 enc False @ client_emit z w0 [MessageKindStartStream] False @
      client_emit z w0 [MessageKindStartStream] False @ client_emit z w0 item False \<and>
    (\<forall>sc rr. can_recv False sc \<longrightarrow> offers [[MessageKindStartStream], [MessageKindStartStream], item] rr \<longrightarrow>
      fst (Recv inst sc rr) = Fail (StreamFailure ''received unexpected message kind''))"
  using streaming_call_starts_twice [OF assms] Recv_double_start by metis

definition sample_stream_call :: "(request \<times> bool) option outcome \<times> stream \<times> client" where
  "sample_stream_call = Call_send sample_env (client_ops mirror_flate) False (ascii ''svc'') (ascii ''Echo'') (WithStream # sample_opts)
     (NewStream 0, sample_client)"

definition sample_stream_send :: "unit outcome \<times> ctx \<times> stream \<times> client" where
  "sample_stream_send = Send sample_env (stream_Write (client_Write mirror_flate)) (VBool None True)
     (callCtx (sample_request\<lparr>reqStreaming := True\<rparr>) okResponse, snd sample_stream_call)"

theorem streaming_call_refused_witness:
  "\<exists>w0 enc item. client_out (snd (snd (snd sample_stream_send))) = client_out (snd w0) @ client_emit mirror_flate w0 enc False @
      client_emit mirror_flate w0 [MessageKindStartStream] False @ client_emit mirror_flate w0 [MessageKindStartStream] False @
      client_emit mirror_flate w0 item False \<and>
    (\<forall>sc rr. can_recv False sc \<longrightarrow> offers [[MessageKindStartStream], [MessageKindStartStream], item] rr \<longrightarrow>
      fst (Recv sample_inst sc rr) = Fail (StreamFailure ''received unexpected message kind''))"
proof -
  let ?req = "sample_request\<lparr>reqStreaming := True\<rparr>"
  have "fst sample_stream_call = Ok (Some (?req, False))" by code_simp
  then have call: "Call_send sample_env (client_ops mirror_flate) False (ascii ''svc'') (ascii ''Echo'') (WithStream # sample_opts)
     (NewStream 0, sample_client) = (Ok (Some (?req, False)), snd sample_stream_call)"
    by (simp add: sample_stream_call_def prod_eq_iff)
  have "fst sample_stream_send = Ok ()" by code_simp
  then have send: "Send sample_env (stream_Write (client_Write mirror_flate)) (VBool None True) (callCtx ?req okResponse, snd sample_stream_call)
     = (Ok (), fst (snd sample_stream_send), snd (snd sample_stream_send))" by (simp add: sample_stream_send_def prod_eq_iff)
  show ?thesis using streaming_call_refused [OF call _ send, of sample_inst] by auto
qed

section \<open>Services\<close>

text \<open>
  C34. Interceptors run in the order of their registration, the first registered outermost, around the
  handler.
\<close>

theorem interceptors_nest:
  "chainInterceptors h (interceptors (RegisterInterceptor js (RegisterInterceptor is (arf_NewServer l)))) =
    foldr (\<lambda>ic next. ic next) is (foldr (\<lambda>ic next. ic next) js h)"
  by (simp add: RegisterInterceptor_def arf_NewServer_def chainInterceptors_append) (simp add: chainInterceptors_foldr)

text \<open>
  C35. A request for a service that is not registered, or for a method its service does not have, is answered
  with status 12 and its text, the tables of the server stay as they were, and the Result of that response, as
  the client computes it, is an error with that status. The server has a logger.
\<close>

theorem unknown_method_unimplemented:
  assumes "logger s" and "MessageTFromReader inst MessageKindRequest r = (Ok (Request req), r')"
    and "\<nexists>svc. map_of (services s) (Service req) = Some svc \<and> RespondsTo (Method req) svc"
  shows "\<exists>enc. wrapMessage \<Gamma> (Response (statusResponse 12 (ascii ''Unimplemented''))) = Ok enc \<and>
    arf_ServiceStream \<Gamma> inst etext ops (Ok i) r (w, s) =
      (fst (write_or_reset ops enc (op_SetExternalID ops i w)), snd (write_or_reset ops enc (op_SetExternalID ops i w)), s) \<and>
    Response_Result (statusResponse 12 (ascii ''Unimplemented'')) = Fail (BadStatus 12 (ascii ''Unimplemented''))"
  using ServiceStream_unimplemented [OF assms] wrap_statusResponse Result_statusResponse [of 12] by fastforce

text \<open>A server over the connection of the sample session, and its stream 1.\<close>

lemma sample_request_read:
  "MessageTFromReader sample_inst MessageKindRequest (NewReader sample_request_bytes) =
    (Ok (Request sample_request), rskip (length sample_request_bytes) (NewReader sample_request_bytes))"
proof -
  have "prefix sample_request_bytes (rpeek (NewReader sample_request_bytes))" by code_simp
  then show ?thesis using wrapMessage_reads_back(2) [OF _ sample_request_facts(2), of sample_inst "Request sample_request"] sample_request_facts
    by (simp add: reads_back_def maxEncoded_def maxPayload_def)
qed

theorem unknown_method_unimplemented_witness:
  "\<exists>enc. wrapMessage sample_env (Response (statusResponse 12 (ascii ''Unimplemented''))) = Ok enc \<and>
    fst (arf_ServiceStream sample_env sample_inst (\<lambda>e. []) (conn_ops mirror_flate) (Ok [1]) (NewReader sample_request_bytes)
      ((NewStream 1, sample_conn), arf_NewServer True)) = fst (write_or_reset (conn_ops mirror_flate) enc (op_SetExternalID (conn_ops mirror_flate) [1] (NewStream 1, sample_conn)))"
  using unknown_method_unimplemented [OF _ sample_request_read, of "arf_NewServer True" sample_env "\<lambda>e. []" "conn_ops mirror_flate" "[1]" "(NewStream 1, sample_conn)"]
  by (auto simp: arf_NewServer_def)

section \<open>Messages\<close>

text \<open>
  C2. A registered message whose fields hold exact scalars, strings, byte slices, pointers to them, slices and
  maps of them, and messages in turn (the predicate carried), is encoded and decoded as a pointer to an equal
  message, whatever the order in which Go iterates over the decoded fields: the conversions of setValue
  restore width, pointers, slices, maps and nested structs. The encoding arrives in one piece, and nil and
  empty slices and maps count as equal.
\<close>

theorem message_struct_roundtrip:
  assumes "is_order ord" and "carried \<Gamma> reg (TStruct n) (VStruct n vs)" and "Encode \<Gamma> (VStruct n vs) = Ok bs"
    and "length bs \<le> maxEncoded" and "prefix bs (rpeek r)"
  shows "DecodeAny (decodeIntoInstance rt \<Gamma> reg ord) r = (Ok (VPtr (TStruct n) (Some (VStruct n vs))), radv (length bs) r)"
  using Encode_roundtrips [of "decodeIntoInstance rt \<Gamma> reg ord" \<Gamma> "VStruct n vs"] message_comes_back [OF assms(1,2), of rt]
    assms(3-5) roundtripsD dec_okD(2) by metis

definition user_env :: tyenv where
  "user_env n =
     (if n = ''Address'' then
        \<lparr>sfields = [\<lparr>fname = ''City'', exported = True, arfTag = Some ''0'', ftype = TString\<rparr>],
         structID = Some (ascii ''org.example/Address'')\<rparr>
      else
        \<lparr>sfields = [
           \<lparr>fname = ''Name'', exported = True, arfTag = Some ''1'', ftype = TString\<rparr>,
           \<lparr>fname = ''Age'', exported = True, arfTag = Some ''0'', ftype = TInt16\<rparr>,
           \<lparr>fname = ''cache'', exported = False, arfTag = None, ftype = TMap TString TInt\<rparr>,
           \<lparr>fname = ''Homes'', exported = True, arfTag = Some ''2'', ftype = TSlice (TStruct ''Address'')\<rparr>,
           \<lparr>fname = ''Main'', exported = True, arfTag = Some ''3'', ftype = TPtr (TStruct ''Address'')\<rparr>,
           \<lparr>fname = ''Nick'', exported = True, arfTag = Some ''4'', ftype = TPtr TString\<rparr>,
           \<lparr>fname = ''Flags'', exported = True, arfTag = Some ''5'', ftype = TMap TString TBool\<rparr>],
         structID = Some (ascii ''org.example/User'')\<rparr>)"

definition user_registry :: registry where
  "user_registry = snd (RegisterMessage user_env (TStruct ''Address'') (snd (RegisterMessage user_env (TStruct ''User'') resetRegistry)))"

definition user_fields :: "goval list" where
  "user_fields = [VString None (ascii ''Ada''), VInt16 None 36, VMap None TString TInt [],
     VSlice None (TStruct ''Address'') [VStruct ''Address'' [VString None (ascii ''Rio'')], VStruct ''Address'' [VString None []]],
     VPtr (TStruct ''Address'') (Some (VStruct ''Address'' [VString None (ascii ''Ulm'')])), VPtr TString None,
     VMap None TString TBool [(VString None (ascii ''a''), VBool None True), (VString None (ascii ''b''), VBool None False)]]"

definition user_bytes :: bytes where
  "user_bytes = (case Encode user_env (VStruct ''User'' user_fields) of Ok bs \<Rightarrow> bs | _ \<Rightarrow> [])"

definition some_runtime :: goruntime where
  "some_runtime = \<lparr>implementsIface = (\<lambda>n t. False), floatToInt = (\<lambda>x. 0), floatToUint = (\<lambda>x. 0)\<rparr>"

theorem message_struct_roundtrip_witness:
  "DecodeAny (decodeIntoInstance some_runtime user_env user_registry rev) (NewReader user_bytes) =
     (Ok (VPtr (TStruct ''User'') (Some (VStruct ''User'' user_fields))), radv (length user_bytes) (NewReader user_bytes))"
proof (rule message_struct_roundtrip)
  show "is_order rev" by (simp add: is_order_def)
  show "carried user_env user_registry (TStruct ''User'') (VStruct ''User'' user_fields)" by code_simp
  show "Encode user_env (VStruct ''User'' user_fields) = Ok user_bytes" by code_simp
  have "length user_bytes < 1000" by code_simp
  then show "length user_bytes \<le> maxEncoded" by (simp add: maxEncoded_def)
  show "prefix user_bytes (rpeek (NewReader user_bytes))" by code_simp
qed

section \<open>Locks\<close>

text \<open>
  C20. In every reachable state of goroutines that use a FairMutex at most one holds it, the calls of Lock
  return in the order in which they were made, and a waiting goroutine gets the mutex after one Unlock for the
  holder and one for each goroutine ahead of it. The order is that of the queue of senders of a Go channel.
\<close>

theorem FairMutex_fifo:
  assumes "mutex_step\<^sup>*\<^sup>* mutex_init s"
  shows "length (holders s) \<le> 1 \<and> asked s = granted s @ sendq (mu s) \<and>
    (\<forall>gs g hs. sendq (mu s) = gs @ g # hs \<longrightarrow> (\<exists>s'. (mutex_step ^^ Suc (length gs)) s s' \<and> holders s' = [g]))"
  using mutex_reach_inv [OF assms] mutex_granted_after by (auto simp: mutex_inv_def queueCap_def)

definition contended :: mutexSys where
  "contended = \<lparr>mu = \<lparr>queueLen = 1, sendq = [2, 3]\<rparr>, holders = [1], asked = [1, 2, 3], granted = [1]\<rparr>"

lemma contended_reached: "mutex_step\<^sup>*\<^sup>* mutex_init contended"
proof -
  let ?s1 = "mutex_init\<lparr>mu := \<lparr>queueLen = 1, sendq = []\<rparr>, holders := [1], asked := [1], granted := [1]\<rparr>"
  let ?s2 = "?s1\<lparr>mu := \<lparr>queueLen = 1, sendq = [2]\<rparr>, asked := [1, 2]\<rparr>"
  have "mutex_step mutex_init ?s1"
    using mutex_step.lock_now [of 1 mutex_init "\<lparr>queueLen = 1, sendq = []\<rparr>"]
    by (simp add: mutex_init_def NewFairMutex_def Lock_def queueCap_def)
  moreover have "mutex_step ?s1 ?s2"
    using mutex_step.lock_wait [of 2 ?s1 "\<lparr>queueLen = 1, sendq = [2]\<rparr>"] by (simp add: Lock_def queueCap_def)
  moreover have "mutex_step ?s2 contended"
    using mutex_step.lock_wait [of 3 ?s2 "\<lparr>queueLen = 1, sendq = [2, 3]\<rparr>"]
    by (simp add: Lock_def queueCap_def contended_def mutex_init_def)
  ultimately show ?thesis by (meson converse_rtranclp_into_rtranclp rtranclp.rtrancl_refl)
qed

theorem FairMutex_fifo_witness: "\<exists>s'. (mutex_step ^^ 2) contended s' \<and> holders s' = [3]"
proof -
  have "sendq (mu contended) = [2] @ 3 # []" by (simp add: contended_def)
  then show ?thesis using FairMutex_fifo [OF contended_reached] by (metis One_nat_def Suc_1 length_Cons list.size(3))
qed

section \<open>Writers\<close>


text \<open>Two calls; the second sends first, and the connection fails before the first one is handled.\<close>

definition sample_events :: "event list" where
  "sample_events = [ECall 0 (hello_frame False True) False, EGet 0 0, ECall 1 (makestream_frame 1) False, EGet 1 1, ESend 1, ESend 0,
     EReceive, EWrite, EAnswer, EReturn 1, ECheck, EReceive, EFail EOF, EWrite, EAnswer, EReturn 0, EReceive]"

definition sample_writers :: writers where
  "sample_writers = the (execs mirror_flate sample_events (writers_init (NewConn True 0 sample_io)))"

lemma sample_writing: "writing mirror_flate (NewConn True 0 sample_io) sample_writers"
proof -
  have "execs mirror_flate sample_events (writers_init (NewConn True 0 sample_io)) \<noteq> None" by code_simp
  then have "execs mirror_flate sample_events (writers_init (NewConn True 0 sample_io)) = Some sample_writers"
    by (auto simp: sample_writers_def)
  then show ?thesis by (rule execs_writing) (rule writing_start)
qed


text \<open>
  C11. The frames of concurrent writers are never mixed: while no write of the connection fails and
  compression is off, the bytes sent are exactly the frames of the calls that were answered without an error,
  each one whole and once, in the order in which the goroutine handled them.
\<close>

theorem writers_output:
  assumes "writing z c s" and "compression c = CompressionMethodNone" and "faultless (cio c)"
    and "compression (wconn s) = CompressionMethodNone" and "\<forall>f\<in>set (sentFrames s). frame_sized f"
  shows "outp (cio (wconn s)) = outp (cio c) @ concat (map frame_bytes (sentFrames s))"
  using writing_output [OF assms] by simp

theorem writers_output_witness:
  "outp (cio (wconn sample_writers)) = frame_bytes (makestream_frame 1)"
proof -
  have f: "sentFrames sample_writers = [makestream_frame 1]" "compression (wconn sample_writers) = CompressionMethodNone" by code_simp+
  have "faultless (cio (NewConn True 0 sample_io))" by (simp add: NewConn_def sample_io_def faultless_def)
  moreover have "frame_sized (makestream_frame 1)" by code_simp
  moreover have "compression (NewConn True 0 sample_io) = CompressionMethodNone" "outp (cio (NewConn True 0 sample_io)) = []"
    by (simp_all add: NewConn_def sample_io_def)
  ultimately show ?thesis using writers_output [OF sample_writing] f by simp
qed




text \<open>
  C39. The comparison with the last frame reads an object that has been answered and may have been recycled.
  There is a run in which the GOAWAY frame was sent and its Write returned, and the connection stays open and
  sends another frame; and one in which the connection is terminated before the GOAWAY frame is sent, and the
  Write of goAway panics.
\<close>

theorem goAway_recycled:
  assumes "faultless io" and "\<not> ioclosed io"
  shows "(\<exists>s k. writing z (NewConn p i io) s \<and> wcalls s 0 = Some k \<and> cframe k = g \<and> cpc k = Returned (Ok ()) \<and>
      terminateAfter (wconn s) = Some (cptr k) \<and> sentFrames s = [g, fr] \<and> service s = Ranging \<and> toWrite s = [] \<and> running (wconn s)) \<and>
    (\<exists>s k. writing z (NewConn p i io) s \<and> wcalls s 1 = Some k \<and> cframe k = g \<and> terminateAfter (wconn s) = Some (cptr k) \<and>
      cpc k = Returned (Panic ''send on closed channel'') \<and> sentFrames s = [fr] \<and> \<not> running (wconn s))"
proof (intro conjI)
  from missed_runs [OF assms] obtain s where s: "execs z (missed g fr) (writers_init (NewConn p i io)) = Some s"
    "wcalls s 0 = Some \<lparr>cptr = 0, cframe = g, cpc = Returned (Ok ())\<rparr>" "terminateAfter (wconn s) = Some 0" "running (wconn s)"
    "sentFrames s = [g, fr]" "service s = Ranging" "toWrite s = []" .
  from execs_writing [OF s(1) writing_start] s(2-) show "\<exists>s k. writing z (NewConn p i io) s \<and> wcalls s 0 = Some k \<and> cframe k = g \<and>
      cpc k = Returned (Ok ()) \<and> terminateAfter (wconn s) = Some (cptr k) \<and> sentFrames s = [g, fr] \<and> service s = Ranging \<and>
      toWrite s = [] \<and> running (wconn s)" by (intro exI [of _ s]) simp
  from early_runs [OF assms] obtain t where t: "execs z (early g fr) (writers_init (NewConn p i io)) = Some t" "\<not> running (wconn t)"
    "sentFrames t = [fr]" "terminateAfter (wconn t) = Some 1"
    "wcalls t 1 = Some \<lparr>cptr = 1, cframe = g, cpc = Returned (Panic ''send on closed channel'')\<rparr>" .
  from execs_writing [OF t(1) writing_start] t(2-) show "\<exists>s k. writing z (NewConn p i io) s \<and> wcalls s 1 = Some k \<and> cframe k = g \<and>
      terminateAfter (wconn s) = Some (cptr k) \<and> cpc k = Returned (Panic ''send on closed channel'') \<and> sentFrames s = [fr] \<and>
      \<not> running (wconn s)" by (intro exI [of _ t]) simp
qed

definition sample_goaway :: frame where
  "sample_goaway = GoAway_IntoFrame \<lparr>LastStreamID = 0, goAwayErrorCode = ErrorCodeProtocolError, AdditionalData = []\<rparr>"

theorem goAway_recycled_witness:
  "\<exists>s. writing mirror_flate (NewConn True 0 sample_io) s \<and> sentFrames s = [sample_goaway, makestream_frame 1] \<and> running (wconn s)"
  using goAway_recycled [of sample_io mirror_flate True 0 sample_goaway "makestream_frame 1"] by (auto simp: sample_io_def faultless_def)

section \<open>Remote procedure calls\<close>

text \<open>
  C3. A remote procedure call: Call on a client, over any chunks, makes the stream on a working server
  connection; servicing that stream runs the registered method on the request in canonical form; the bytes the
  server then sends, over any chunks, reach the stream of the call; and Call returns a context with the
  response of the method in canonical form. Request and response fit in one frame each, neither side
  compresses, and the server has a logger and no interceptors.
\<close>

theorem unary_rpc:
  assumes "Call_send \<Gamma> (client_ops z) cancelled svcName meth opts (s0, cl) = (Ok (Some (req, target)), s, cl')"
    and "\<not> reqStreaming req" and "Request_valid req" and "Request_norm inst \<Gamma> req = Ok req'" and "wrapMessage \<Gamma> (Request req) = Ok enc"
    and "length enc \<le> maxPayload" and "clCompression cl = CompressionMethodNone" and "clLastStreamID cl \<noteq> - 1" and "clSetup cl"
    and "healthy c" and "fetchStream (clLastStreamID cl + 1) c = None"
    and "logger srv" and "interceptors srv = []" and "map_of (services srv) (Service req') = Some svc"
    and "map_of (Methods svc) (Method req') = Some f" and "answers \<Gamma> (stream_Write (Conn_Write z)) f req' resp"
    and "Response_valid resp" and "wrapMessage \<Gamma> (Response resp) = Ok bs" and "length bs \<le> maxPayload" and "Response_norm inst \<Gamma> resp = Ok resp'"
    and "rflat r = drop (length (client_out cl)) (client_out cl')"
  shows "\<exists>c1 r1 t. serviceReads z ord r c = serviceReads z ord r1 c1 \<and> rflat r1 = [] \<and> fetchStream (clLastStreamID cl + 1) c1 = Some t \<and>
    (\<forall>rr i. stream_as rr t \<longrightarrow> (\<exists>t2 c2 srv2.
      arf_ServiceStream \<Gamma> inst etext (conn_ops z) (Ok i) rr ((t, c1), srv) = (Ok (), (t2, c2), srv2) \<and>
      (\<forall>q. rflat q = drop (length (Conn_out c1)) (Conn_out c2) \<longrightarrow> (\<exists>s2 cl2 q2.
        client_serviceReads z q cl' = client_serviceReads z q2 cl2 \<and> rflat q2 = [] \<and>
        client_fetchStream (clLastStreamID cl + 1) cl2 = Some s2 \<and>
        (\<forall>rc. stream_as rc s2 \<longrightarrow> fst (Call \<Gamma> inst (client_ops z) cancelled svcName meth opts (rc, s0, cl)) =
          Ok (Some (callCtx req resp', if target then Some (respMetadata resp') else None)))))))"
  by (rule unary_call_returns [OF assms(1-12,14) answers_sends_back assms(17-21)]) (use assms in simp_all)

text \<open>A service whose method returns the parameters of its request.\<close>

definition echo :: "(stream \<times> Conn) handler" where
  "echo st =
     (let (c, r, w) = st;
          (out, c, w) = SendResponse sample_env (stream_Write (Conn_Write mirror_flate)) 0
            (case cxReq c of Some req \<Rightarrow> reqParams req | None \<Rightarrow> []) False [] (c, w)
      in (out, c, r, w))"

definition echo_service :: "(stream \<times> Conn) serviceAdapter" where
  "echo_service = \<lparr>Methods = [(ascii ''Echo'', echo)], ServiceID = ascii ''svc''\<rparr>"

definition echo_server :: "(stream \<times> Conn) srv" where
  "echo_server = snd (RegisterService echo_service (arf_NewServer True))"

definition echo_response :: response where
  "echo_response = \<lparr>respStatus = 0, respStreaming = False, respMetadata = [], respParams = reqParams sample_request\<rparr>"

definition echo_response_bytes :: bytes where
  "echo_response_bytes = (case wrapMessage sample_env (Response echo_response) of Ok bs \<Rightarrow> bs | _ \<Rightarrow> [])"

definition ready_client :: client where
  "ready_client = snd (dispatch mirror_flate (hello_frame True False) sample_client)"

definition ready_call :: "(request \<times> bool) option outcome \<times> stream \<times> client" where
  "ready_call = Call_send sample_env (client_ops mirror_flate) False (ascii ''svc'') (ascii ''Echo'') sample_opts (NewStream 0, ready_client)"

lemma ready_call_facts:
  "Call_send sample_env (client_ops mirror_flate) False (ascii ''svc'') (ascii ''Echo'') sample_opts (NewStream 0, ready_client) =
     (Ok (Some (sample_request, False)), fst (snd ready_call), snd (snd ready_call))"
  "clCompression ready_client = CompressionMethodNone" "clLastStreamID ready_client \<noteq> - 1" "clSetup ready_client"
  "healthy sample_configured" "fetchStream (clLastStreamID ready_client + 1) sample_configured = None" "\<not> reqStreaming sample_request"
proof -
  have "fst ready_call = Ok (Some (sample_request, False))" by code_simp
  then show "Call_send sample_env (client_ops mirror_flate) False (ascii ''svc'') (ascii ''Echo'') sample_opts (NewStream 0, ready_client) =
      (Ok (Some (sample_request, False)), fst (snd ready_call), snd (snd ready_call))" by (simp add: ready_call_def prod_eq_iff)
  show "clCompression ready_client = CompressionMethodNone" "clLastStreamID ready_client \<noteq> - 1" "clSetup ready_client"
    "fetchStream (clLastStreamID ready_client + 1) sample_configured = None" by code_simp+
  have "fault (cio sample_configured) k = None" for k by code_simp
  then have "faultless (cio sample_configured)" by (simp add: faultless_def)
  moreover have "running sample_configured \<and> configured sample_configured \<and> cerr sample_configured = None \<and> \<not> toWriteClosed sample_configured \<and>
      \<not> ioclosed (cio sample_configured) \<and> compression sample_configured = CompressionMethodNone" by code_simp
  ultimately show "healthy sample_configured" by (simp add: healthy_def)
  show "\<not> reqStreaming sample_request" by (simp add: sample_request_def)
qed

theorem unary_rpc_witness:
  "\<exists>c1 r1 t. serviceReads mirror_flate (\<lambda>x. x) (NewReader (drop (length (client_out ready_client)) (client_out (snd (snd ready_call))))) sample_configured
      = serviceReads mirror_flate (\<lambda>x. x) r1 c1 \<and> rflat r1 = [] \<and> fetchStream (clLastStreamID ready_client + 1) c1 = Some t \<and>
    (\<forall>rr i. stream_as rr t \<longrightarrow> (\<exists>t2 c2 srv2.
      arf_ServiceStream sample_env sample_inst (\<lambda>e. []) (conn_ops mirror_flate) (Ok i) rr ((t, c1), echo_server) = (Ok (), (t2, c2), srv2) \<and>
      (\<forall>q. rflat q = drop (length (Conn_out c1)) (Conn_out c2) \<longrightarrow> (\<exists>s2 cl2 q2.
        client_serviceReads mirror_flate q (snd (snd ready_call)) = client_serviceReads mirror_flate q2 cl2 \<and> rflat q2 = [] \<and>
        client_fetchStream (clLastStreamID ready_client + 1) cl2 = Some s2 \<and>
        (\<forall>rc. stream_as rc s2 \<longrightarrow> fst (Call sample_env sample_inst (client_ops mirror_flate) False (ascii ''svc'') (ascii ''Echo'') sample_opts
            (rc, NewStream 0, ready_client)) =
          Ok (Some (callCtx sample_request echo_response, if False then Some (respMetadata echo_response) else None)))))))"
proof -
  have srv: "logger echo_server" "interceptors echo_server = []" "map_of (services echo_server) (Service sample_request) = Some echo_service"
    "map_of (Methods echo_service) (Method sample_request) = Some echo"
    by (simp_all add: echo_server_def echo_service_def RegisterService_def ArfServiceID_def arf_NewServer_def sample_request_def Let_def)
  have ans: "answers sample_env (stream_Write (Conn_Write mirror_flate)) echo sample_request echo_response"
    by (simp add: answers_def echo_def echo_response_def newCtx_def)
  have resp: "wrapMessage sample_env (Response echo_response) = Ok echo_response_bytes" "Response_norm sample_inst sample_env echo_response = Ok echo_response"
    "length echo_response_bytes < 100" by code_simp+
  have valid: "Response_valid echo_response" by (simp add: Response_valid_def echo_response_def metadata_ok_def sample_request_def)
  have small: "length echo_response_bytes \<le> maxPayload" using resp(3) by (simp add: maxPayload_def)
  show ?thesis
    by (rule unary_rpc [OF ready_call_facts(1,7) sample_request_facts(1,3,2,4) ready_call_facts(2-6) srv ans valid resp(1) small resp(2)]) simp
qed

text \<open>
  C36. An error of a method, end to end: a method of a registered service returns an error for the request of
  a unary call, without having written to the stream. Then the server sends a response with the status and the
  description that belong to the error, Call on the client returns a context with exactly that response, and
  its Result is a BadStatus error with the same status and description. The server has a logger and no
  interceptors, the status lies between 1 and 65535, request and response fit in one frame each, neither side
  compresses, and no write fails.
\<close>

theorem method_error_reported:
  assumes "Call_send \<Gamma> (client_ops z) cancelled svcName meth opts (s0, cl) = (Ok (Some (req, target)), s, cl')"
    and "\<not> reqStreaming req" and "Request_valid req" and "Request_norm inst \<Gamma> req = Ok req'" and "wrapMessage \<Gamma> (Request req) = Ok enc"
    and "length enc \<le> maxPayload" and "clCompression cl = CompressionMethodNone" and "clLastStreamID cl \<noteq> - 1" and "clSetup cl"
    and "healthy c" and "fetchStream (clLastStreamID cl + 1) c = None"
    and "logger srv" and "interceptors srv = []" and "map_of (services srv) (Service req') = Some svc"
    and "map_of (Methods svc) (Method req') = Some f" and "fails_with f req' e"
    and "errorStatus etext e = (st, msg)" and "0 < st" and "st < 65536"
    and "wrapMessage \<Gamma> (Response (statusResponse st msg)) = Ok bs" and "length bs \<le> maxPayload"
    and "rflat r = drop (length (client_out cl)) (client_out cl')"
  shows "(\<exists>c1 r1 t. serviceReads z ord r c = serviceReads z ord r1 c1 \<and> rflat r1 = [] \<and> fetchStream (clLastStreamID cl + 1) c1 = Some t \<and>
    (\<forall>rr i. stream_as rr t \<longrightarrow> (\<exists>t2 c2 srv2.
      arf_ServiceStream \<Gamma> inst etext (conn_ops z) (Ok i) rr ((t, c1), srv) = (Ok (), (t2, c2), srv2) \<and>
      (\<forall>q. rflat q = drop (length (Conn_out c1)) (Conn_out c2) \<longrightarrow> (\<exists>s2 cl2 q2.
        client_serviceReads z q cl' = client_serviceReads z q2 cl2 \<and> rflat q2 = [] \<and>
        client_fetchStream (clLastStreamID cl + 1) cl2 = Some s2 \<and>
        (\<forall>rc. stream_as rc s2 \<longrightarrow> fst (Call \<Gamma> inst (client_ops z) cancelled svcName meth opts (rc, s0, cl)) =
          Ok (Some (callCtx req (statusResponse st msg), if target then Some (respMetadata (statusResponse st msg)) else None)))))))) \<and>
    cxResp (callCtx req (statusResponse st msg)) = Some (statusResponse st msg) \<and>
    Response_Result (statusResponse st msg) = Fail (BadStatus st msg)"
proof -
  have sb: "sends_back \<Gamma> inst etext (conn_ops z) srv svc req' bs" by (rule fails_sends_back [OF assms(13,15-17,20)])
  note arr = statusResponse_arrives [OF assms(20,21)]
  show ?thesis
    using unary_call_returns [OF assms(1-12,14) sb arr(1) assms(20,21) arr(2) assms(22)] Result_statusResponse [OF assms(18,19)]
    by (simp add: callCtx_def)
qed

text \<open>A service whose method returns an error.\<close>

definition sample_service :: "(stream \<times> Conn) serviceAdapter" where
  "sample_service = \<lparr>Methods = [(ascii ''Echo'', \<lambda>st. (Fail (BadStatus 5 (ascii ''none'')), st))], ServiceID = ascii ''svc''\<rparr>"

definition sample_server :: "(stream \<times> Conn) srv" where
  "sample_server = snd (RegisterService sample_service (arf_NewServer True))"

definition sample_error_bytes :: bytes where
  "sample_error_bytes = (case wrapMessage sample_env (Response (statusResponse 5 (ascii ''none''))) of Ok bs \<Rightarrow> bs | _ \<Rightarrow> [])"

theorem method_error_reported_witness:
  "(\<exists>c1 r1 t. serviceReads mirror_flate (\<lambda>x. x) (NewReader (drop (length (client_out ready_client)) (client_out (snd (snd ready_call))))) sample_configured
      = serviceReads mirror_flate (\<lambda>x. x) r1 c1 \<and> rflat r1 = [] \<and> fetchStream (clLastStreamID ready_client + 1) c1 = Some t \<and>
    (\<forall>rr i. stream_as rr t \<longrightarrow> (\<exists>t2 c2 srv2.
      arf_ServiceStream sample_env sample_inst (\<lambda>e. []) (conn_ops mirror_flate) (Ok i) rr ((t, c1), sample_server) = (Ok (), (t2, c2), srv2) \<and>
      (\<forall>q. rflat q = drop (length (Conn_out c1)) (Conn_out c2) \<longrightarrow> (\<exists>s2 cl2 q2.
        client_serviceReads mirror_flate q (snd (snd ready_call)) = client_serviceReads mirror_flate q2 cl2 \<and> rflat q2 = [] \<and>
        client_fetchStream (clLastStreamID ready_client + 1) cl2 = Some s2 \<and>
        (\<forall>rc. stream_as rc s2 \<longrightarrow> fst (Call sample_env sample_inst (client_ops mirror_flate) False (ascii ''svc'') (ascii ''Echo'') sample_opts
            (rc, NewStream 0, ready_client)) =
          Ok (Some (callCtx sample_request (statusResponse 5 (ascii ''none'')), if False then Some (respMetadata (statusResponse 5 (ascii ''none''))) else None)))))))) \<and>
    cxResp (callCtx sample_request (statusResponse 5 (ascii ''none''))) = Some (statusResponse 5 (ascii ''none'')) \<and>
    Response_Result (statusResponse 5 (ascii ''none'')) = Fail (BadStatus 5 (ascii ''none''))"
proof -
  have srv: "logger sample_server" "interceptors sample_server = []" "map_of (services sample_server) (Service sample_request) = Some sample_service"
    "map_of (Methods sample_service) (Method sample_request) = Some (\<lambda>st. (Fail (BadStatus 5 (ascii ''none'')), st))"
    by (simp_all add: sample_server_def sample_service_def RegisterService_def ArfServiceID_def arf_NewServer_def sample_request_def Let_def)
  have fails: "fails_with (\<lambda>st. (Fail (BadStatus 5 (ascii ''none'')), st)) sample_request (BadStatus 5 (ascii ''none''))"
    by (simp add: fails_with_def newCtx_def)
  have err: "errorStatus (\<lambda>e. []) (BadStatus 5 (ascii ''none'')) = (5, ascii ''none'')" by (simp add: errorStatus_def)
  have resp: "wrapMessage sample_env (Response (statusResponse 5 (ascii ''none''))) = Ok sample_error_bytes" "length sample_error_bytes < 100" by code_simp+
  have small: "length sample_error_bytes \<le> maxPayload" using resp(2) by (simp add: maxPayload_def)
  show ?thesis
    by (rule method_error_reported [OF ready_call_facts(1,7) sample_request_facts(1,3,2,4) ready_call_facts(2-6) srv fails err _ _ resp(1) small]) simp_all
qed

section \<open>The network\<close>

text \<open>
  C5. Frames across the network, in both directions and in every such run: what a side has sent is a sequence
  of well-formed frames, the frames its peer has read are a prefix of it, and the next read of the peer
  returns the next of them, or waits because something has not arrived or there is no further frame, or
  reports the end of the file after the last frame, when the side has closed. No read returns another frame or
  another error. No write of the connections below fails, and neither side compresses.
\<close>

theorem network_in_order:
  assumes "net_run z ord (net_start p i ios ioc) n"
    and "faultless ios" and "outp ios = []" and "\<not> ioclosed ios" and "faultless ioc" and "outp ioc = []"
    and "clCompression (netClient n) = CompressionMethodNone" and "compression (netServer n) = CompressionMethodNone"
  shows "in_order (clio (netClient n)) (upCount n) (svIn n) (svFrames n) \<and> in_order (cio (netServer n)) (downCount n) (clIn n) (clFrames n)"
  using net_inv_order [OF net_run_inv [OF assms(1) net_start_inv [OF assms(2-6)]]] assms(7,8) by simp

text \<open>Two streams; frames of both cross the network in pieces, and the service reads from the first.\<close>

definition sample_moves :: "net_move list" where
  "sample_moves =
     [ClientConfigures CompressionMethodNone, Up 7, ClientOpens, ClientOpens, ClientCall 1 (AppWrite [1, 2, 3] False), Up 8, ServerReads,
      ClientCall 2 (AppWrite [7] False), Down 4, Up 14, ServerReads, Up 22, ClientCall 1 (AppWrite [4] False), ServerReads, ServerReads,
      ServerCall 1 (AppWrite [9] True), ServerCall 1 (AppRead 2), Up 24, ServerReads, Down 11, ClientReads, Down 12, ClientReads,
      ServerReads]"

definition sample_net :: net where
  "sample_net = the (net_execs mirror_flate id sample_moves (net_start True 0 sample_io sample_io))"

lemma sample_net_run: "net_run mirror_flate id (net_start True 0 sample_io sample_io) sample_net"
proof -
  have "net_execs mirror_flate id sample_moves (net_start True 0 sample_io sample_io) \<noteq> None" by code_simp
  then have "net_execs mirror_flate id sample_moves (net_start True 0 sample_io sample_io) = Some sample_net"
    by (auto simp: sample_net_def)
  then show ?thesis by (rule net_execs_run) (rule net_run_start)
qed

lemma sample_io_fresh: "faultless sample_io" "outp sample_io = []" "\<not> ioclosed sample_io"
  by (simp_all add: sample_io_def faultless_def)

theorem network_in_order_witness:
  "map FrameKind (svFrames sample_net) = [0, 3, 3, 5, 5, 5] \<and> map FrameKind (clFrames sample_net) = [0, 5] \<and>
   in_order (clio (netClient sample_net)) (upCount sample_net) (svIn sample_net) (svFrames sample_net)"
proof -
  have "map FrameKind (svFrames sample_net) = [0, 3, 3, 5, 5, 5]" "map FrameKind (clFrames sample_net) = [0, 5]"
    "clCompression (netClient sample_net) = CompressionMethodNone" "compression (netServer sample_net) = CompressionMethodNone" by code_simp+
  with network_in_order [OF sample_net_run sample_io_fresh sample_io_fresh(1,2)] show ?thesis by simp
qed

text \<open>
  C4. Streams across the network: in every run of a client and a server connection joined by a network that
  delivers bytes in order, in pieces and at times of its choosing, with any number of streams and any order of
  the calls of the two applications, what the service has read from a stream and what is ready to be read is a
  prefix of what the application of the client has written to that stream with success; nothing is lost,
  repeated, reordered or mixed with another stream. It is all of it once everything has arrived and been
  handled, while the stream takes data. No write of the connections below fails, and the client sends without
  compression.
\<close>

theorem stream_bytes_in_order:
  assumes "net_run z ord (net_start p k ios ioc) n"
    and "faultless ios" and "outp ios = []" and "\<not> ioclosed ios" and "faultless ioc" and "outp ioc = []"
    and "clCompression (netClient n) = CompressionMethodNone" and "fetchStream i (netServer n) = Some s"
  shows "prefix (svBytes n i @ concat (stream_chunks s)) (clBytes n i) \<and>
    (receiving s \<and> upCount n = length (client_out (netClient n)) \<and> fst (FrameReader_Read (svIn n)) = Blocks \<longrightarrow>
      svBytes n i @ concat (stream_chunks s) = clBytes n i)"
  using net_inv_stream [OF net_run_inv [OF assms(1) net_start_inv [OF assms(2-6)]] assms(7,8)] by blast

theorem stream_bytes_in_order_witness:
  "svBytes sample_net 1 = [1, 2] \<and> clBytes sample_net 1 = [1, 2, 3, 4] \<and>
   (\<exists>s. fetchStream 1 (netServer sample_net) = Some s \<and> svBytes sample_net 1 @ concat (stream_chunks s) = clBytes sample_net 1)"
proof -
  have f: "svBytes sample_net 1 = [1, 2]" "clBytes sample_net 1 = [1, 2, 3, 4]" "clCompression (netClient sample_net) = CompressionMethodNone"
    "upCount sample_net = length (client_out (netClient sample_net))" "fst (FrameReader_Read (svIn sample_net)) = Blocks"
    "map_option receiving (fetchStream 1 (netServer sample_net)) = Some True" by code_simp+
  then obtain s where s: "fetchStream 1 (netServer sample_net) = Some s" "receiving s" by auto
  from stream_bytes_in_order [OF sample_net_run sample_io_fresh sample_io_fresh(1,2) f(3) s(1)] s f(4,5) have
    "svBytes sample_net 1 @ concat (stream_chunks s) = clBytes sample_net 1" by blast
  with f(1,2) s(1) show ?thesis by blast
qed

end
